(* ===== verification/Prelude.thy ===== *)
theory Prelude
  imports Main "HOL-Library.Word" "HOL-Library.AList" "HOL-Library.Char_ord"
    "HOL-Library.List_Lexorder"
begin

text \<open>
  Shared vocabulary of the development: the Go types the sources use, the result type for
  functions that may fail, Go maps as association lists with distinct keys, and the lemmas
  on these that every component theory relies on.

  A Go function that can return a non-nil \<open>error\<close> or panic is modelled with result type
  \<open>'a res\<close>: \<open>Inl (Error msg)\<close> is a returned error, \<open>Inl (Panic msg)\<close> a run-time panic
  (nil dereference, index out of range, explicit \<open>panic\<close>), \<open>Inr x\<close> a normal return. Since a
  panic and an error both abort the computation being modelled, sequencing (\<open>rbind\<close>)
  treats them alike, but keeps them distinguishable.

  A Go map is an association list \<open>(key, value) list\<close> whose keys are distinct
  (\<open>gomap\<close>). The order of the list is the order in which \<open>range\<close> visits the map; since Go
  leaves this order open, the theorems about code that ranges over a map hold for every
  order of the list.
\<close>

section \<open>Results: values, returned errors, panics\<close>

datatype goerr = Error string | Panic string

type_synonym 'a res = "goerr + 'a"

fun rbind :: "'a res \<Rightarrow> ('a \<Rightarrow> 'b res) \<Rightarrow> 'b res" where
  "rbind (Inl e) f = Inl e"
| "rbind (Inr x) f = f x"

fun is_panic :: "'a res \<Rightarrow> bool" where
  "is_panic (Inl (Panic _)) = True"
| "is_panic _ = False"

fun is_ok :: "'a res \<Rightarrow> bool" where
  "is_ok (Inr _) = True"
| "is_ok (Inl _) = False"

section \<open>Go types\<close>

type_synonym byte = "8 word"
type_synonym bytes = "byte list"
type_synonym uint64 = "64 word"

type_synonym NodeID = string
type_synonym ModuleID = string
type_synonym ClientID = string
type_synonym SeqNr = uint64
type_synonym TxNo = uint64
type_synonym EpochNr = uint64
type_synonym ViewNr = uint64
type_synonym RetentionIndex = uint64
type_synonym Duration = uint64

type_synonym ('k, 'v) gomap = "('k \<times> 'v) list"

abbreviation gomap_ok :: "('k, 'v) gomap \<Rightarrow> bool" where
  "gomap_ok m \<equiv> distinct (map fst m)"

abbreviation mhas :: "('k, 'v) gomap \<Rightarrow> 'k \<Rightarrow> bool" where
  "mhas m k \<equiv> map_of m k \<noteq> None"

text \<open>Dereferencing a pointer and indexing a slice.\<close>

definition deref :: "'a option \<Rightarrow> 'a res" where
  "deref x = (case x of None \<Rightarrow> Inl (Panic ''nil pointer dereference'') | Some y \<Rightarrow> Inr y)"

definition index :: "'a list \<Rightarrow> int \<Rightarrow> 'a res" where
  "index xs i = (if 0 \<le> i \<and> i < int (length xs) then Inr (xs ! nat i) else Inl (Panic ''index out of range''))"

named_theorems res_simps \<open>sequencing of results\<close>
named_theorems gomap_simps \<open>lookup, update and deletion in Go maps\<close>

section \<open>Lemmas on results\<close>

lemma rbind_eq_Inr [res_simps]: "rbind r f = Inr y \<longleftrightarrow> (\<exists>x. r = Inr x \<and> f x = Inr y)"
  by (cases r) auto

lemma rbind_eq_Inl [res_simps]:
  "rbind r f = Inl e \<longleftrightarrow> r = Inl e \<or> (\<exists>x. r = Inr x \<and> f x = Inl e)"
  by (cases r) auto

lemma is_ok_iff [res_simps]: "is_ok r \<longleftrightarrow> (\<exists>x. r = Inr x)"
  by (cases r) auto

lemma is_panic_iff [res_simps]: "is_panic r \<longleftrightarrow> (\<exists>m. r = Inl (Panic m))"
  by (cases r rule: is_panic.cases) auto

lemma rbind_assoc: "rbind (rbind r f) g = rbind r (\<lambda>x. rbind (f x) g)"
  by (cases r) auto

section \<open>Lemmas on Go maps\<close>

lemma map_of_mupd [simp, gomap_simps]:
  "map_of (AList.update k v m) k' = (if k' = k then Some v else map_of m k')"
  by (simp add: update_conv')

lemma map_of_mdel [simp, gomap_simps]:
  "map_of (AList.delete k m) k' = (if k' = k then None else map_of m k')"
  by (simp add: delete_conv')

lemma gomap_ok_mupd [simp, intro, gomap_simps]: "gomap_ok m \<Longrightarrow> gomap_ok (AList.update k v m)"
  by (rule distinct_update)

lemma gomap_ok_mdel [simp, intro, gomap_simps]: "gomap_ok m \<Longrightarrow> gomap_ok (AList.delete k m)"
  by (rule distinct_delete)

lemma gomap_ok_filter [simp, intro]: "gomap_ok m \<Longrightarrow> gomap_ok (filter P m)"
  by (induction m) auto

lemma keys_mupd [simp, gomap_simps]: "fst ` set (AList.update k v m) = insert k (fst ` set m)"
  by (simp add: dom_update)

lemma keys_mdel [simp, gomap_simps]: "fst ` set (AList.delete k m) = fst ` set m - {k}"
  by (induction m) auto

lemma mhas_iff: "mhas m k \<longleftrightarrow> k \<in> fst ` set m"
  by (simp add: map_of_eq_None_iff)

lemma map_of_filter_val:
  "gomap_ok m \<Longrightarrow> map_of (filter P m) k =
     (case map_of m k of None \<Rightarrow> None | Some v \<Rightarrow> if P (k, v) then Some v else None)"
  by (induction m) (auto simp: map_of_eq_None_iff rev_image_eqI split: option.splits)

lemma map_of_map_vals:
  "map_of (map (\<lambda>(k, v). (k, f k v)) m) k' = map_option (f k') (map_of m k')"
  by (induction m) auto

lemma gomap_mem_iff: "gomap_ok m \<Longrightarrow> (k, v) \<in> set m \<longleftrightarrow> map_of m k = Some v"
  by (auto intro: map_of_is_SomeI dest: map_of_SomeD)

lemma set_mupd_old:
  "gomap_ok m \<Longrightarrow> p \<in> set (AList.update k v m) \<longleftrightarrow> p = (k, v) \<or> (p \<in> set m \<and> fst p \<noteq> k)"
  using gomap_mem_iff [of "AList.update k v m" "fst p" "snd p"] gomap_mem_iff [of m "fst p" "snd p"]
  by (cases p) auto

lemma mupd_subset: "set (AList.update k v m) \<subseteq> insert (k, v) (set m)"
  by (induction m) (auto split: if_splits)

lemma mdel_subset: "set (AList.delete k m) \<subseteq> set m"
  by (induction m) auto

lemma length_mupd:
  "length (AList.update k v m) = (if k \<in> fst ` set m then length m else Suc (length m))"
  by (induction m) auto

lemma length_mdel_less: "k \<in> fst ` set m \<Longrightarrow> length (AList.delete k m) < length m"
proof (induction m)
  case (Cons p m)
  then show ?case using length_delete_le [of k m] by auto
qed simp

section \<open>Lemmas on machine integers\<close>

lemma of_nat_u64_inj: "x < 2 ^ 64 \<Longrightarrow> y < 2 ^ 64 \<Longrightarrow> (of_nat x :: uint64) = of_nat y \<longleftrightarrow> x = y"
  by (auto simp: word_of_nat_eq_iff take_bit_nat_eq_self)

lemma word_pred_less: "v \<noteq> 0 \<Longrightarrow> v - 1 < (v :: uint64)"
  by (simp add: word_less_nat_alt measure_unat)

lemma word_less_succ:
  assumes "v < (w :: uint64)"
  shows "unat (v + 1) = Suc (unat v) \<and> unat v < unat w \<and> v + 1 \<le> w"
proof -
  have less: "unat v < unat w" using assms by (simp add: word_less_nat_alt)
  moreover have "unat w < 2 ^ 64" by (rule order.strict_trans2 [OF unsigned_less]) simp
  ultimately have "Suc (unat v) < 2 ^ 64" by linarith
  then have "unat (v + 1) = Suc (unat v)" by (simp add: unat_word_ariths)
  with less show ?thesis by (simp add: word_le_nat_alt)
qed

lemma word_le_pred: "v \<noteq> w \<Longrightarrow> v \<le> w \<Longrightarrow> v \<le> w - (1 :: uint64)"
proof -
  assume "v \<noteq> w" "v \<le> w"
  then have "v < w" by simp
  then have "unat v < unat w" "w \<noteq> 0" by (auto simp: word_less_nat_alt)
  then show ?thesis by (simp add: word_le_nat_alt unat_minus_one)
qed

lemma sint_small:
  assumes "unat (w :: uint64) < 2 ^ 63"
  shows "sint w = int (unat w)"
proof -
  have "int (unat w) < int (2 ^ 63)" using assms by (simp only: of_nat_less_iff)
  then have "signed_take_bit 63 (uint w) = uint w"
    by (intro signed_take_bit_int_eq_self) (rule order_trans [OF _ uint_ge_0], simp_all)
  then show ?thesis by (simp add: sint_uint)
qed

lemma sint_large:
  assumes "2 ^ 63 \<le> unat (w :: uint64)"
  shows "sint w = int (unat w) - 2 ^ 64"
proof -
  have bounds: "2 ^ 63 \<le> uint w" "uint w < 2 ^ 64"
    using assms uint_lt2p [of w] of_nat_le_iff [of "2 ^ 63" "unat w", where 'a = int]
    by simp_all
  have "signed_take_bit 63 (uint w) = signed_take_bit 63 (uint w - 2 ^ 64)"
    by (simp add: signed_take_bit_eq_iff_take_bit_eq take_bit_eq_mod)
  also have "\<dots> = uint w - 2 ^ 64"
    using bounds by (intro signed_take_bit_int_eq_self) simp_all
  finally show ?thesis by (simp add: sint_uint)
qed

section \<open>Lemmas on lists\<close>

lemma sum_list_mono_subset:
  fixes w :: "'a \<Rightarrow> int"
  assumes "distinct xs" "set xs \<subseteq> set ys" "\<And>y. y \<in> set ys \<Longrightarrow> 0 \<le> w y"
  shows "sum_list (map w xs) \<le> sum_list (map w ys)"
proof -
  have "sum_list (map w xs) = sum w (set xs)"
    using assms(1) by (simp add: sum_list_distinct_conv_sum_set)
  also have "\<dots> \<le> sum w (set ys)"
    using assms(2,3) by (intro sum_mono2) auto
  also have "\<dots> = sum_list (map w (remdups ys))"
    by (simp add: sum_list_distinct_conv_sum_set)
  also have "\<dots> \<le> sum_list (map w ys)"
    using assms(3)
  proof (induction ys)
    case (Cons y ys)
    then have "sum_list (map w (remdups ys)) \<le> sum_list (map w ys)" "0 \<le> w y" by auto
    then show ?case by auto
  qed simp
  finally show ?thesis .
qed

lemma disjoint_imageI: "(\<And>x. x \<in> B \<Longrightarrow> f x \<notin> A) \<Longrightarrow> A \<inter> f ` B = {}"
  by auto

lemma sorted_sort_key_id [simp]: "sort (sort xs) = sort xs"
  by (rule sorted_sort_id) (rule sorted_sort)

end
