(* ===== verification/GoUtil.thy ===== *)
theory GoUtil
  imports Prelude
begin

text \<open>
  Models of the small utility packages the protocol code is written with:
  \<^item> \<open>pkg/util/maputil\<close> and \<open>pkg/util/sliceutil\<close>: loops over maps and slices;
  \<^item> \<open>pkg/serializing\<close>: fixed-width little-endian encoding of unsigned 64-bit integers;
  \<^item> \<open>stdtypes/moduleid.go\<close>: hierarchical module identifiers;
  \<^item> decimal printing and parsing of integers (\<open>fmt.Sprintf("%v", n)\<close>, \<open>big.Int\<close>).
  The lemmas relate each loop to a reference function of the HOL library, show that the
  encodings round-trip, and that identifiers built with \<open>Then\<close> are taken apart by
  \<open>Top\<close> and \<open>Sub\<close>.
\<close>

section \<open>Byte slices\<close>

text \<open>
  A Go byte slice that may be nil is a \<open>gobytes\<close>: \<open>None\<close> is nil. Comparison with \<open>bytes.Equal\<close> and
  conversion to a string do not distinguish nil from an empty slice.
\<close>

type_synonym gobytes = "bytes option"

definition bval :: "gobytes \<Rightarrow> bytes" where
  "bval b = (case b of None \<Rightarrow> [] | Some bs \<Rightarrow> bs)"

definition bytes_Equal :: "gobytes \<Rightarrow> gobytes \<Rightarrow> bool" where
  "bytes_Equal a b \<longleftrightarrow> bval a = bval b"

lemma bval_simps [simp]: "bval None = []" "bval (Some bs) = bs"
  by (simp_all add: bval_def)

lemma bytes_Equal_iff [simp]: "bytes_Equal a b \<longleftrightarrow> bval a = bval b"
  by (simp add: bytes_Equal_def)

section \<open>maputil\<close>

definition GetKeys :: "('k, 'v) gomap \<Rightarrow> 'k list" where
  "GetKeys m = map fst m"

definition GetValues :: "('k, 'v) gomap \<Rightarrow> 'v list" where
  "GetValues m = map snd m"

definition GetSortedKeys :: "('k::linorder, 'v) gomap \<Rightarrow> 'k list" where
  "GetSortedKeys m = sort (GetKeys m)"

text \<open>The lookup \<open>m[k]\<close> of an absent key yields the zero value of the value type.\<close>

fun GetValuesOf :: "'v \<Rightarrow> ('k, 'v) gomap \<Rightarrow> 'k list \<Rightarrow> 'v list" where
  "GetValuesOf zero m [] = []"
| "GetValuesOf zero m (k # ks) =
     (case map_of m k of None \<Rightarrow> zero | Some v \<Rightarrow> v) # GetValuesOf zero m ks"

fun GetKeysAndValues :: "('k, 'v) gomap \<Rightarrow> 'k list \<times> 'v list" where
  "GetKeysAndValues [] = ([], [])"
| "GetKeysAndValues ((k, v) # m) = (let (ks, vs) = GetKeysAndValues m in (k # ks, v # vs))"

text \<open>
  The callback of \<open>IterateSorted\<close> is a closure over mutable state \<open>'s\<close>; it returns whether
  to continue, and the state it leaves.
\<close>

fun IterateSorted_loop ::
  "('k, 'v) gomap \<Rightarrow> ('k \<Rightarrow> 'v \<Rightarrow> 's \<Rightarrow> bool \<times> 's) \<Rightarrow> 'k list \<Rightarrow> 's \<Rightarrow> 's" where
  "IterateSorted_loop m f [] s = s"
| "IterateSorted_loop m f (k # ks) s =
     (case map_of m k of
        None \<Rightarrow> IterateSorted_loop m f ks s
      | Some v \<Rightarrow> (case f k v s of
            (True, s') \<Rightarrow> IterateSorted_loop m f ks s'
          | (False, s') \<Rightarrow> s'))"

definition IterateSorted ::
  "('k::linorder, 'v) gomap \<Rightarrow> ('k \<Rightarrow> 'v \<Rightarrow> 's \<Rightarrow> bool \<times> 's) \<Rightarrow> 's \<Rightarrow> 's" where
  "IterateSorted m f s = IterateSorted_loop m f (GetSortedKeys m) s"

definition AnyKey :: "'k \<Rightarrow> ('k, 'v) gomap \<Rightarrow> 'k \<times> bool" where
  "AnyKey zero m = (case m of [] \<Rightarrow> (zero, False) | (k, _) # _ \<Rightarrow> (k, True))"

definition AnyVal :: "'v \<Rightarrow> ('k, 'v) gomap \<Rightarrow> 'v \<times> bool" where
  "AnyVal zero m = (case m of [] \<Rightarrow> (zero, False) | (_, v) # _ \<Rightarrow> (v, True))"

fun maputil_Transform_into ::
  "('a \<Rightarrow> 'b \<Rightarrow> 'k \<times> 'v) \<Rightarrow> ('a, 'b) gomap \<Rightarrow> ('k, 'v) gomap \<Rightarrow> ('k, 'v) gomap" where
  "maputil_Transform_into f [] mo = mo"
| "maputil_Transform_into f ((ki, vi) # mi) mo =
     (let (ko, vo) = f ki vi in maputil_Transform_into f mi (AList.update ko vo mo))"

definition maputil_Transform :: "('a, 'b) gomap \<Rightarrow> ('a \<Rightarrow> 'b \<Rightarrow> 'k \<times> 'v) \<Rightarrow> ('k, 'v) gomap" where
  "maputil_Transform mi f = maputil_Transform_into f mi []"

fun FromSlices_into :: "'k list \<Rightarrow> 'v list \<Rightarrow> ('k, 'v) gomap \<Rightarrow> ('k, 'v) gomap" where
  "FromSlices_into (k # ks) (v # vs) m = FromSlices_into ks vs (AList.update k v m)"
| "FromSlices_into _ _ m = m"

definition FromSlices :: "'k list \<Rightarrow> 'v list \<Rightarrow> ('k, 'v) gomap res" where
  "FromSlices ks vs =
     (if length ks \<noteq> length vs then Inl (Panic ''number of keys and number of values must match'')
      else Inr (FromSlices_into ks vs []))"

text \<open>\<open>RemoveAll\<close> mutates the map and returns the removed entries: (removed, remaining).\<close>

fun RemoveAll :: "('k, 'v) gomap \<Rightarrow> ('k \<Rightarrow> 'v \<Rightarrow> bool) \<Rightarrow> ('k, 'v) gomap \<times> ('k, 'v) gomap" where
  "RemoveAll [] f = ([], [])"
| "RemoveAll ((k, v) # m) f =
     (let (removed, rest) = RemoveAll m f
      in if f k v then ((k, v) # removed, rest) else (removed, (k, v) # rest))"

section \<open>sliceutil\<close>

definition Repeat :: "'a \<Rightarrow> int \<Rightarrow> 'a list res" where
  "Repeat value n = (if n < 0 then Inl (Panic ''makeslice: len out of range'')
                     else Inr (replicate (nat n) value))"

fun sliceutil_Transform_from :: "nat \<Rightarrow> 'a list \<Rightarrow> (nat \<Rightarrow> 'a \<Rightarrow> 'b) \<Rightarrow> 'b list" where
  "sliceutil_Transform_from i [] f = []"
| "sliceutil_Transform_from i (x # xs) f = f i x # sliceutil_Transform_from (Suc i) xs f"

definition sliceutil_Transform :: "'a list \<Rightarrow> (nat \<Rightarrow> 'a \<Rightarrow> 'b) \<Rightarrow> 'b list" where
  "sliceutil_Transform xs f = sliceutil_Transform_from 0 xs f"

fun sliceutil_Filter_from :: "nat \<Rightarrow> 'a list \<Rightarrow> (nat \<Rightarrow> 'a \<Rightarrow> bool) \<Rightarrow> 'a list" where
  "sliceutil_Filter_from i [] f = []"
| "sliceutil_Filter_from i (x # xs) f =
     (if f i x then x # sliceutil_Filter_from (Suc i) xs f
      else sliceutil_Filter_from (Suc i) xs f)"

definition sliceutil_Filter :: "'a list \<Rightarrow> (nat \<Rightarrow> 'a \<Rightarrow> bool) \<Rightarrow> 'a list" where
  "sliceutil_Filter xs f = sliceutil_Filter_from 0 xs f"

fun Contains :: "'a list \<Rightarrow> 'a \<Rightarrow> bool" where
  "Contains [] t = False"
| "Contains (v # ts) t = (if v = t then True else Contains ts t)"

text \<open>\<open>ContainsAll\<close> first collects the elements of \<open>ts\<close> in a map, then looks each of \<open>ts2\<close> up.\<close>

fun ContainsAll_collect :: "'a list \<Rightarrow> ('a, unit) gomap \<Rightarrow> ('a, unit) gomap" where
  "ContainsAll_collect [] m = m"
| "ContainsAll_collect (t # ts) m = ContainsAll_collect ts (AList.update t () m)"

fun ContainsAll_check :: "('a, unit) gomap \<Rightarrow> 'a list \<Rightarrow> bool" where
  "ContainsAll_check m [] = True"
| "ContainsAll_check m (t # ts) = (if \<not> mhas m t then False else ContainsAll_check m ts)"

definition ContainsAll :: "'a list \<Rightarrow> 'a list \<Rightarrow> bool" where
  "ContainsAll ts ts2 = ContainsAll_check (ContainsAll_collect ts []) ts2"

fun slice_Equal_loop :: "'a list \<Rightarrow> 'a list \<Rightarrow> bool" where
  "slice_Equal_loop (v # s1) (w # s2) = (if v \<noteq> w then False else slice_Equal_loop s1 s2)"
| "slice_Equal_loop _ _ = True"

definition slice_Equal :: "'a list \<Rightarrow> 'a list \<Rightarrow> bool" where
  "slice_Equal s1 s2 = (if length s1 \<noteq> length s2 then False else slice_Equal_loop s1 s2)"

section \<open>serializing\<close>

definition Uint64ToBytes :: "uint64 \<Rightarrow> bytes" where
  "Uint64ToBytes n =
     [ucast n, ucast (drop_bit 8 n), ucast (drop_bit 16 n), ucast (drop_bit 24 n),
      ucast (drop_bit 32 n), ucast (drop_bit 40 n), ucast (drop_bit 48 n), ucast (drop_bit 56 n)]"

unbundle bit_operations_syntax

definition Uint64FromBytes :: "bytes \<Rightarrow> uint64 res" where
  "Uint64FromBytes b =
     (case b of
        b0 # b1 # b2 # b3 # b4 # b5 # b6 # b7 # _ \<Rightarrow>
          Inr (ucast b0 OR push_bit 8 (ucast b1) OR push_bit 16 (ucast b2) OR push_bit 24 (ucast b3)
            OR push_bit 32 (ucast b4) OR push_bit 40 (ucast b5) OR push_bit 48 (ucast b6)
            OR push_bit 56 (ucast b7))
      | _ \<Rightarrow> Inl (Panic ''index out of range''))"

section \<open>Decimal representation of integers\<close>

definition digit_char :: "nat \<Rightarrow> char" where
  "digit_char d = char_of (48 + d)"

fun nat_String :: "nat \<Rightarrow> string" where
  "nat_String n = (if n < 10 then [digit_char n] else nat_String (n div 10) @ [digit_char (n mod 10)])"

definition BigInt_String :: "int \<Rightarrow> string" where
  "BigInt_String i = (if i < 0 then CHR ''-'' # nat_String (nat (- i)) else nat_String (nat i))"

definition digit_val :: "char \<Rightarrow> nat option" where
  "digit_val c = (let d = of_char c :: nat in if 48 \<le> d \<and> d \<le> 57 then Some (d - 48) else None)"

fun scan_digits :: "nat \<Rightarrow> string \<Rightarrow> nat option" where
  "scan_digits acc [] = Some acc"
| "scan_digits acc (c # cs) =
     (case digit_val c of None \<Rightarrow> None | Some d \<Rightarrow> scan_digits (10 * acc + d) cs)"

definition scan_nat :: "string \<Rightarrow> nat option" where
  "scan_nat s = (if s = [] then None else scan_digits 0 s)"

text \<open>\<open>big.Int.SetString(s, 10)\<close>: an optional sign followed by at least one decimal digit.\<close>

definition BigInt_SetString :: "string \<Rightarrow> int option" where
  "BigInt_SetString s =
     (case s of
        [] \<Rightarrow> None
      | c # cs \<Rightarrow> if c = CHR ''-'' then map_option (\<lambda>n. - int n) (scan_nat cs)
                  else if c = CHR ''+'' then map_option int (scan_nat cs)
                  else map_option int (scan_nat s))"

text \<open>\<open>fmt.Sprintf("%v", n)\<close> of an unsigned integer.\<close>

definition Sprintf_uint :: "uint64 \<Rightarrow> string" where
  "Sprintf_uint n = nat_String (unat n)"

section \<open>stdtypes.ModuleID\<close>

definition Separator :: char where
  "Separator = CHR ''/''"

definition string_Cut :: "string \<Rightarrow> string \<times> string \<times> bool" where
  "string_Cut s =
     (if Separator \<in> set s
      then (takeWhile (\<lambda>c. c \<noteq> Separator) s, tl (dropWhile (\<lambda>c. c \<noteq> Separator) s), True)
      else (s, '''', False))"

definition ModuleID_Top :: "ModuleID \<Rightarrow> ModuleID" where
  "ModuleID_Top mid = fst (string_Cut mid)"

definition ModuleID_Sub :: "ModuleID \<Rightarrow> ModuleID" where
  "ModuleID_Sub mid = fst (snd (string_Cut mid))"

definition ModuleID_Then :: "ModuleID \<Rightarrow> ModuleID \<Rightarrow> ModuleID" where
  "ModuleID_Then mid submodule = mid @ [Separator] @ submodule"

section \<open>Lemmas: maps and slices\<close>

lemma GetKeys_set [simp]: "set (GetKeys m) = fst ` set m"
  by (simp add: GetKeys_def)

lemma GetKeys_distinct [simp]: "distinct (GetKeys m) \<longleftrightarrow> gomap_ok m"
  by (simp add: GetKeys_def)

lemma GetSortedKeys_set [simp]: "set (GetSortedKeys m) = fst ` set m"
  by (simp add: GetSortedKeys_def)

lemma GetSortedKeys_sorted [simp]: "sorted (GetSortedKeys m)"
  by (simp add: GetSortedKeys_def)

lemma GetSortedKeys_distinct [simp]: "distinct (GetSortedKeys m) \<longleftrightarrow> gomap_ok m"
  by (simp add: GetSortedKeys_def GetKeys_def)

lemma GetSortedKeys_length [simp]: "length (GetSortedKeys m) = length m"
  by (simp add: GetSortedKeys_def GetKeys_def)

text \<open>The sorted key list does not depend on the order in which the map is traversed.\<close>

lemma GetSortedKeys_order_independent:
  assumes "gomap_ok m" "gomap_ok m'" "fst ` set m = fst ` set m'"
  shows "GetSortedKeys m = GetSortedKeys m'"
  using assms by (intro sorted_distinct_set_unique) auto

lemma GetKeysAndValues_eq: "GetKeysAndValues m = (map fst m, map snd m)"
  by (induction m rule: GetKeysAndValues.induct) auto

lemma GetValuesOf_keys: "gomap_ok m \<Longrightarrow> GetValuesOf z m (GetKeys m) = GetValues m"
proof -
  assume ok: "gomap_ok m"
  have "map_of m k = Some v" if "(k, v) \<in> set m" for k v
    using ok that by simp
  moreover have "GetValuesOf z m (map fst xs) = map snd xs" if "set xs \<subseteq> set m" for xs
    using that calculation by (induction xs) auto
  ultimately show ?thesis by (simp add: GetKeys_def GetValues_def)
qed

lemma IterateSorted_loop_fold:
  assumes "\<And>k v s. fst (f k v s)" "set ks \<subseteq> fst ` set m"
  shows "IterateSorted_loop m f ks s = fold (\<lambda>k s. snd (f k (the (map_of m k)) s)) ks s"
  using assms(2)
proof (induction ks arbitrary: s)
  case (Cons k ks)
  then obtain v where v: "map_of m k = Some v"
    using mhas_iff [of m k] by auto
  have "fst (f k v s)" by (rule assms(1))
  then show ?case using Cons v by (cases "f k v s") auto
qed simp

lemma RemoveAll_eq:
  "RemoveAll m f = (filter (\<lambda>(k, v). f k v) m, filter (\<lambda>(k, v). \<not> f k v) m)"
  by (induction m f rule: RemoveAll.induct) auto

lemma Contains_iff [simp]: "Contains ts t \<longleftrightarrow> t \<in> set ts"
  by (induction ts) auto

lemma ContainsAll_collect_keys [simp]:
  "fst ` set (ContainsAll_collect ts m) = set ts \<union> fst ` set m"
  by (induction ts arbitrary: m) auto

lemma ContainsAll_check_iff: "ContainsAll_check m ts \<longleftrightarrow> set ts \<subseteq> fst ` set m"
  by (induction ts) (auto simp: map_of_eq_None_iff)

lemma ContainsAll_iff [simp]: "ContainsAll ts ts2 \<longleftrightarrow> set ts2 \<subseteq> set ts"
  by (simp add: ContainsAll_def ContainsAll_check_iff)

lemma slice_Equal_iff [simp]: "slice_Equal s1 s2 \<longleftrightarrow> s1 = s2"
proof -
  have "length s1 = length s2 \<Longrightarrow> slice_Equal_loop s1 s2 \<longleftrightarrow> s1 = s2"
    by (induction s1 s2 rule: list_induct2) auto
  then show ?thesis by (auto simp: slice_Equal_def)
qed

lemma sliceutil_Transform_nth:
  "sliceutil_Transform_from i xs f = map (\<lambda>(j, x). f (i + j) x) (enumerate 0 xs)"
proof (induction i xs f rule: sliceutil_Transform_from.induct)
  case (2 i x xs f)
  have "map (\<lambda>(j, x). f (i + j) x) (enumerate (Suc 0) xs)
      = map (\<lambda>(j, x). f (Suc i + j) x) (enumerate 0 xs)"
    by (simp add: enumerate_Suc_eq case_prod_beta)
  with 2 show ?case by simp
qed simp

section \<open>Lemmas: encodings\<close>

lemma length_Uint64ToBytes [simp]: "length (Uint64ToBytes n) = 8"
  by (simp add: Uint64ToBytes_def)

lemma bytes_recombine:
  fixes n :: uint64
  shows "ucast (ucast n :: byte) OR push_bit 8 (ucast (ucast (drop_bit 8 n) :: byte))
      OR push_bit 16 (ucast (ucast (drop_bit 16 n) :: byte))
      OR push_bit 24 (ucast (ucast (drop_bit 24 n) :: byte))
      OR push_bit 32 (ucast (ucast (drop_bit 32 n) :: byte))
      OR push_bit 40 (ucast (ucast (drop_bit 40 n) :: byte))
      OR push_bit 48 (ucast (ucast (drop_bit 48 n) :: byte))
      OR push_bit 56 (ucast (ucast (drop_bit 56 n) :: byte)) = n" (is "?r = n")
proof (rule bit_word_eqI)
  fix k :: nat
  assume "k < LENGTH(64)"
  then show "bit ?r k \<longleftrightarrow> bit n k"
    by (cases "k < 8"; cases "k < 16"; cases "k < 24"; cases "k < 32"; cases "k < 40";
        cases "k < 48"; cases "k < 56")
       (simp_all add: bit_simps less_diff_conv2)
qed

lemma Uint64FromBytes_ToBytes [simp]: "Uint64FromBytes (Uint64ToBytes n @ rest) = Inr n"
  by (simp add: Uint64ToBytes_def Uint64FromBytes_def bytes_recombine)

lemma Uint64ToBytes_inj: "Uint64ToBytes a = Uint64ToBytes b \<longleftrightarrow> a = b"
  by (metis Uint64FromBytes_ToBytes append_Nil2 sum.inject(2))

declare nat_String.simps [simp del]

lemma digit_val_char [simp]: "d < 10 \<Longrightarrow> digit_val (digit_char d) = Some d"
  by (simp add: digit_val_def digit_char_def Let_def)

lemma scan_digits_append:
  "scan_digits acc (xs @ ys) = (case scan_digits acc xs of None \<Rightarrow> None | Some a \<Rightarrow> scan_digits a ys)"
  by (induction xs arbitrary: acc) (auto split: option.splits)

lemma nat_String_nonempty [simp]: "nat_String n \<noteq> []"
  by (subst nat_String.simps) simp

lemma nat_String_digits: "c \<in> set (nat_String n) \<Longrightarrow> \<exists>d < 10. c = digit_char d"
proof (induction n rule: nat_String.induct)
  case (1 n)
  then show ?case
    by (cases "n < 10") (auto simp: nat_String.simps [of n] intro: exI [of _ "n mod 10"])
qed

lemma scan_digits_String: "scan_digits 0 (nat_String n) = Some n"
proof (induction n rule: nat_String.induct)
  case (1 n)
  then show ?case
    by (cases "n < 10") (auto simp: nat_String.simps [of n] scan_digits_append)
qed

lemma scan_nat_String [simp]: "scan_nat (nat_String n) = Some n"
  by (simp add: scan_nat_def scan_digits_String)

lemma digit_char_neq [simp]:
  "d < 10 \<Longrightarrow> digit_char d \<noteq> CHR ''-''" "d < 10 \<Longrightarrow> digit_char d \<noteq> CHR ''+''"
  "d < 10 \<Longrightarrow> digit_char d \<noteq> CHR ''/''" "d < 10 \<Longrightarrow> digit_char d \<noteq> CHR ''c''"
  using digit_val_char [of d] by (auto simp: digit_val_def Let_def simp del: digit_val_char)

lemma BigInt_SetString_String [simp]: "BigInt_SetString (BigInt_String i) = Some i"
proof (cases "i < 0")
  case True
  then show ?thesis by (simp add: BigInt_SetString_def BigInt_String_def)
next
  case False
  obtain c cs where s: "nat_String (nat i) = c # cs"
    by (meson nat_String_nonempty neq_Nil_conv)
  then obtain d where "d < 10" "c = digit_char d"
    using nat_String_digits [of c "nat i"] by auto
  with False s scan_nat_String [of "nat i"] show ?thesis
    by (simp add: BigInt_SetString_def BigInt_String_def)
qed

lemma nat_String_inj: "nat_String m = nat_String n \<longleftrightarrow> m = n"
  by (metis option.inject scan_nat_String)

lemma Separator_notin_nat_String [simp]: "Separator \<notin> set (nat_String n)"
  using nat_String_digits [of Separator n] digit_char_neq(3) unfolding Separator_def by metis

lemma Separator_notin_Sprintf [simp]: "Separator \<notin> set (Sprintf_uint n)"
  by (simp add: Sprintf_uint_def)

lemma Sprintf_uint_inj [simp]: "Sprintf_uint a = Sprintf_uint b \<longleftrightarrow> a = b"
  by (simp add: Sprintf_uint_def nat_String_inj word_unat_eq_iff)

section \<open>Lemmas: module identifiers\<close>

lemma string_Cut_Then:
  "Separator \<notin> set a \<Longrightarrow> string_Cut (ModuleID_Then a b) = (a, b, True)"
  by (auto simp: string_Cut_def ModuleID_Then_def takeWhile_append dropWhile_append)

lemma ModuleID_Top_Then [simp]: "Separator \<notin> set a \<Longrightarrow> ModuleID_Top (ModuleID_Then a b) = a"
  by (simp add: ModuleID_Top_def string_Cut_Then)

lemma ModuleID_Sub_Then [simp]: "Separator \<notin> set a \<Longrightarrow> ModuleID_Sub (ModuleID_Then a b) = b"
  by (simp add: ModuleID_Sub_def string_Cut_Then)

lemma ModuleID_Top_no_sep [simp]: "Separator \<notin> set (ModuleID_Top mid)"
  by (auto simp: ModuleID_Top_def string_Cut_def dest: set_takeWhileD)

lemma ModuleID_Then_Top_Sub:
  "Separator \<in> set mid \<Longrightarrow> ModuleID_Then (ModuleID_Top mid) (ModuleID_Sub mid) = mid"
proof -
  assume sep: "Separator \<in> set mid"
  let ?d = "dropWhile (\<lambda>c. c \<noteq> Separator) mid"
  have "?d \<noteq> []" using sep by (auto simp: dropWhile_eq_Nil_conv)
  moreover from this have "hd ?d = Separator"
    using hd_dropWhile [of "\<lambda>c. c \<noteq> Separator" mid] by simp
  ultimately have d: "Separator # tl ?d = ?d" by (cases ?d) auto
  have "takeWhile (\<lambda>c. c \<noteq> Separator) mid @ Separator # tl ?d = mid"
    by (simp only: d takeWhile_dropWhile_id)
  then show ?thesis using sep
    by (simp add: ModuleID_Then_def ModuleID_Top_def ModuleID_Sub_def string_Cut_def)
qed

end
