(* ===== verification/Membership.thy ===== *)
theory Membership
  imports GoUtil
begin

text \<open>
  Memberships and weighted quorums: \<open>pkg/util/membutil/membutil.go\<close> and the \<open>VoteWeight\<close> type of
  \<open>pkg/trantor/types/types.go\<close>. A membership maps node identifiers to node identities; each
  identity carries a vote weight in decimal notation, and quorums are computed on arbitrary
  precision integers.

  The pointers stored in \<open>Membership.Nodes\<close> are taken to be non-nil; looking up an absent
  node yields a nil pointer, whose dereference in \<open>WeightOf\<close> is a panic. The lemmas give the
  arithmetic of the two quorum thresholds, and the locale \<open>quorum_system\<close> states what the
  protocols rely on: any two strong quorums share a correct node, a weak quorum contains a
  correct node, and the correct nodes form a strong quorum.
\<close>

section \<open>Vote weights\<close>

type_synonym VoteWeight = string

definition VoteWeight_IsValid :: "VoteWeight \<Rightarrow> bool" where
  "VoteWeight_IsValid vw = (case BigInt_SetString vw of None \<Rightarrow> False | Some _ \<Rightarrow> True)"

definition VoteWeight_BigInt :: "VoteWeight \<Rightarrow> int res" where
  "VoteWeight_BigInt vw =
     (case BigInt_SetString vw of
        None \<Rightarrow> Inl (Panic ''invalid vote weight representation'')
      | Some i \<Rightarrow> Inr i)"

section \<open>Memberships\<close>

record NodeIdentity =
  ni_Id :: NodeID
  ni_Addr :: string
  ni_Key :: bytes
  ni_Weight :: VoteWeight

record Membership =
  Nodes :: "(NodeID, NodeIdentity) gomap"

fun WeightOf_loop :: "Membership \<Rightarrow> NodeID list \<Rightarrow> int \<Rightarrow> int res" where
  "WeightOf_loop m [] s = Inr s"
| "WeightOf_loop m (n # ns) s =
     (case map_of (Nodes m) n of
        None \<Rightarrow> Inl (Panic ''nil pointer dereference'')
      | Some node \<Rightarrow> rbind (VoteWeight_BigInt (ni_Weight node)) (\<lambda>w. WeightOf_loop m ns (s + w)))"

definition WeightOf :: "Membership \<Rightarrow> NodeID list \<Rightarrow> VoteWeight res" where
  "WeightOf m ns = rbind (WeightOf_loop m ns 0) (\<lambda>s. Inr (BigInt_String s))"

definition TotalWeight :: "Membership \<Rightarrow> VoteWeight res" where
  "TotalWeight m = WeightOf m (GetKeys (Nodes m))"

definition maxFaulty :: "int \<Rightarrow> int" where
  "maxFaulty n = (n - 1) div 3"

definition StrongQuorum :: "Membership \<Rightarrow> VoteWeight res" where
  "StrongQuorum m =
     rbind (TotalWeight m) (\<lambda>tw. rbind (VoteWeight_BigInt tw) (\<lambda>n.
       let f = maxFaulty n; result = n + f; result = result div 2; result = result + 1
       in Inr (BigInt_String result)))"

definition WeakQuorum :: "Membership \<Rightarrow> VoteWeight res" where
  "WeakQuorum m =
     rbind (TotalWeight m) (\<lambda>tw. rbind (VoteWeight_BigInt tw) (\<lambda>n.
       let f = maxFaulty n in Inr (BigInt_String (f + 1))))"

definition HaveStrongQuorum :: "Membership \<Rightarrow> NodeID list \<Rightarrow> bool res" where
  "HaveStrongQuorum m ns =
     rbind (WeightOf m ns) (\<lambda>vw. rbind (VoteWeight_BigInt vw) (\<lambda>w.
     rbind (StrongQuorum m) (\<lambda>vq. rbind (VoteWeight_BigInt vq) (\<lambda>q. Inr (\<not> w < q)))))"

definition HaveWeakQuorum :: "Membership \<Rightarrow> NodeID list \<Rightarrow> bool res" where
  "HaveWeakQuorum m ns =
     rbind (WeightOf m ns) (\<lambda>vw. rbind (VoteWeight_BigInt vw) (\<lambda>w.
     rbind (WeakQuorum m) (\<lambda>vq. rbind (VoteWeight_BigInt vq) (\<lambda>q. Inr (\<not> w < q)))))"

fun Valid_nodes :: "(NodeID, NodeIdentity) gomap \<Rightarrow> unit res" where
  "Valid_nodes [] = Inr ()"
| "Valid_nodes ((nodeID, node) # ns) =
     (if ni_Id node \<noteq> nodeID then Inl (Error ''node ID does not match key under which node is stored'')
      else if \<not> VoteWeight_IsValid (ni_Weight node) then Inl (Error ''invalid weight of node'')
      else Valid_nodes ns)"

definition Membership_Valid :: "Membership \<Rightarrow> unit res" where
  "Membership_Valid m =
     (if length (Nodes m) = 0 then Inl (Error ''membership is empty'')
      else rbind (Valid_nodes (Nodes m)) (\<lambda>_.
           rbind (TotalWeight m) (\<lambda>tw. rbind (VoteWeight_BigInt tw) (\<lambda>n.
             if n = 0 then Inl (Error ''zero total weight'') else Inr ()))))"

section \<open>Specification vocabulary\<close>

definition node_ids :: "Membership \<Rightarrow> NodeID set" where
  "node_ids m = fst ` set (Nodes m)"

definition node_weight :: "Membership \<Rightarrow> NodeID \<Rightarrow> int" where
  "node_weight m n =
     (case map_of (Nodes m) n of
        None \<Rightarrow> 0
      | Some node \<Rightarrow> (case BigInt_SetString (ni_Weight node) of None \<Rightarrow> 0 | Some w \<Rightarrow> w))"

definition weight_sum :: "Membership \<Rightarrow> NodeID list \<Rightarrow> int" where
  "weight_sum m ns = sum_list (map (node_weight m) ns)"

definition total_weight :: "Membership \<Rightarrow> int" where
  "total_weight m = weight_sum m (map fst (Nodes m))"

definition max_faulty_weight :: "Membership \<Rightarrow> int" where
  "max_faulty_weight m = maxFaulty (total_weight m)"

definition strong_threshold :: "Membership \<Rightarrow> int" where
  "strong_threshold m = (total_weight m + max_faulty_weight m) div 2 + 1"

text \<open>Weights are well-formed, not negative, and not all zero.\<close>

definition weights_ok :: "Membership \<Rightarrow> bool" where
  "weights_ok m \<longleftrightarrow>
     list_all (\<lambda>(n, node). VoteWeight_IsValid (ni_Weight node) \<and> 0 \<le> node_weight m n) (Nodes m)"

definition membership_ok :: "Membership \<Rightarrow> bool" where
  "membership_ok m \<longleftrightarrow> gomap_ok (Nodes m) \<and> weights_ok m \<and> 0 < total_weight m"

text \<open>A set of faulty nodes the thresholds are designed for.\<close>

definition tolerable :: "Membership \<Rightarrow> NodeID set \<Rightarrow> bool" where
  "tolerable m F \<longleftrightarrow>
     weight_sum m (filter (\<lambda>n. n \<in> F) (map fst (Nodes m))) \<le> max_faulty_weight m"

section \<open>Weights\<close>

lemma VoteWeight_BigInt_String [simp]: "VoteWeight_BigInt (BigInt_String i) = Inr i"
  by (simp add: VoteWeight_BigInt_def)

lemma weights_ok_lookup:
  assumes "weights_ok m" "n \<in> node_ids m"
  obtains node w where "map_of (Nodes m) n = Some node"
    "BigInt_SetString (ni_Weight node) = Some w" "node_weight m n = w" "0 \<le> w"
proof -
  obtain node where node: "map_of (Nodes m) n = Some node"
    using assms(2) mhas_iff [of "Nodes m" n] by (auto simp: node_ids_def)
  then have "(n, node) \<in> set (Nodes m)" by (rule map_of_SomeD)
  with assms(1) have "VoteWeight_IsValid (ni_Weight node)" "0 \<le> node_weight m n"
    by (auto simp: weights_ok_def list_all_iff)
  with node that show ?thesis
    by (auto simp: VoteWeight_IsValid_def node_weight_def split: option.splits)
qed

lemma node_weight_nonneg:
  assumes "weights_ok m"
  shows "0 \<le> node_weight m n"
proof (cases "n \<in> node_ids m")
  case True
  with assms show ?thesis by (auto elim: weights_ok_lookup)
next
  case False
  then have "map_of (Nodes m) n = None" by (auto simp: node_ids_def map_of_eq_None_iff)
  then show ?thesis by (simp add: node_weight_def)
qed

lemma WeightOf_loop_ok:
  "weights_ok m \<Longrightarrow> set ns \<subseteq> node_ids m \<Longrightarrow> WeightOf_loop m ns s = Inr (s + weight_sum m ns)"
proof (induction ns arbitrary: s)
  case (Cons n ns)
  then obtain node w where "map_of (Nodes m) n = Some node"
    "BigInt_SetString (ni_Weight node) = Some w" "node_weight m n = w"
    by (auto elim: weights_ok_lookup)
  with Cons show ?case by (simp add: VoteWeight_BigInt_def weight_sum_def add.assoc)
qed (simp add: weight_sum_def)

lemma WeightOf_ok:
  "weights_ok m \<Longrightarrow> set ns \<subseteq> node_ids m \<Longrightarrow> WeightOf m ns = Inr (BigInt_String (weight_sum m ns))"
  by (simp add: WeightOf_def WeightOf_loop_ok)

lemma TotalWeight_ok: "weights_ok m \<Longrightarrow> TotalWeight m = Inr (BigInt_String (total_weight m))"
  by (simp add: TotalWeight_def WeightOf_ok node_ids_def total_weight_def GetKeys_def)

lemma StrongQuorum_ok: "weights_ok m \<Longrightarrow> StrongQuorum m = Inr (BigInt_String (strong_threshold m))"
  by (simp add: StrongQuorum_def TotalWeight_ok strong_threshold_def max_faulty_weight_def Let_def)

lemma HaveStrongQuorum_ok:
  "weights_ok m \<Longrightarrow> set ns \<subseteq> node_ids m \<Longrightarrow>
     HaveStrongQuorum m ns = Inr (strong_threshold m \<le> weight_sum m ns)"
  by (auto simp: HaveStrongQuorum_def WeightOf_ok StrongQuorum_ok)

lemma HaveWeakQuorum_ok:
  "weights_ok m \<Longrightarrow> set ns \<subseteq> node_ids m \<Longrightarrow>
     HaveWeakQuorum m ns = Inr (max_faulty_weight m < weight_sum m ns)"
  by (auto simp: HaveWeakQuorum_def WeakQuorum_def WeightOf_ok TotalWeight_ok
      max_faulty_weight_def Let_def)

lemma WeightOf_loop_nonmember:
  "\<not> set ns \<subseteq> node_ids m \<Longrightarrow> is_panic (WeightOf_loop m ns s)"
proof (induction ns arbitrary: s)
  case (Cons n ns)
  show ?case
  proof (cases "map_of (Nodes m) n")
    case (Some node)
    then have "n \<in> node_ids m" using mhas_iff [of "Nodes m" n] by (auto simp: node_ids_def)
    with Cons have "is_panic (WeightOf_loop m ns s')" for s' by auto
    with Some show ?thesis
      by (auto simp: VoteWeight_BigInt_def split: option.splits)
  qed simp
qed simp

lemma HaveStrongQuorum_nonmember:
  "\<not> set ns \<subseteq> node_ids m \<Longrightarrow> is_panic (HaveStrongQuorum m ns)"
  using WeightOf_loop_nonmember [of ns m 0]
  by (auto simp: HaveStrongQuorum_def WeightOf_def is_panic_iff)

lemma HaveWeakQuorum_nonmember:
  "\<not> set ns \<subseteq> node_ids m \<Longrightarrow> is_panic (HaveWeakQuorum m ns)"
  using WeightOf_loop_nonmember [of ns m 0]
  by (auto simp: HaveWeakQuorum_def WeightOf_def is_panic_iff)

section \<open>Quorum arithmetic\<close>

lemma maxFaulty_bounds: "0 < n \<Longrightarrow> 0 \<le> maxFaulty n \<and> 3 * maxFaulty n < n"
  by (auto simp: maxFaulty_def)

lemma max_faulty_weight_bounds:
  "membership_ok m \<Longrightarrow> 0 \<le> max_faulty_weight m \<and> 3 * max_faulty_weight m < total_weight m"
  by (simp add: max_faulty_weight_def maxFaulty_bounds membership_ok_def)

lemma weight_sum_append: "weight_sum m (xs @ ys) = weight_sum m xs + weight_sum m ys"
  by (simp add: weight_sum_def)

lemma weight_sum_set: "distinct xs \<Longrightarrow> weight_sum m xs = sum (node_weight m) (set xs)"
  by (simp add: weight_sum_def sum_list_distinct_conv_sum_set)

lemma weight_sum_mono:
  "weights_ok m \<Longrightarrow> distinct xs \<Longrightarrow> set xs \<subseteq> set ys \<Longrightarrow> weight_sum m xs \<le> weight_sum m ys"
  unfolding weight_sum_def by (rule sum_list_mono_subset) (auto intro: node_weight_nonneg)

lemma total_weight_set:
  "membership_ok m \<Longrightarrow> total_weight m = sum (node_weight m) (node_ids m)"
  by (simp add: total_weight_def weight_sum_set membership_ok_def node_ids_def)

lemma weight_sum_le_total:
  "membership_ok m \<Longrightarrow> distinct xs \<Longrightarrow> set xs \<subseteq> node_ids m \<Longrightarrow> weight_sum m xs \<le> total_weight m"
  unfolding total_weight_def by (rule weight_sum_mono) (auto simp: membership_ok_def node_ids_def)

lemma finite_node_ids [simp]: "finite (node_ids m)"
  by (simp add: node_ids_def)

lemma strong_quorums_overlap:
  assumes ok: "membership_ok m"
    and xs: "distinct xs" "set xs \<subseteq> node_ids m" "strong_threshold m \<le> weight_sum m xs"
    and ys: "distinct ys" "set ys \<subseteq> node_ids m" "strong_threshold m \<le> weight_sum m ys"
  shows "max_faulty_weight m < weight_sum m (filter (\<lambda>x. x \<in> set ys) xs)"
proof -
  let ?w = "node_weight m"
  have "sum ?w (set xs \<union> set ys) \<le> sum ?w (node_ids m)"
    using ok xs ys by (intro sum_mono2) (auto simp: membership_ok_def intro: node_weight_nonneg)
  moreover have "sum ?w (set xs \<union> set ys) + sum ?w (set xs \<inter> set ys) = sum ?w (set xs) + sum ?w (set ys)"
    by (simp add: sum.union_inter)
  moreover have "weight_sum m (filter (\<lambda>x. x \<in> set ys) xs) = sum ?w (set xs \<inter> set ys)"
    using xs(1) by (simp add: weight_sum_set Int_def)
  moreover have "sum ?w (set xs) = weight_sum m xs" "sum ?w (set ys) = weight_sum m ys"
    "sum ?w (node_ids m) = total_weight m"
    using ok xs(1) ys(1) by (simp_all add: weight_sum_set total_weight_set)
  ultimately have "2 * strong_threshold m - total_weight m
      \<le> weight_sum m (filter (\<lambda>x. x \<in> set ys) xs)"
    using xs(3) ys(3) by linarith
  moreover have "total_weight m + max_faulty_weight m < 2 * strong_threshold m"
    by (simp add: strong_threshold_def)
  ultimately show ?thesis by linarith
qed

lemma weak_has_correct:
  assumes ok: "membership_ok m" and xs: "distinct xs" "set xs \<subseteq> node_ids m"
    and w: "max_faulty_weight m < weight_sum m xs" and F: "tolerable m F"
  shows "\<exists>x \<in> set xs. x \<notin> F"
proof (rule ccontr)
  assume "\<not> ?thesis"
  with xs have "weight_sum m xs \<le> weight_sum m (filter (\<lambda>n. n \<in> F) (map fst (Nodes m)))"
    using ok by (intro weight_sum_mono) (auto simp: membership_ok_def node_ids_def)
  with w F show False by (simp add: tolerable_def)
qed

lemma correct_nodes_strong:
  assumes ok: "membership_ok m" and F: "tolerable m F"
  shows "strong_threshold m \<le> weight_sum m (filter (\<lambda>n. n \<notin> F) (map fst (Nodes m)))"
proof -
  have "weight_sum m (filter (\<lambda>n. n \<in> F) xs) + weight_sum m (filter (\<lambda>n. n \<notin> F) xs)
      = weight_sum m xs" for xs
    by (induction xs) (auto simp: weight_sum_def)
  from this [of "map fst (Nodes m)"] F
  have "total_weight m - max_faulty_weight m \<le> weight_sum m (filter (\<lambda>n. n \<notin> F) (map fst (Nodes m)))"
    by (simp add: tolerable_def total_weight_def)
  moreover have "strong_threshold m \<le> total_weight m - max_faulty_weight m"
    using max_faulty_weight_bounds [OF ok] unfolding strong_threshold_def by linarith
  ultimately show ?thesis by linarith
qed

section \<open>The quorum interface\<close>

text \<open>
  What the protocols assume of quorums. \<open>nodes\<close> lists the members, \<open>strong\<close> and \<open>weak\<close> decide
  quorums of node lists, \<open>tolerated\<close> says which sets of faulty nodes are within the fault
  assumption, \<open>ok\<close> which memberships are meaningful.
\<close>

locale quorum_system =
  fixes ok :: "'m \<Rightarrow> bool"
    and nodes :: "'m \<Rightarrow> 'n set"
    and strong :: "'m \<Rightarrow> 'n list \<Rightarrow> bool"
    and weak :: "'m \<Rightarrow> 'n list \<Rightarrow> bool"
    and tolerated :: "'m \<Rightarrow> 'n set \<Rightarrow> bool"
  assumes strong_member: "strong m xs \<Longrightarrow> set xs \<subseteq> nodes m"
    and weak_member: "weak m xs \<Longrightarrow> set xs \<subseteq> nodes m"
    and strong_meet: "ok m \<Longrightarrow> distinct xs \<Longrightarrow> distinct ys \<Longrightarrow> strong m xs \<Longrightarrow> strong m ys \<Longrightarrow>
          weak m (filter (\<lambda>x. x \<in> set ys) xs)"
    and weak_correct: "ok m \<Longrightarrow> distinct xs \<Longrightarrow> weak m xs \<Longrightarrow> tolerated m F \<Longrightarrow>
          \<exists>x \<in> set xs. x \<notin> F"
    and strong_mono: "ok m \<Longrightarrow> distinct xs \<Longrightarrow> set xs \<subseteq> set ys \<Longrightarrow> set ys \<subseteq> nodes m \<Longrightarrow>
          strong m xs \<Longrightarrow> strong m ys"
begin

lemma strong_common_correct:
  assumes "ok m" "distinct xs" "distinct ys" "strong m xs" "strong m ys" "tolerated m F"
  shows "\<exists>x. x \<in> set xs \<and> x \<in> set ys \<and> x \<notin> F"
  using weak_correct [OF assms(1) _ strong_meet [OF assms(1-5)] assms(6)] assms(2) by auto

text \<open>
  Votes: \<open>voted x v\<close> says that node \<open>x\<close> voted for \<open>v\<close>. If correct nodes vote for one value
  only, two values that both gathered a strong quorum of votes are equal.
\<close>

lemma strong_votes_agree:
  assumes "ok m" "tolerated m F" "distinct xs" "distinct ys" "strong m xs" "strong m ys"
    and "\<And>x. x \<in> set xs \<Longrightarrow> x \<notin> F \<Longrightarrow> voted x v"
    and "\<And>y. y \<in> set ys \<Longrightarrow> y \<notin> F \<Longrightarrow> voted y v'"
    and once: "\<And>x u u'. x \<notin> F \<Longrightarrow> voted x u \<Longrightarrow> voted x u' \<Longrightarrow> u = u'"
  shows "v = v'"
  using strong_common_correct [OF assms(1,3,4,5,6,2)] assms(7,8) once by blast

end

lemma HaveStrongQuorum_members:
  assumes "HaveStrongQuorum m xs = Inr b"
  shows "set xs \<subseteq> node_ids m"
  using assms HaveStrongQuorum_nonmember [of xs m] by (auto simp: is_panic_iff)

lemma HaveWeakQuorum_members:
  assumes "HaveWeakQuorum m xs = Inr b"
  shows "set xs \<subseteq> node_ids m"
  using assms HaveWeakQuorum_nonmember [of xs m] by (auto simp: is_panic_iff)

interpretation quorum: quorum_system membership_ok node_ids
  "\<lambda>m xs. HaveStrongQuorum m xs = Inr True" "\<lambda>m xs. HaveWeakQuorum m xs = Inr True" tolerable
proof (unfold_locales, goal_cases)
  case (3 m xs ys)
  then have "set xs \<subseteq> node_ids m" "set ys \<subseteq> node_ids m" by (auto dest!: HaveStrongQuorum_members)
  moreover from this have "set (filter (\<lambda>x. x \<in> set ys) xs) \<subseteq> node_ids m" by auto
  ultimately show ?case
    using 3 strong_quorums_overlap [of m xs ys]
    by (simp add: HaveStrongQuorum_ok HaveWeakQuorum_ok membership_ok_def)
next
  case (4 m xs F)
  then have "set xs \<subseteq> node_ids m" by (auto dest!: HaveWeakQuorum_members)
  with 4 show ?case
    using weak_has_correct [of m xs F] by (auto simp: HaveWeakQuorum_ok membership_ok_def)
next
  case (5 m xs ys)
  then have "weight_sum m xs \<le> weight_sum m ys"
    by (intro weight_sum_mono) (auto simp: membership_ok_def)
  with 5 show ?case by (auto simp: HaveStrongQuorum_ok membership_ok_def)
qed (auto dest: HaveStrongQuorum_members HaveWeakQuorum_members)

section \<open>An example\<close>

definition ex_node :: "NodeID \<Rightarrow> NodeIdentity" where
  "ex_node n = \<lparr>ni_Id = n, ni_Addr = [], ni_Key = [], ni_Weight = ''1''\<rparr>"

text \<open>Four nodes of weight 1, one of which may be faulty.\<close>

definition ex_memb :: Membership where
  "ex_memb = \<lparr>Nodes = map (\<lambda>n. (n, ex_node n)) [''a'', ''b'', ''c'', ''d'']\<rparr>"

lemma ex_membership_ok: "membership_ok ex_memb"
  by code_simp

lemma ex_tolerable: "tolerable ex_memb {''d''}"
  by code_simp

lemma ex_node_ids: "node_ids ex_memb = {''a'', ''b'', ''c'', ''d''}"
  by (simp add: node_ids_def ex_memb_def)

section \<open>Properties\<close>

text \<open>
  C3: Quorum intersection. Two strong quorums of a membership share a node that is not faulty,
  whenever the faulty nodes have at most the tolerated weight (less than a third of the total).
\<close>

theorem quorum_intersection:
  assumes "membership_ok m" "tolerable m F" "distinct xs" "distinct ys"
    and "HaveStrongQuorum m xs = Inr True" "HaveStrongQuorum m ys = Inr True"
  shows "\<exists>n. n \<in> set xs \<and> n \<in> set ys \<and> n \<notin> F"
  by (rule quorum.strong_common_correct [OF assms(1,3-6,2)])

theorem quorum_intersection_witness:
  "\<exists>n. n \<in> set [''a'', ''b'', ''d''] \<and> n \<in> set [''b'', ''c'', ''d''] \<and> n \<notin> {''d''}"
  by (rule quorum_intersection [OF ex_membership_ok ex_tolerable]) code_simp+

text \<open>
  C26: Quorum availability. The nodes that are not faulty form a strong quorum, so progress never
  depends on a faulty node.
\<close>

theorem quorum_availability:
  assumes "membership_ok m" "tolerable m F"
  shows "HaveStrongQuorum m (filter (\<lambda>n. n \<notin> F) (GetKeys (Nodes m))) = Inr True"
proof -
  have "set (filter (\<lambda>n. n \<notin> F) (map fst (Nodes m))) \<subseteq> node_ids m" by (auto simp: node_ids_def)
  with correct_nodes_strong [OF assms] assms(1) show ?thesis
    by (simp add: HaveStrongQuorum_ok membership_ok_def GetKeys_def)
qed

theorem quorum_availability_witness:
  "HaveStrongQuorum ex_memb (filter (\<lambda>n. n \<notin> {''d''}) (GetKeys (Nodes ex_memb))) = Inr True"
  by (rule quorum_availability [OF ex_membership_ok ex_tolerable])


end
