(* ===== verification/MessageBuffer.thy ===== *)
theory MessageBuffer
  imports GoUtil
begin

text \<open>
  The backlog of messages that cannot be processed yet (\<open>pkg/messagebuffer/messagebuffer.go\<close>).
  The doubly linked list of the source is used as a queue and is modelled as a list, oldest
  message first. \<open>msz\<close> stands for \<open>proto.Size\<close> of the protobuf library: any function giving a
  size that is not negative. Byte counts are mathematical integers; they stay below the configured
  capacity, so that no addition can wrap around.

  The lemmas show that the accounted size is always the size of the stored messages and within
  the capacity, that storing keeps exactly the longest suffix of the backlog that leaves room
  for the new message, and what an iteration applies and leaves behind.
\<close>

section \<open>Model\<close>

datatype Applicable = Past | Current | Future | Invalid

record 'msg MessageBuffer =
  mb_capacity :: int
  mb_size :: int
  mb_messages :: "'msg list"

text \<open>Integer division of Go truncates towards zero.\<close>

definition go_quot :: "int \<Rightarrow> int \<Rightarrow> int" where
  "go_quot a b = sgn a * sgn b * (\<bar>a\<bar> div \<bar>b\<bar>)"

definition MessageBuffer_New :: "int \<Rightarrow> 'msg MessageBuffer" where
  "MessageBuffer_New c = \<lparr>mb_capacity = c, mb_size = 0, mb_messages = []\<rparr>"

fun NewBuffers_loop ::
  "NodeID list \<Rightarrow> int \<Rightarrow> int \<Rightarrow> (NodeID, 'msg MessageBuffer) gomap \<Rightarrow> (NodeID, 'msg MessageBuffer) gomap" where
  "NewBuffers_loop [] totalCapacity len buffers = buffers"
| "NewBuffers_loop (nodeID # nodeIDs) totalCapacity len buffers =
     NewBuffers_loop nodeIDs totalCapacity len
       (AList.update nodeID (MessageBuffer_New (go_quot totalCapacity len)) buffers)"

definition NewBuffers :: "NodeID list \<Rightarrow> int \<Rightarrow> (NodeID, 'msg MessageBuffer) gomap" where
  "NewBuffers nodeIDs totalCapacity = NewBuffers_loop nodeIDs totalCapacity (int (length nodeIDs)) []"

text \<open>\<open>remove\<close> of the front element; the front of an empty list is nil, and removing nil panics.\<close>

fun mb_remove_front :: "('msg \<Rightarrow> nat) \<Rightarrow> 'msg MessageBuffer \<Rightarrow> 'msg MessageBuffer res" where
  "mb_remove_front msz mb =
     (case mb_messages mb of
        [] \<Rightarrow> Inl (Panic ''nil pointer dereference'')
      | msg # rest \<Rightarrow> Inr (mb\<lparr>mb_messages := rest, mb_size := mb_size mb - int (msz msg)\<rparr>))"

text \<open>The loop of \<open>Store\<close> (with the size of the new message) and of \<open>Resize\<close> (with 0).\<close>

function mb_evict :: "('msg \<Rightarrow> nat) \<Rightarrow> int \<Rightarrow> 'msg MessageBuffer \<Rightarrow> 'msg MessageBuffer res" where
  "mb_evict msz extra mb =
     (if mb_size mb + extra > mb_capacity mb
      then (case mb_remove_front msz mb of Inl e \<Rightarrow> Inl e | Inr mb' \<Rightarrow> mb_evict msz extra mb')
      else Inr mb)"
  by pat_completeness auto
termination
  by (relation "measure (\<lambda>(_, _, mb). length (mb_messages mb))") (auto split: list.splits)

declare mb_evict.simps [simp del]

definition MessageBuffer_Store ::
  "('msg \<Rightarrow> nat) \<Rightarrow> 'msg MessageBuffer \<Rightarrow> 'msg \<Rightarrow> ('msg MessageBuffer \<times> bool) res" where
  "MessageBuffer_Store msz mb msg =
     (if int (msz msg) > mb_capacity mb then Inr (mb, False)
      else rbind (mb_evict msz (int (msz msg)) mb) (\<lambda>mb.
        Inr (mb\<lparr>mb_messages := mb_messages mb @ [msg], mb_size := mb_size mb + int (msz msg)\<rparr>, True)))"

definition MessageBuffer_Resize :: "('msg \<Rightarrow> nat) \<Rightarrow> 'msg MessageBuffer \<Rightarrow> int \<Rightarrow> 'msg MessageBuffer res" where
  "MessageBuffer_Resize msz mb newCapacity = mb_evict msz 0 (mb\<lparr>mb_capacity := newCapacity\<rparr>)"

text \<open>
  \<open>Iterate\<close>: the loop walks over the elements present, with \<open>kept\<close> the elements already passed and
  not removed. The state \<open>s\<close> of the caller is threaded through the calls of \<open>apply\<close>.
\<close>

fun Iterate_loop ::
  "('msg \<Rightarrow> nat) \<Rightarrow> ('s \<Rightarrow> 'msg \<Rightarrow> Applicable) \<Rightarrow> ('s \<Rightarrow> 'msg \<Rightarrow> 's res) \<Rightarrow>
     'msg list \<Rightarrow> 'msg list \<Rightarrow> int \<Rightarrow> 's \<Rightarrow> ('msg list \<times> int \<times> 's) res" where
  "Iterate_loop msz filt app kept [] sz s = Inr (kept, sz, s)"
| "Iterate_loop msz filt app kept (msg # rest) sz s =
     (case filt s msg of
        Past \<Rightarrow> Iterate_loop msz filt app kept rest (sz - int (msz msg)) s
      | Current \<Rightarrow> rbind (app s msg) (\<lambda>s. Iterate_loop msz filt app kept rest (sz - int (msz msg)) s)
      | Future \<Rightarrow> Iterate_loop msz filt app (kept @ [msg]) rest sz s
      | Invalid \<Rightarrow> Iterate_loop msz filt app kept rest (sz - int (msz msg)) s)"

definition MessageBuffer_Iterate ::
  "('msg \<Rightarrow> nat) \<Rightarrow> ('s \<Rightarrow> 'msg \<Rightarrow> Applicable) \<Rightarrow> ('s \<Rightarrow> 'msg \<Rightarrow> 's res) \<Rightarrow>
     'msg MessageBuffer \<Rightarrow> 's \<Rightarrow> ('msg MessageBuffer \<times> 's) res" where
  "MessageBuffer_Iterate msz filt app mb s =
     rbind (Iterate_loop msz filt app [] (mb_messages mb) (mb_size mb) s) (\<lambda>(msgs, sz, s).
       Inr (mb\<lparr>mb_messages := msgs, mb_size := sz\<rparr>, s))"

section \<open>Invariant\<close>

definition total_size :: "('msg \<Rightarrow> nat) \<Rightarrow> 'msg list \<Rightarrow> int" where
  "total_size msz msgs = int (sum_list (map msz msgs))"

definition mb_ok :: "('msg \<Rightarrow> nat) \<Rightarrow> 'msg MessageBuffer \<Rightarrow> bool" where
  "mb_ok msz mb \<longleftrightarrow> mb_size mb = total_size msz (mb_messages mb) \<and> mb_size mb \<le> mb_capacity mb"

lemma total_size_simps [simp]:
  "total_size msz [] = 0"
  "total_size msz (x # xs) = int (msz x) + total_size msz xs"
  "total_size msz (xs @ ys) = total_size msz xs + total_size msz ys"
  by (simp_all add: total_size_def)

lemma total_size_nonneg [simp]: "0 \<le> total_size msz xs"
  by (simp add: total_size_def)

lemma mb_ok_New: "0 \<le> c \<Longrightarrow> mb_ok msz (MessageBuffer_New c)"
  by (simp add: mb_ok_def MessageBuffer_New_def)

lemma mb_ok_capacity: "mb_ok msz mb \<Longrightarrow> 0 \<le> mb_capacity mb"
  using total_size_nonneg [of msz "mb_messages mb"] unfolding mb_ok_def by linarith

section \<open>Evicting, storing, resizing\<close>

text \<open>The number of messages the eviction loop removes.\<close>

fun evicted :: "('msg \<Rightarrow> nat) \<Rightarrow> int \<Rightarrow> 'msg list \<Rightarrow> nat" where
  "evicted msz room [] = 0"
| "evicted msz room (x # xs) = (if total_size msz (x # xs) > room then Suc (evicted msz room xs) else 0)"

lemma mb_evict_ok:
  assumes "mb_size mb = total_size msz (mb_messages mb)" "extra \<le> mb_capacity mb"
  shows "mb_evict msz extra mb =
     (let msgs = drop (evicted msz (mb_capacity mb - extra) (mb_messages mb)) (mb_messages mb)
      in Inr (mb\<lparr>mb_messages := msgs, mb_size := total_size msz msgs\<rparr>))"
  using assms
proof (induction "mb_messages mb" arbitrary: mb)
  case Nil
  then show ?case by (cases mb) (simp add: mb_evict.simps [of msz extra])
next
  case (Cons x xs)
  show ?case
  proof (cases "mb_size mb + extra > mb_capacity mb")
    case True
    let ?mb = "mb\<lparr>mb_messages := xs, mb_size := mb_size mb - int (msz x)\<rparr>"
    have front: "mb_remove_front msz mb = Inr ?mb" using Cons(2) [symmetric] by simp
    have IH: "mb_evict msz extra ?mb =
      (let msgs = drop (evicted msz (mb_capacity ?mb - extra) (mb_messages ?mb)) (mb_messages ?mb)
       in Inr (?mb\<lparr>mb_messages := msgs, mb_size := total_size msz msgs\<rparr>))"
      using Cons(2-) by (intro Cons(1)) (auto simp: Cons(2) [symmetric])
    have "mb_evict msz extra mb = mb_evict msz extra ?mb"
      using True front by (subst mb_evict.simps) simp
    also have "evicted msz (mb_capacity mb - extra) (mb_messages mb) =
        Suc (evicted msz (mb_capacity mb - extra) xs)"
      using True Cons(3) by (simp add: Cons(2) [symmetric])
    ultimately show ?thesis
      using IH by (simp add: Cons(2) [symmetric] Let_def)
  next
    case False
    then have "evicted msz (mb_capacity mb - extra) (mb_messages mb) = 0"
      using Cons(3) by (simp add: Cons(2) [symmetric])
    with False show ?thesis
      using Cons(3) by (subst mb_evict.simps) (cases mb, simp add: Let_def)
  qed
qed

lemma evicted_fits: "0 \<le> room \<Longrightarrow> total_size msz (drop (evicted msz room xs) xs) \<le> room"
  by (induction xs) auto

lemma evicted_least: "total_size msz (drop k xs) \<le> room \<Longrightarrow> evicted msz room xs \<le> k"
proof (induction xs arbitrary: k)
  case (Cons x xs)
  then show ?case by (cases k) auto
qed simp

lemma Store_too_large:
  "mb_capacity mb < int (msz msg) \<Longrightarrow> MessageBuffer_Store msz mb msg = Inr (mb, False)"
  by (simp add: MessageBuffer_Store_def)

lemma Store_fits:
  assumes "mb_ok msz mb" "int (msz msg) \<le> mb_capacity mb"
  shows "\<exists>k mb'. MessageBuffer_Store msz mb msg = Inr (mb', True) \<and> mb_ok msz mb' \<and>
     mb_capacity mb' = mb_capacity mb \<and> mb_messages mb' = drop k (mb_messages mb) @ [msg] \<and>
     (\<forall>j < k. mb_capacity mb < total_size msz (drop j (mb_messages mb) @ [msg]))"
proof -
  let ?room = "mb_capacity mb - int (msz msg)"
  let ?k = "evicted msz ?room (mb_messages mb)"
  let ?msgs = "drop ?k (mb_messages mb)"
  have "mb_evict msz (int (msz msg)) mb = Inr (mb\<lparr>mb_messages := ?msgs, mb_size := total_size msz ?msgs\<rparr>)"
    using mb_evict_ok [of mb msz "int (msz msg)"] assms by (simp add: mb_ok_def Let_def)
  moreover have "total_size msz ?msgs \<le> ?room" using assms by (intro evicted_fits) simp
  moreover have "mb_capacity mb < total_size msz (drop j (mb_messages mb) @ [msg])" if "j < ?k" for j
    using evicted_least [of msz j "mb_messages mb" ?room] that by fastforce
  ultimately show ?thesis
    using assms by (intro exI [of _ ?k]) (auto simp: MessageBuffer_Store_def mb_ok_def)
qed

lemma Resize_ok:
  assumes "mb_ok msz mb" "0 \<le> c"
  shows "\<exists>k mb'. MessageBuffer_Resize msz mb c = Inr mb' \<and> mb_ok msz mb' \<and> mb_capacity mb' = c \<and>
     mb_messages mb' = drop k (mb_messages mb) \<and>
     (\<forall>j < k. c < total_size msz (drop j (mb_messages mb)))"
proof -
  let ?k = "evicted msz c (mb_messages mb)"
  let ?msgs = "drop ?k (mb_messages mb)"
  have "MessageBuffer_Resize msz mb c =
      Inr (mb\<lparr>mb_capacity := c, mb_messages := ?msgs, mb_size := total_size msz ?msgs\<rparr>)"
    using mb_evict_ok [of "mb\<lparr>mb_capacity := c\<rparr>" msz 0] assms
    by (simp add: mb_ok_def Let_def MessageBuffer_Resize_def)
  moreover have "total_size msz ?msgs \<le> c" using assms by (intro evicted_fits) simp
  moreover have "c < total_size msz (drop j (mb_messages mb))" if "j < ?k" for j
    using evicted_least [of msz j "mb_messages mb" c] that by fastforce
  ultimately show ?thesis
    by (intro exI [of _ ?k]) (auto simp: mb_ok_def)
qed

section \<open>Iterating\<close>

text \<open>Applying a list of messages in order, stopping at the first failure.\<close>

fun apply_all :: "('s \<Rightarrow> 'msg \<Rightarrow> 's res) \<Rightarrow> 's \<Rightarrow> 'msg list \<Rightarrow> 's res" where
  "apply_all app s [] = Inr s"
| "apply_all app s (m # ms) = rbind (app s m) (\<lambda>s. apply_all app s ms)"

text \<open>
  When the filter does not depend on what \<open>apply\<close> changes (expressed by an invariant \<open>I\<close> of the
  caller's state), the current messages are applied in order and only future ones remain.
\<close>

lemma Iterate_loop_eq:
  assumes "\<And>s msg. I s \<Longrightarrow> filt s msg = f msg"
    and "\<And>s msg s'. I s \<Longrightarrow> f msg = Current \<Longrightarrow> app s msg = Inr s' \<Longrightarrow> I s'"
  shows "I s \<Longrightarrow> Iterate_loop msz filt app kept msgs sz s =
     rbind (apply_all app s (filter (\<lambda>m. f m = Current) msgs)) (\<lambda>s'.
       Inr (kept @ filter (\<lambda>m. f m = Future) msgs,
            sz - total_size msz (filter (\<lambda>m. f m \<noteq> Future) msgs), s'))"
proof (induction msgs arbitrary: kept sz s)
  case (Cons m ms)
  show ?case
  proof (cases "f m = Current")
    case True
    then have step: "Iterate_loop msz filt app kept (m # ms) sz s =
        rbind (app s m) (\<lambda>s. Iterate_loop msz filt app kept ms (sz - int (msz m)) s)"
      using assms(1) Cons.prems by simp
    show ?thesis
    proof (cases "app s m")
      case (Inr s')
      then have "I s'" using assms(2) Cons.prems True by blast
      with Inr True Cons.IH show ?thesis unfolding step by (simp add: algebra_simps)
    qed (simp add: step True del: Iterate_loop.simps)
  next
    case False
    with Cons assms(1) show ?thesis by (cases "f m") (simp_all add: algebra_simps)
  qed
qed simp

lemma total_size_partition:
  "total_size msz (filter P xs) + total_size msz (filter (\<lambda>x. \<not> P x) xs) = total_size msz xs"
  by (induction xs) auto

lemma Iterate_eq:
  assumes "\<And>s msg. I s \<Longrightarrow> filt s msg = f msg"
    and "\<And>s msg s'. I s \<Longrightarrow> f msg = Current \<Longrightarrow> app s msg = Inr s' \<Longrightarrow> I s'"
    and "I s" "mb_ok msz mb"
  shows "MessageBuffer_Iterate msz filt app mb s =
     rbind (apply_all app s (filter (\<lambda>m. f m = Current) (mb_messages mb))) (\<lambda>s'.
       let future = filter (\<lambda>m. f m = Future) (mb_messages mb)
       in Inr (mb\<lparr>mb_messages := future, mb_size := total_size msz future\<rparr>, s'))"
proof -
  have "mb_size mb - total_size msz (filter (\<lambda>m. f m \<noteq> Future) (mb_messages mb)) =
      total_size msz (filter (\<lambda>m. f m = Future) (mb_messages mb))"
    using total_size_partition [of msz "\<lambda>m. f m = Future" "mb_messages mb"] assms(4)
    by (simp add: mb_ok_def)
  moreover have "Iterate_loop msz filt app [] (mb_messages mb) (mb_size mb) s =
     rbind (apply_all app s (filter (\<lambda>m. f m = Current) (mb_messages mb))) (\<lambda>s'.
       Inr (filter (\<lambda>m. f m = Future) (mb_messages mb),
            mb_size mb - total_size msz (filter (\<lambda>m. f m \<noteq> Future) (mb_messages mb)), s'))"
    using Iterate_loop_eq [where I = I and filt = filt and f = f and app = app and kept = "[]"]
      assms(1-3) by simp
  ultimately show ?thesis
    by (simp add: MessageBuffer_Iterate_def rbind_assoc Let_def)
qed

section \<open>Invariants of the caller\<close>

lemma mb_evict_subset: "mb_evict msz extra mb = Inr mb' \<Longrightarrow> set (mb_messages mb') \<subseteq> set (mb_messages mb)"
proof (induction msz extra mb rule: mb_evict.induct)
  case (1 msz extra mb)
  show ?case
  proof (cases "mb_size mb + extra > mb_capacity mb")
    case True
    with 1(2) obtain msg rest where m: "mb_messages mb = msg # rest"
      by (auto simp: mb_evict.simps [of msz extra mb] split: list.splits)
    let ?mb = "mb\<lparr>mb_messages := rest, mb_size := mb_size mb - int (msz msg)\<rparr>"
    have front: "mb_remove_front msz mb = Inr ?mb" using m by simp
    with True 1(2) have "mb_evict msz extra ?mb = Inr mb'" by (simp add: mb_evict.simps [of msz extra mb])
    from 1(1) [OF True front this] m show ?thesis by auto
  next
    case False
    with 1(2) show ?thesis by (simp add: mb_evict.simps [of msz extra mb])
  qed
qed

lemma Store_subset:
  "MessageBuffer_Store msz mb msg = Inr (mb', b) \<Longrightarrow> set (mb_messages mb') \<subseteq> insert msg (set (mb_messages mb))"
  using mb_evict_subset [of msz "int (msz msg)" mb]
  by (auto simp: MessageBuffer_Store_def rbind_eq_Inr split: if_splits)

lemma Iterate_loop_inv:
  assumes step: "\<And>s msg s'. I s \<Longrightarrow> msg \<in> M \<Longrightarrow> filt s msg = Current \<Longrightarrow> app s msg = Inr s' \<Longrightarrow> I s'"
  shows "I s \<Longrightarrow> set msgs \<subseteq> M \<Longrightarrow> Iterate_loop msz filt app kept msgs sz s = Inr (kept', sz', s') \<Longrightarrow>
     I s' \<and> set kept' \<subseteq> set kept \<union> set msgs"
proof (induction msgs arbitrary: kept sz s)
  case (Cons m ms)
  show ?case
  proof (cases "filt s m")
    case Current
    with Cons.prems obtain s1 where s1: "app s m = Inr s1"
      "Iterate_loop msz filt app kept ms (sz - int (msz m)) s1 = Inr (kept', sz', s')"
      by (auto simp: rbind_eq_Inr)
    with Cons.IH [OF step [OF Cons.prems(1) _ Current s1(1)] _ s1(2)] Cons.prems(2) show ?thesis by auto
  next
    case Past
    with Cons.IH [OF Cons.prems(1), of kept "sz - int (msz m)"] Cons.prems show ?thesis by auto
  next
    case Invalid
    with Cons.IH [OF Cons.prems(1), of kept "sz - int (msz m)"] Cons.prems show ?thesis by auto
  next
    case Future
    with Cons.IH [OF Cons.prems(1), of "kept @ [m]" sz] Cons.prems show ?thesis by auto
  qed
qed simp

lemma Iterate_inv:
  assumes "\<And>s msg s'. I s \<Longrightarrow> msg \<in> set (mb_messages mb) \<Longrightarrow> filt s msg = Current \<Longrightarrow> app s msg = Inr s' \<Longrightarrow> I s'"
    and "I s" "MessageBuffer_Iterate msz filt app mb s = Inr (mb', s')"
  shows "I s' \<and> set (mb_messages mb') \<subseteq> set (mb_messages mb)"
  using assms(3) Iterate_loop_inv [where I = I and M = "set (mb_messages mb)", OF assms(1) assms(2) order.refl]
  by (fastforce simp: MessageBuffer_Iterate_def rbind_eq_Inr)

end
