(* ===== verification/PbftTypes.thy ===== *)
theory PbftTypes
  imports Membership MessageBuffer "HOL-Library.Product_Lexorder"
begin

text \<open>
  Data of the PBFT orderer (\<open>pkg/orderers\<close>): protocol messages (\<open>pkg/pb/pbftpb/types\<close>), the events the
  module emits, its configuration, the segment it orders (\<open>pkg/orderers/common/segment.go\<close>), the
  serialisation for hashing and signing (\<open>serialization.go\<close>), and the per-sequence-number slot
  (\<open>pbftslot.go\<close>).

  A pointer that may be nil in a received message is an option. The destination module of an emitted event is a constant of
  the module configuration and is left out; \<open>Self\<close>, which is sent along with deliveries, is kept.
\<close>

section \<open>Messages\<close>

record Preprepare =
  pp_Sn :: SeqNr
  pp_View :: ViewNr
  pp_Data :: gobytes
  pp_Aborted :: bool

text \<open>Entries of the P set and of the Q set have the same fields.\<close>

record PSetEntry =
  e_Sn :: SeqNr
  e_View :: ViewNr
  e_Digest :: gobytes

type_synonym QSetEntry = PSetEntry

record ViewChange =
  vc_View :: ViewNr
  vc_PSet :: "PSetEntry list"
  vc_QSet :: "QSetEntry list"

record SignedViewChange =
  svc_ViewChange :: "ViewChange option"
  svc_Signature :: gobytes

record NewView =
  nv_View :: ViewNr
  nv_ViewChangeSenders :: "NodeID list"
  nv_SignedViewChanges :: "SignedViewChange list"
  nv_PreprepareSeqNrs :: "SeqNr list"
  nv_Preprepares :: "Preprepare list"

datatype PbftMessage =
    MsgPreprepare Preprepare
  | MsgPrepare SeqNr ViewNr gobytes
  | MsgCommit SeqNr ViewNr gobytes
  | MsgDone "gobytes list"
  | MsgCatchUpRequest gobytes SeqNr
  | MsgCatchUpResponse "Preprepare option"
  | MsgSignedViewChange SignedViewChange
  | MsgPreprepareRequest gobytes SeqNr
  | MsgMissingPreprepare "Preprepare option"
  | MsgNewView NewView

section \<open>Emitted events\<close>

text \<open>The contexts with which hash computations are requested.\<close>

datatype HashOneContext =
    CtxPreprepare Preprepare
  | CtxCatchUpResponse Preprepare
  | CtxMissingPreprepare Preprepare

datatype HashContext =
    CtxEmptyPreprepares ViewNr
  | CtxNewView NewView

datatype PbftOut =
    SendMessage PbftMessage "NodeID list"
  | TimerDelay Duration PbftOut
  | TimerRepeat Duration RetentionIndex "PbftOut list"
  | ProposeTimeout uint64
  | ViewChangeSNTimeout ViewNr uint64
  | ViewChangeSegTimeout uint64
  | RequestCert
  | ValidatePreprepare Preprepare NodeID
  | HashRequestOne "bytes list" HashOneContext
  | HashRequest "bytes list list" HashContext
  | SignRequest "bytes list" ViewChange
  | VerifySig "bytes list" gobytes NodeID SignedViewChange
  | VerifySigs "bytes list list" "gobytes list" "NodeID list" NewView
  | SBDeliver SeqNr gobytes bool NodeID ModuleID

section \<open>Configuration\<close>

record PBFTConfig =
  cfg_Membership :: "NodeID list"
  cfg_MaxProposeDelay :: Duration
  cfg_DoneResendPeriod :: Duration
  cfg_CatchUpDelay :: Duration
  cfg_MsgBufCapacity :: int
  cfg_ViewChangeSNTimeout :: Duration
  cfg_ViewChangeSegmentTimeout :: Duration
  cfg_ViewChangeResendPeriod :: Duration
  cfg_EpochNr :: EpochNr

text \<open>
  \<open>ModuleParams\<close>, with the own module identifier of the module configuration and the message size
  function of the protobuf library (a parameter of the development).
\<close>

record PbftParams =
  OwnID :: NodeID
  Config :: PBFTConfig
  Self :: ModuleID
  proto_Size :: "PbftMessage \<Rightarrow> nat"

section \<open>Segments\<close>

record Segment =
  seg_Leader :: NodeID
  seg_Membership :: Membership
  seg_Proposals :: "(SeqNr, gobytes) gomap"

definition NewSegment :: "NodeID \<Rightarrow> Membership \<Rightarrow> (SeqNr, gobytes) gomap \<Rightarrow> Segment res" where
  "NewSegment leader m proposals =
     (if \<not> mhas (Nodes m) leader then Inl (Error ''leader not in Membership'')
      else Inr \<lparr>seg_Leader = leader, seg_Membership = m, seg_Proposals = proposals\<rparr>)"

definition Segment_Len :: "Segment \<Rightarrow> nat" where
  "Segment_Len seg = length (seg_Proposals seg)"

definition NodeIDs :: "Segment \<Rightarrow> NodeID list" where
  "NodeIDs seg = GetSortedKeys (Nodes (seg_Membership seg))"

fun LeaderIndex_loop :: "NodeID \<Rightarrow> nat \<Rightarrow> NodeID list \<Rightarrow> nat res" where
  "LeaderIndex_loop leader i [] = Inl (Panic ''invalid segment: leader not in Membership'')"
| "LeaderIndex_loop leader i (nodeID # ns) =
     (if nodeID = leader then Inr i else LeaderIndex_loop leader (Suc i) ns)"

definition LeaderIndex :: "Segment \<Rightarrow> nat res" where
  "LeaderIndex seg = LeaderIndex_loop (seg_Leader seg) 0 (NodeIDs seg)"

text \<open>
  The index is computed on 64-bit signed integers: \<open>int(view)\<close> is negative for views of at least
  \<open>2^63\<close>, and the remainder has the sign of the dividend.
\<close>

definition go_rem :: "int \<Rightarrow> int \<Rightarrow> int" where
  "go_rem a b = a - go_quot a b * b"

definition PrimaryNode :: "Segment \<Rightarrow> ViewNr \<Rightarrow> NodeID res" where
  "PrimaryNode seg view =
     rbind (LeaderIndex seg) (\<lambda>li.
       let i = go_rem (sint (of_nat li + view)) (int (length (NodeIDs seg)))
       in if i < 0 \<or> int (length (NodeIDs seg)) \<le> i then Inl (Panic ''index out of range'')
          else Inr (NodeIDs seg ! nat i))"

definition SeqNrs :: "Segment \<Rightarrow> SeqNr list" where
  "SeqNrs seg = GetSortedKeys (seg_Proposals seg)"

section \<open>Serialisation\<close>

definition SerializePreprepareForHashing :: "Preprepare \<Rightarrow> bytes list" where
  "SerializePreprepareForHashing pp =
     [Uint64ToBytes (pp_Sn pp), [if pp_Aborted pp then 1 else 0], bval (pp_Data pp)]"

fun SerializeEntries :: "PSetEntry list \<Rightarrow> bytes list" where
  "SerializeEntries [] = []"
| "SerializeEntries (e # es) =
     [Uint64ToBytes (e_Sn e), Uint64ToBytes (e_View e), bval (e_Digest e)] @ SerializeEntries es"

definition SerializeViewChangeForSigning :: "ViewChange \<Rightarrow> bytes list" where
  "SerializeViewChangeForSigning vc =
     [Uint64ToBytes (vc_View vc)] @ SerializeEntries (vc_PSet vc) @ SerializeEntries (vc_QSet vc)"

section \<open>Slots\<close>

record PbftSlot =
  slot_Preprepare :: "Preprepare option"
  PrepareDigests :: "(NodeID, gobytes) gomap"
  ValidPrepareDigests :: "(NodeID, gobytes) gomap"
  CommitDigests :: "(NodeID, gobytes) gomap"
  ValidCommitDigests :: "(NodeID, gobytes) gomap"
  slot_Digest :: gobytes
  Preprepared :: bool
  Prepared :: bool
  Committed :: bool
  slot_membership :: Membership

definition NewPbftSlot :: "Membership \<Rightarrow> PbftSlot" where
  "NewPbftSlot m =
     \<lparr>slot_Preprepare = None, PrepareDigests = [], ValidPrepareDigests = [],
      CommitDigests = [], ValidCommitDigests = [], slot_Digest = None,
      Preprepared = False, Prepared = False, Committed = False, slot_membership = m\<rparr>"

definition PopulateFromPrevious :: "PbftSlot \<Rightarrow> PbftSlot \<Rightarrow> ViewNr \<Rightarrow> PbftSlot res" where
  "PopulateFromPrevious slot prevSlot view =
     (if Committed prevSlot
      then (case slot_Preprepare prevSlot of
              None \<Rightarrow> Inl (Panic ''nil pointer dereference'')
            | Some pp \<Rightarrow> Inr (slot\<lparr>Committed := True, slot_Digest := slot_Digest prevSlot,
                                 slot_Preprepare := Some (pp\<lparr>pp_View := view\<rparr>)\<rparr>))
      else Inr slot)"

text \<open>
  The loop of \<open>CheckPrepared\<close> and \<open>CheckCommitted\<close>: over the received digests, setting each non-nil
  entry to nil and moving the matching ones to the valid ones.
\<close>

fun check_digests ::
  "gobytes \<Rightarrow> (NodeID, gobytes) gomap \<Rightarrow> (NodeID, gobytes) gomap \<Rightarrow>
     (NodeID, gobytes) gomap \<times> (NodeID, gobytes) gomap" where
  "check_digests dig [] valid = ([], valid)"
| "check_digests dig ((from, digest) # rest) valid =
     (let valid = (if digest \<noteq> None \<and> bytes_Equal digest dig then AList.update from digest valid else valid);
          (rest, valid) = check_digests dig rest valid
      in ((from, None) # rest, valid))"

definition CheckPrepared :: "PbftSlot \<Rightarrow> (PbftSlot \<times> bool) res" where
  "CheckPrepared slot =
     (if \<not> Preprepared slot then Inr (slot, False)
      else rbind (HaveStrongQuorum (slot_membership slot) (GetKeys (PrepareDigests slot))) (\<lambda>enough.
        if \<not> enough then Inr (slot, False)
        else let (received, valid) = check_digests (slot_Digest slot) (PrepareDigests slot) (ValidPrepareDigests slot);
                 slot = slot\<lparr>PrepareDigests := received, ValidPrepareDigests := valid\<rparr>
             in rbind (HaveStrongQuorum (slot_membership slot) (GetKeys (ValidPrepareDigests slot)))
                  (\<lambda>b. Inr (slot, b))))"

definition CheckCommitted :: "PbftSlot \<Rightarrow> (PbftSlot \<times> bool) res" where
  "CheckCommitted slot =
     (if \<not> Prepared slot then Inr (slot, False)
      else rbind (HaveStrongQuorum (slot_membership slot) (GetKeys (CommitDigests slot))) (\<lambda>enough.
        if \<not> enough then Inr (slot, False)
        else let (received, valid) = check_digests (slot_Digest slot) (CommitDigests slot) (ValidCommitDigests slot);
                 slot = slot\<lparr>CommitDigests := received, ValidCommitDigests := valid\<rparr>
             in rbind (HaveStrongQuorum (slot_membership slot) (GetKeys (ValidCommitDigests slot)))
                  (\<lambda>b. Inr (slot, b))))"

definition GetPreprepare :: "PbftSlot \<Rightarrow> gobytes \<Rightarrow> Preprepare option" where
  "GetPreprepare slot digest =
     (if digest = None then None
      else if Preprepared slot \<and> bytes_Equal digest (slot_Digest slot) then slot_Preprepare slot
      else None)"

definition slot_CatchUp :: "PbftSlot \<Rightarrow> Preprepare \<Rightarrow> gobytes \<Rightarrow> PbftSlot" where
  "slot_CatchUp slot pp digest =
     slot\<lparr>slot_Preprepare := Some pp, slot_Digest := digest,
          Preprepared := True, Prepared := True, Committed := True\<rparr>"

section \<open>Segments: primaries\<close>

lemma LeaderIndex_loop_ok:
  "leader \<in> set ns \<Longrightarrow> \<exists>j < length ns. LeaderIndex_loop leader i ns = Inr (i + j) \<and> ns ! j = leader"
proof (induction ns arbitrary: i)
  case (Cons n ns)
  then show ?case
  proof (cases "n = leader")
    case False
    with Cons obtain j where "j < length ns" "LeaderIndex_loop leader (Suc i) ns = Inr (Suc i + j)"
      "ns ! j = leader"
      using Cons.IH [of "Suc i"] by auto
    with False show ?thesis by (intro exI [of _ "Suc j"]) auto
  qed auto
qed simp

lemma LeaderIndex_ok:
  assumes "mhas (Nodes (seg_Membership seg)) (seg_Leader seg)"
  obtains li where "LeaderIndex seg = Inr li" "li < length (NodeIDs seg)" "NodeIDs seg ! li = seg_Leader seg"
proof -
  have "seg_Leader seg \<in> set (NodeIDs seg)"
    using assms mhas_iff [of "Nodes (seg_Membership seg)" "seg_Leader seg"] by (simp add: NodeIDs_def)
  from LeaderIndex_loop_ok [OF this, of 0] that show ?thesis by (auto simp: LeaderIndex_def)
qed

lemma go_rem_nonneg: "0 \<le> a \<Longrightarrow> 0 < b \<Longrightarrow> go_rem a b = a mod b"
  by (cases "a = 0") (simp_all add: go_rem_def go_quot_def minus_div_mult_eq_mod)

lemma go_rem_neg_range: "a < 0 \<Longrightarrow> 0 < b \<Longrightarrow> \<not> b dvd a \<Longrightarrow> go_rem a b < 0"
proof -
  assume a: "a < 0" "0 < b" "\<not> b dvd a"
  have "go_rem a b = - (- a mod b)"
    using a by (simp add: go_rem_def go_quot_def minus_div_mult_eq_mod [symmetric] algebra_simps)
  moreover have "- a mod b \<noteq> 0" using a by (simp add: dvd_eq_mod_eq_0 [symmetric])
  ultimately show ?thesis using a by (simp add: order_less_le)
qed

lemma PrimaryNode_index:
  assumes "LeaderIndex seg = Inr li" "NodeIDs seg \<noteq> []" "li + unat view < 2 ^ 63"
  shows "PrimaryNode seg view = Inr (NodeIDs seg ! ((li + unat view) mod length (NodeIDs seg)))"
proof -
  have "unat (of_nat li + view) = li + unat view"
    using assms(3) by (simp add: unat_word_ariths take_bit_eq_mod unat_of_nat)
  moreover have "sint (of_nat li + view) = int (unat (of_nat li + view))"
    using calculation assms(3) by (intro sint_small) simp
  ultimately have "sint (of_nat li + view) = int (li + unat view)" by simp
  then have "go_rem (sint (of_nat li + view)) (int (length (NodeIDs seg))) =
      int ((li + unat view) mod length (NodeIDs seg))"
    using assms(2) by (simp add: go_rem_nonneg zmod_int)
  moreover have "(li + unat view) mod length (NodeIDs seg) < length (NodeIDs seg)"
    using assms(2) by simp
  ultimately show ?thesis
    using assms(1) by (simp add: PrimaryNode_def Let_def del: of_nat_add)
qed

section \<open>Slots: lemmas\<close>

lemma check_digests_snd:
  "snd (check_digests dig ((n, d) # rs) valid) =
     snd (check_digests dig rs (if d \<noteq> None \<and> bval d = bval dig then AList.update n d valid else valid))"
  by (simp add: Let_def split: prod.splits)

lemma check_digests_received: "fst (check_digests dig rs valid) = map (\<lambda>(n, _). (n, None)) rs"
  by (induction dig rs valid rule: check_digests.induct) (auto simp: Let_def split: prod.splits)

lemma check_digests_ok: "gomap_ok valid \<Longrightarrow> gomap_ok (snd (check_digests dig rs valid))"
proof (induction rs arbitrary: valid)
  case (Cons r rs)
  then show ?case by (cases r) (simp add: check_digests_snd del: check_digests.simps)
qed simp

lemma check_digests_valid:
  "map_of (snd (check_digests dig rs valid)) n = Some d \<Longrightarrow>
     map_of valid n = Some d \<or> ((n, d) \<in> set rs \<and> d \<noteq> None \<and> bval d = bval dig)"
proof (induction rs arbitrary: valid)
  case (Cons r rs)
  show ?case
  proof (cases r)
    case (Pair k e)
    with Cons.prems Cons.IH show ?thesis
      by (fastforce simp: check_digests_snd simp del: check_digests.simps split: if_splits)
  qed
qed simp

lemma check_digests_keys:
  "fst ` set (snd (check_digests dig rs valid)) = fst ` set valid \<union> {n. (n, Some (bval dig)) \<in> set rs}"
proof (induction rs arbitrary: valid)
  case (Cons r rs)
  show ?case
  proof (cases r)
    case (Pair k e)
    with Cons.IH show ?thesis
      by (cases e) (auto simp: check_digests_snd simp del: check_digests.simps)
  qed
qed simp

end
