(* ===== verification/PbftReproposal.thy ===== *)
theory PbftReproposal
  imports PbftTypes
begin

text \<open>
  The state of one view change and the choice of what the new primary re-proposes
  (\<open>pkg/orderers/internal/common/pbftviewchangestate.go\<close>, except \<open>SetLocalPreprepares\<close>, which reads the
  PBFT state and is in theory PbftState).

  A re-proposal digest is a \<open>gobytes\<close>: \<open>None\<close> is "not known yet", \<open>Some []\<close> is "safe to propose a fresh
  value", any other value is the digest to re-propose. The main lemma shows that a value
  which correct nodes report as prepared in a strong quorum is the only one that can be
  re-proposed.
\<close>

section \<open>P sets and Q sets\<close>

type_synonym ViewChangePSet = "(SeqNr, PSetEntry) gomap"
type_synonym ViewChangeQSet = "(SeqNr, (bytes, ViewNr) gomap) gomap"

fun reconstructPSet_loop :: "PSetEntry list \<Rightarrow> ViewChangePSet \<Rightarrow> ViewChangePSet res" where
  "reconstructPSet_loop [] pSet = Inr pSet"
| "reconstructPSet_loop (entry # entries) pSet =
     (if mhas pSet (e_Sn entry) then Inl (Error ''invalid Pset: conflicting prepare entries'')
      else reconstructPSet_loop entries (AList.update (e_Sn entry) entry pSet))"

definition reconstructPSet :: "PSetEntry list \<Rightarrow> ViewChangePSet res" where
  "reconstructPSet entries = reconstructPSet_loop entries []"

fun reconstructQSet_loop :: "QSetEntry list \<Rightarrow> ViewChangeQSet \<Rightarrow> ViewChangeQSet res" where
  "reconstructQSet_loop [] qSet = Inr qSet"
| "reconstructQSet_loop (entry # entries) qSet =
     (let snEntry = (case map_of qSet (e_Sn entry) of Some sne \<Rightarrow> sne | None \<Rightarrow> [])
      in if mhas snEntry (bval (e_Digest entry)) then Inl (Error ''invalid Qset: conflicting preprepare entries'')
         else reconstructQSet_loop entries
                (AList.update (e_Sn entry) (AList.update (bval (e_Digest entry)) (e_View entry) snEntry) qSet))"

definition reconstructQSet :: "QSetEntry list \<Rightarrow> ViewChangeQSet res" where
  "reconstructQSet entries = reconstructQSet_loop entries []"

text \<open>View changes with a malformed P set or Q set are skipped.\<close>

fun reconstructPSetQSet_loop ::
  "(NodeID, SignedViewChange) gomap \<Rightarrow> (NodeID, ViewChangePSet) gomap \<Rightarrow> (NodeID, ViewChangeQSet) gomap \<Rightarrow>
     ((NodeID, ViewChangePSet) gomap \<times> (NodeID, ViewChangeQSet) gomap) res" where
  "reconstructPSetQSet_loop [] pSets qSets = Inr (pSets, qSets)"
| "reconstructPSetQSet_loop ((nodeID, svc) # svcs) pSets qSets =
     (case svc_ViewChange svc of
        None \<Rightarrow> Inl (Panic ''nil pointer dereference'')
      | Some vc \<Rightarrow>
          (case reconstructPSet (vc_PSet vc) of
             Inl _ \<Rightarrow> reconstructPSetQSet_loop svcs pSets qSets
           | Inr pSet \<Rightarrow>
               (case reconstructQSet (vc_QSet vc) of
                  Inl _ \<Rightarrow> reconstructPSetQSet_loop svcs pSets qSets
                | Inr qSet \<Rightarrow> reconstructPSetQSet_loop svcs
                                (AList.update nodeID pSet pSets) (AList.update nodeID qSet qSets))))"

definition reconstructPSetQSet ::
  "(NodeID, SignedViewChange) gomap \<Rightarrow> ((NodeID, ViewChangePSet) gomap \<times> (NodeID, ViewChangeQSet) gomap) res" where
  "reconstructPSetQSet svcs = reconstructPSetQSet_loop svcs [] []"

text \<open>\<open>PbType\<close>: the entries as a list, sorted by sequence number, view and digest.\<close>

definition entry_key :: "PSetEntry \<Rightarrow> SeqNr \<times> ViewNr \<times> bytes" where
  "entry_key e = (e_Sn e, e_View e, bval (e_Digest e))"

definition PSet_PbType :: "ViewChangePSet \<Rightarrow> PSetEntry list" where
  "PSet_PbType pSet = sort_key entry_key (map snd pSet)"

definition QSet_PbType :: "ViewChangeQSet \<Rightarrow> QSetEntry list" where
  "QSet_PbType qSet =
     sort_key entry_key
       (concat (map (\<lambda>(sn, qEntry).
          map (\<lambda>(digest, view). \<lparr>e_Sn = sn, e_View = view, e_Digest = Some digest\<rparr>) qEntry) qSet))"

section \<open>What to re-propose\<close>

definition noPrepareConflictsA1 ::
  "(NodeID, ViewChangePSet) gomap \<Rightarrow> SeqNr \<Rightarrow> gobytes \<Rightarrow> ViewNr \<Rightarrow> Membership \<Rightarrow> bool res" where
  "noPrepareConflictsA1 pSets sn digest view m =
     (let nonConflicting = map fst (filter (\<lambda>(nodeID, pSet).
            case map_of pSet sn of
              None \<Rightarrow> True
            | Some entry \<Rightarrow> e_View entry < view \<or> (e_View entry = view \<and> bytes_Equal (e_Digest entry) digest)) pSets)
      in HaveStrongQuorum m nonConflicting)"

text \<open>The lookup \<open>snEntry[string(digest)]\<close> of an absent digest yields view 0.\<close>

definition enoughPrepreparesA2 ::
  "(NodeID, ViewChangeQSet) gomap \<Rightarrow> SeqNr \<Rightarrow> gobytes \<Rightarrow> ViewNr \<Rightarrow> Membership \<Rightarrow> (bool \<times> NodeID list) res" where
  "enoughPrepreparesA2 qSets sn digest view m =
     (let nodeIDs = map fst (filter (\<lambda>(nodeID, qSet).
            case map_of qSet sn of
              None \<Rightarrow> False
            | Some snEntry \<Rightarrow>
                (case map_of snEntry (bval digest) of None \<Rightarrow> 0 | Some v \<Rightarrow> v) \<ge> view) qSets)
      in rbind (HaveWeakQuorum m nodeIDs) (\<lambda>b. Inr (b, nodeIDs)))"

definition nothingPreparedB :: "(NodeID, ViewChangePSet) gomap \<Rightarrow> SeqNr \<Rightarrow> Membership \<Rightarrow> bool res" where
  "nothingPreparedB pSets sn m =
     (let nothingPrepared = map fst (filter (\<lambda>(nodeID, pSet). \<not> mhas pSet sn) pSets)
      in HaveStrongQuorum m nothingPrepared)"

fun reproposal_loop ::
  "(NodeID, ViewChangePSet) gomap \<Rightarrow> (NodeID, ViewChangePSet) gomap \<Rightarrow> (NodeID, ViewChangeQSet) gomap \<Rightarrow>
     SeqNr \<Rightarrow> Membership \<Rightarrow> (gobytes \<times> NodeID list) res" where
  "reproposal_loop [] pSets qSets sn m = Inr (None, [])"
| "reproposal_loop ((nodeID, pSet) # rest) pSets qSets sn m =
     (case map_of pSet sn of
        None \<Rightarrow> reproposal_loop rest pSets qSets sn m
      | Some entry \<Rightarrow>
          rbind (enoughPrepreparesA2 qSets sn (e_Digest entry) (e_View entry) m) (\<lambda>(a2, prepreparedIDs).
          rbind (noPrepareConflictsA1 pSets sn (e_Digest entry) (e_View entry) m) (\<lambda>a1.
            if a1 \<and> a2 then Inr (e_Digest entry, prepreparedIDs)
            else reproposal_loop rest pSets qSets sn m)))"

definition reproposal ::
  "(NodeID, ViewChangePSet) gomap \<Rightarrow> (NodeID, ViewChangeQSet) gomap \<Rightarrow> SeqNr \<Rightarrow> Membership \<Rightarrow>
     (gobytes \<times> NodeID list) res" where
  "reproposal pSets qSets sn m =
     rbind (nothingPreparedB pSets sn m) (\<lambda>b.
       if b then Inr (Some [], []) else reproposal_loop pSets pSets qSets sn m)"

section \<open>View change state\<close>

record PbftViewChangeState =
  vcs_Membership :: Membership
  SignedViewChanges :: "(NodeID, SignedViewChange) gomap"
  Reproposals :: "(SeqNr, gobytes) gomap"
  Preprepares :: "(SeqNr, Preprepare option) gomap"
  PrepreparedIDs :: "(SeqNr, NodeID list) gomap"

definition NewPbftViewChangeState :: "SeqNr list \<Rightarrow> Membership \<Rightarrow> PbftViewChangeState" where
  "NewPbftViewChangeState seqNrs m =
     \<lparr>vcs_Membership = m, SignedViewChanges = [],
      Reproposals = fold (\<lambda>sn r. AList.update sn None r) seqNrs [],
      Preprepares = fold (\<lambda>sn r. AList.update sn None r) seqNrs [],
      PrepreparedIDs = []\<rparr>"

definition EnoughViewChanges :: "PbftViewChangeState \<Rightarrow> bool" where
  "EnoughViewChanges vcState = list_all (\<lambda>(_, r). r \<noteq> None) (Reproposals vcState)"

fun updateReproposals_loop ::
  "(NodeID, ViewChangePSet) gomap \<Rightarrow> (NodeID, ViewChangeQSet) gomap \<Rightarrow> (SeqNr, gobytes) gomap \<Rightarrow>
     PbftViewChangeState \<Rightarrow> PbftViewChangeState res" where
  "updateReproposals_loop pSets qSets [] vcState = Inr vcState"
| "updateReproposals_loop pSets qSets ((sn, r) # rs) vcState =
     (if r = None
      then rbind (reproposal pSets qSets sn (vcs_Membership vcState)) (\<lambda>(digest, ids).
             updateReproposals_loop pSets qSets rs
               (vcState\<lparr>Reproposals := AList.update sn digest (Reproposals vcState),
                        PrepreparedIDs := AList.update sn ids (PrepreparedIDs vcState)\<rparr>))
      else updateReproposals_loop pSets qSets rs vcState)"

definition updateReproposals :: "PbftViewChangeState \<Rightarrow> PbftViewChangeState res" where
  "updateReproposals vcState =
     rbind (reconstructPSetQSet (SignedViewChanges vcState)) (\<lambda>(pSets, qSets).
       updateReproposals_loop pSets qSets (Reproposals vcState) vcState)"

definition AddSignedViewChange ::
  "PbftViewChangeState \<Rightarrow> SignedViewChange \<Rightarrow> NodeID \<Rightarrow> PbftViewChangeState res" where
  "AddSignedViewChange vcState svc from =
     (if EnoughViewChanges vcState then Inr vcState
      else if mhas (SignedViewChanges vcState) from then Inr vcState
      else let vcState = vcState\<lparr>SignedViewChanges := AList.update from svc (SignedViewChanges vcState)\<rparr>
           in rbind (HaveStrongQuorum (vcs_Membership vcState) (GetKeys (SignedViewChanges vcState))) (\<lambda>q.
                if q then updateReproposals vcState else Inr vcState))"

text \<open>
  \<open>SetEmptyPreprepares\<close> returns the updated state and the data to hash; a re-proposal that is an
  empty but non-nil slice stands for a fresh value.
\<close>

definition SetEmptyPreprepares ::
  "PbftViewChangeState \<Rightarrow> ViewNr \<Rightarrow> (SeqNr, gobytes) gomap \<Rightarrow> PbftViewChangeState \<times> bytes list list" where
  "SetEmptyPreprepares vcState view proposals =
     IterateSorted (Reproposals vcState) (\<lambda>sn digest (vcState, dataToHash).
       if digest = Some []
       then let data = (case map_of proposals sn of Some (Some d) \<Rightarrow> Some d | _ \<Rightarrow> Some []);
                pp = \<lparr>pp_Sn = sn, pp_View = view, pp_Data = data, pp_Aborted = True\<rparr>
            in (True, (vcState\<lparr>Preprepares := AList.update sn (Some pp) (Preprepares vcState)\<rparr>,
                       dataToHash @ [SerializePreprepareForHashing pp]))
       else (True, (vcState, dataToHash))) (vcState, [])"

text \<open>\<open>digests[i]\<close> panics when there are fewer digests than empty re-proposals.\<close>

definition SetEmptyPreprepareDigests ::
  "PbftViewChangeState \<Rightarrow> gobytes list \<Rightarrow> PbftViewChangeState res" where
  "SetEmptyPreprepareDigests vcState digests =
     rbind (IterateSorted (Reproposals vcState) (\<lambda>sn digest r.
       case r of
         Inl e \<Rightarrow> (False, Inl e)
       | Inr (vcState, i) \<Rightarrow>
           if digest = Some []
           then if i < length digests
                then (True, Inr (vcState\<lparr>Reproposals := AList.update sn (digests ! i) (Reproposals vcState)\<rparr>, Suc i))
                else (False, Inl (Panic ''index out of range''))
           else (True, Inr (vcState, i))) (Inr (vcState, 0))) (\<lambda>(vcState, i).
     if i \<noteq> length digests then Inl (Error ''more digests than empty Preprepares'') else Inr vcState)"

definition HasAllPreprepares :: "PbftViewChangeState \<Rightarrow> bool" where
  "HasAllPreprepares vcState = list_all (\<lambda>(_, pp). pp \<noteq> None) (Preprepares vcState)"

section \<open>Safety of the re-proposal\<close>

text \<open>
  What correct nodes report, relative to a value \<open>d\<close> that was prepared by the nodes \<open>C\<close> in view
  \<open>v\<close>: every correct node of \<open>C\<close> reports an entry of at least view \<open>v\<close>, entries and Q-set
  claims of correct nodes for views from \<open>v\<close> on are for \<open>d\<close>.
\<close>

definition reports_prepared ::
  "NodeID set \<Rightarrow> NodeID list \<Rightarrow> SeqNr \<Rightarrow> bytes \<Rightarrow> ViewNr \<Rightarrow> (NodeID, ViewChangePSet) gomap \<Rightarrow>
     (NodeID, ViewChangeQSet) gomap \<Rightarrow> bool" where
  "reports_prepared F C sn d v pSets qSets \<longleftrightarrow>
     (\<forall>(n, pSet) \<in> set pSets. n \<notin> F \<longrightarrow>
        (n \<in> set C \<longrightarrow> (\<exists>e. map_of pSet sn = Some e \<and> v \<le> e_View e)) \<and>
        (\<forall>e. map_of pSet sn = Some e \<longrightarrow> v \<le> e_View e \<longrightarrow> bval (e_Digest e) = d)) \<and>
     (\<forall>(n, qSet) \<in> set qSets. n \<notin> F \<longrightarrow>
        (\<forall>snEntry d' v'. map_of qSet sn = Some snEntry \<longrightarrow> map_of snEntry d' = Some v' \<longrightarrow> v < v' \<longrightarrow> d' = d))"

lemma nothingPreparedB_false:
  assumes ok: "membership_ok m" and F: "tolerable m F"
    and C: "distinct C" "HaveStrongQuorum m C = Inr True"
    and rep: "reports_prepared F C sn d v pSets qSets" and pS: "gomap_ok pSets"
  shows "nothingPreparedB pSets sn m \<noteq> Inr True"
proof
  let ?ns = "map fst (filter (\<lambda>(nodeID, pSet). \<not> mhas pSet sn) pSets)"
  assume "nothingPreparedB pSets sn m = Inr True"
  then have q: "HaveStrongQuorum m ?ns = Inr True" by (simp only: nothingPreparedB_def Let_def)
  have "distinct ?ns" by (rule gomap_ok_filter [OF pS])
  from quorum.strong_common_correct [OF ok C(1) this C(2) q F]
  obtain n where n: "n \<in> set C" "n \<in> set ?ns" "n \<notin> F" by blast
  then obtain pSet where pSet: "(n, pSet) \<in> set pSets" "map_of pSet sn = None" by auto
  from rep pSet(1) n(1,3) have "\<exists>e. map_of pSet sn = Some e" unfolding reports_prepared_def by blast
  with pSet(2) show False by simp
qed

lemma accepted_entry_digest:
  assumes ok: "membership_ok m" and F: "tolerable m F"
    and C: "distinct C" "HaveStrongQuorum m C = Inr True"
    and rep: "reports_prepared F C sn d v pSets qSets" and pS: "gomap_ok pSets" and qS: "gomap_ok qSets"
    and a1: "noPrepareConflictsA1 pSets sn dig view m = Inr True"
    and a2: "enoughPrepreparesA2 qSets sn dig view m = Inr (True, ids)"
  shows "bval dig = d"
proof -
  let ?free = "\<lambda>(nodeID :: NodeID, pSet). case map_of pSet sn of
      None \<Rightarrow> True
    | Some entry \<Rightarrow> e_View entry < view \<or> (e_View entry = view \<and> bytes_Equal (e_Digest entry) dig)"
  have q1: "HaveStrongQuorum m (map fst (filter ?free pSets)) = Inr True"
    using a1 by (simp only: noPrepareConflictsA1_def Let_def)
  have "distinct (map fst (filter ?free pSets))" by (rule gomap_ok_filter [OF pS])
  from quorum.strong_common_correct [OF ok C(1) this C(2) q1 F]
  obtain n where n: "n \<in> set C" "n \<in> set (map fst (filter ?free pSets))" "n \<notin> F" by blast
  then obtain pSet where pSet: "(n, pSet) \<in> set pSets" "?free (n, pSet)" by auto
  from rep pSet(1) n(1,3) obtain e where e: "map_of pSet sn = Some e" "v \<le> e_View e"
    and ed: "bval (e_Digest e) = d"
    unfolding reports_prepared_def by blast
  show ?thesis
  proof (cases "e_View e = view \<and> bval (e_Digest e) = bval dig")
    case False
    with pSet(2) e(1) have "e_View e < view" by auto
    with e(2) have view: "v < view" by simp
    let ?P = "\<lambda>(nodeID :: NodeID, qSet). case map_of qSet sn of
        None \<Rightarrow> False
      | Some snEntry \<Rightarrow> (case map_of snEntry (bval dig) of None \<Rightarrow> 0 | Some v \<Rightarrow> v) \<ge> view"
    have q2: "HaveWeakQuorum m (map fst (filter ?P qSets)) = Inr True"
      using a2 by (auto simp: enoughPrepreparesA2_def Let_def rbind_eq_Inr)
    have "distinct (map fst (filter ?P qSets))" by (rule gomap_ok_filter [OF qS])
    from quorum.weak_correct [OF ok this q2 F]
    obtain k qSet where k: "k \<notin> F" "(k, qSet) \<in> set qSets" "?P (k, qSet)" by auto
    then obtain snEntry v' where "map_of qSet sn = Some snEntry" "map_of snEntry (bval dig) = Some v'" "view \<le> v'"
      using view by (auto split: option.splits)
    with rep k(1,2) view show ?thesis unfolding reports_prepared_def by fastforce
  qed (use ed in simp)
qed

lemma reproposal_loop_digest:
  assumes "reproposal_loop rest pSets qSets sn m = Inr (Some dig, ids)"
  shows "\<exists>v. noPrepareConflictsA1 pSets sn (Some dig) v m = Inr True \<and>
    enoughPrepreparesA2 qSets sn (Some dig) v m = Inr (True, ids)"
  using assms
proof (induction rest)
  case (Cons r rest)
  show ?case
  proof (cases r)
    case (Pair n pSet)
    with Cons show ?thesis by (auto simp: rbind_eq_Inr split: option.splits if_splits)
  qed
qed simp

lemma reproposal_only_prepared:
  assumes ok: "membership_ok m" and F: "tolerable m F"
    and C: "distinct C" "HaveStrongQuorum m C = Inr True"
    and rep: "reports_prepared F C sn d v pSets qSets" and maps: "gomap_ok pSets" "gomap_ok qSets"
    and r: "reproposal pSets qSets sn m = Inr (Some dig, ids)"
  shows "dig = d"
proof -
  have "reproposal_loop pSets pSets qSets sn m = Inr (Some dig, ids)"
    using r nothingPreparedB_false [OF ok F C rep maps(1)]
    by (auto simp: reproposal_def rbind_eq_Inr split: if_splits)
  then obtain v' where "noPrepareConflictsA1 pSets sn (Some dig) v' m = Inr True"
    "enoughPrepreparesA2 qSets sn (Some dig) v' m = Inr (True, ids)"
    using reproposal_loop_digest by blast
  from accepted_entry_digest [OF ok F C rep maps this] show ?thesis by simp
qed

section \<open>Properties\<close>


definition ex_pSets :: "(NodeID, ViewChangePSet) gomap" where
  "ex_pSets = [(''a'', [(0, \<lparr>e_Sn = 0, e_View = 2, e_Digest = Some [1]\<rparr>)]), (''b'', [(0, \<lparr>e_Sn = 0, e_View = 2, e_Digest = Some [1]\<rparr>)]),
     (''d'', [(0, \<lparr>e_Sn = 0, e_View = 1, e_Digest = Some [9]\<rparr>)])]"

definition ex_qSets :: "(NodeID, ViewChangeQSet) gomap" where
  "ex_qSets = [(''a'', [(0, [([1], 2)])]), (''b'', [(0, [([1], 2)])]), (''d'', [(0, [([9], 1)])])]"


end
