(* ===== verification/PbftState.thy ===== *)
theory PbftState
  imports PbftReproposal
begin

text \<open>
  The state of a PBFT instance and the operations of \<open>pkg/orderers/internal/common\<close> on it: the
  segment-level checkpoint (\<open>pbftsegmentchkp.go\<close>), the instance state with its slots, view
  initialisation and look-up of preprepares (\<open>common.go\<close>), and \<open>SetLocalPreprepares\<close>.

  The events a handler emits are appended to the module's output queue, which is the field
  \<open>outputEvents\<close> of the state (in the source it is the queue of the DSL module handle).
\<close>

section \<open>Segment-level checkpoint\<close>

record PbftSegmentChkp =
  doneReceived :: "(NodeID, unit) gomap"
  doneMsgIndex :: "(bytes, NodeID list) gomap"
  chkp_digests :: "(SeqNr, gobytes) gomap option"
  chkp_done :: bool
  doneNodes :: "NodeID list option"
  CatchingUp :: bool

definition NewPbftSegmentChkp :: PbftSegmentChkp where
  "NewPbftSegmentChkp = \<lparr>doneReceived = [], doneMsgIndex = [], chkp_digests = None,
     chkp_done = False, doneNodes = None, CatchingUp = False\<rparr>"

definition SetDone :: "PbftSegmentChkp \<Rightarrow> PbftSegmentChkp" where
  "SetDone chkp = chkp\<lparr>chkp_done := True\<rparr>"

fun Stable_loop :: "Membership \<Rightarrow> (bytes, NodeID list) gomap \<Rightarrow> bool res" where
  "Stable_loop m [] = Inr False"
| "Stable_loop m ((_, nodeIDs) # rest) =
     rbind (HaveStrongQuorum m nodeIDs) (\<lambda>b. if b then Inr True else Stable_loop m rest)"

definition chkp_Stable :: "PbftSegmentChkp \<Rightarrow> Membership \<Rightarrow> bool res" where
  "chkp_Stable chkp m = (if \<not> chkp_done chkp then Inr False else Stable_loop m (doneMsgIndex chkp))"

definition aggregateToString :: "gobytes list \<Rightarrow> bytes" where
  "aggregateToString digests = concat (map bval digests)"

text \<open>\<open>doneDigests[i]\<close> for the i-th sequence number of the segment; out of range it panics.\<close>

fun assign_digests :: "SeqNr list \<Rightarrow> gobytes list \<Rightarrow> (SeqNr, gobytes) gomap \<Rightarrow> (SeqNr, gobytes) gomap res" where
  "assign_digests [] ds m = Inr m"
| "assign_digests (sn # sns) [] m = Inl (Panic ''index out of range'')"
| "assign_digests (sn # sns) (d # ds) m = assign_digests sns ds (AList.update sn d m)"

definition NodeDone :: "PbftSegmentChkp \<Rightarrow> NodeID \<Rightarrow> gobytes list \<Rightarrow> Segment \<Rightarrow> PbftSegmentChkp res" where
  "NodeDone chkp nodeID doneDigests segment =
     (if mhas (doneReceived chkp) nodeID then Inr chkp
      else
        let strKey = aggregateToString doneDigests;
            ids = (case map_of (doneMsgIndex chkp) strKey of None \<Rightarrow> [] | Some ids \<Rightarrow> ids) @ [nodeID];
            chkp = chkp\<lparr>doneReceived := AList.update nodeID () (doneReceived chkp),
                        doneMsgIndex := AList.update strKey ids (doneMsgIndex chkp)\<rparr>
        in rbind (HaveWeakQuorum (seg_Membership segment) ids) (\<lambda>weak.
             if weak
             then let chkp = chkp\<lparr>doneNodes := Some ids\<rparr>
                  in (case chkp_digests chkp of
                        Some _ \<Rightarrow> Inr chkp
                      | None \<Rightarrow> rbind (assign_digests (SeqNrs segment) doneDigests [])
                                  (\<lambda>ds. Inr (chkp\<lparr>chkp_digests := Some ds\<rparr>)))
             else Inr chkp))"

section \<open>Instance state\<close>

record PbftProposalState =
  ProposalsMade :: int
  CertRequested :: bool
  CertRequestedView :: ViewNr
  ProposalTimeoutNr :: int

record PbftState =
  st_Segment :: Segment
  MessageBuffers :: "(NodeID, PbftMessage MessageBuffer) gomap"
  Proposal :: PbftProposalState
  Slots :: "(ViewNr, (SeqNr, PbftSlot) gomap) gomap"
  SegmentCheckpoint :: PbftSegmentChkp
  View :: ViewNr
  InViewChange :: bool
  ViewChangeStates :: "(ViewNr, PbftViewChangeState) gomap"
  outputEvents :: "PbftOut list"

definition emit :: "PbftOut \<Rightarrow> PbftState \<Rightarrow> PbftState" where
  "emit e s = s\<lparr>outputEvents := outputEvents s @ [e]\<rparr>"

text \<open>Reading a nil inner map yields no entry.\<close>

definition slots_of :: "PbftState \<Rightarrow> ViewNr \<Rightarrow> (SeqNr, PbftSlot) gomap" where
  "slots_of s v = (case map_of (Slots s) v of None \<Rightarrow> [] | Some m \<Rightarrow> m)"

definition get_slot :: "PbftState \<Rightarrow> ViewNr \<Rightarrow> SeqNr \<Rightarrow> PbftSlot option" where
  "get_slot s v sn = map_of (slots_of s v) sn"

definition put_slot :: "ViewNr \<Rightarrow> SeqNr \<Rightarrow> PbftSlot \<Rightarrow> PbftState \<Rightarrow> PbftState" where
  "put_slot v sn slot s = s\<lparr>Slots := AList.update v (AList.update sn slot (slots_of s v)) (Slots s)\<rparr>"

definition NumCommitted :: "PbftState \<Rightarrow> ViewNr \<Rightarrow> nat" where
  "NumCommitted s view = length (filter (\<lambda>(_, slot). Committed slot) (slots_of s view))"

definition AllCommitted :: "PbftState \<Rightarrow> bool" where
  "AllCommitted s \<longleftrightarrow> NumCommitted s (View s) = length (slots_of s (View s))"

text \<open>A shift by 64 or more yields 0; the product wraps around.\<close>

definition computeTimeout :: "Duration \<Rightarrow> ViewNr \<Rightarrow> Duration" where
  "computeTimeout timeout view = timeout * push_bit (unat view) 1"

fun InitView_slots :: "PbftState \<Rightarrow> ViewNr \<Rightarrow> SeqNr list \<Rightarrow> (SeqNr, PbftSlot) gomap \<Rightarrow> (SeqNr, PbftSlot) gomap res" where
  "InitView_slots s view [] slots = Inr slots"
| "InitView_slots s view (sn # sns) slots =
     (let slot = NewPbftSlot (seg_Membership (st_Segment s))
      in rbind (if view > 0
                then (case get_slot s (View s) sn of
                        None \<Rightarrow> Inl (Panic ''nil pointer dereference'')
                      | Some prev \<Rightarrow> PopulateFromPrevious slot prev view)
                else Inr slot) (\<lambda>slot.
           InitView_slots s view sns (AList.update sn slot slots)))"

definition InitView :: "PbftParams \<Rightarrow> ViewNr \<Rightarrow> PbftState \<Rightarrow> PbftState res" where
  "InitView p view s =
     (if view < View s then Inl (Error ''starting a view older than the current one'')
      else if view \<noteq> 0 \<and> view = View s then Inr s
      else rbind (InitView_slots s view (SeqNrs (st_Segment s)) []) (\<lambda>slots.
        let s = s\<lparr>Slots := AList.update view slots (Slots s)\<rparr>;
            s = emit (TimerDelay (computeTimeout (cfg_ViewChangeSNTimeout (Config p)) view)
                        (ViewChangeSNTimeout view (of_nat (NumCommitted s view)))) s;
            s = emit (TimerDelay (computeTimeout (cfg_ViewChangeSegmentTimeout (Config p)) view)
                        (ViewChangeSegTimeout view)) s
        in Inr (s\<lparr>View := view\<rparr>)))"

function LookUp_from :: "PbftState \<Rightarrow> SeqNr \<Rightarrow> gobytes \<Rightarrow> ViewNr \<Rightarrow> Preprepare option" where
  "LookUp_from s sn digest view =
     (case (case get_slot s view sn of None \<Rightarrow> None | Some slot \<Rightarrow> GetPreprepare slot digest) of
        Some pp \<Rightarrow> Some pp
      | None \<Rightarrow> if view = 0 then None else LookUp_from s sn digest (view - 1))"
  by pat_completeness auto
termination
  by (relation "measure (\<lambda>(s, sn, digest, view). unat view)") (auto simp: measure_unat)

declare LookUp_from.simps [simp del]

definition LookUpPreprepare :: "PbftState \<Rightarrow> SeqNr \<Rightarrow> gobytes \<Rightarrow> Preprepare option" where
  "LookUpPreprepare s sn digest = LookUp_from s sn digest (View s)"

fun SetLocalPreprepares_loop ::
  "PbftState \<Rightarrow> ViewNr \<Rightarrow> (SeqNr, gobytes) gomap \<Rightarrow> PbftViewChangeState \<Rightarrow> PbftViewChangeState" where
  "SetLocalPreprepares_loop s view [] vcState = vcState"
| "SetLocalPreprepares_loop s view ((sn, digest) # rs) vcState =
     SetLocalPreprepares_loop s view rs
       (if (map_of (Preprepares vcState) sn = None \<or> map_of (Preprepares vcState) sn = Some None) \<and>
           bval digest \<noteq> []
        then (case LookUpPreprepare s sn digest of
                None \<Rightarrow> vcState
              | Some pp \<Rightarrow> vcState\<lparr>Preprepares :=
                             AList.update sn (Some (pp\<lparr>pp_View := view\<rparr>)) (Preprepares vcState)\<rparr>)
        else vcState)"

definition SetLocalPreprepares :: "PbftState \<Rightarrow> ViewNr \<Rightarrow> PbftViewChangeState \<Rightarrow> PbftViewChangeState" where
  "SetLocalPreprepares s view vcState = SetLocalPreprepares_loop s view (Reproposals vcState) vcState"

section \<open>Lemmas\<close>

lemma emit_simps [simp]:
  "st_Segment (emit e s) = st_Segment s" "MessageBuffers (emit e s) = MessageBuffers s"
  "Proposal (emit e s) = Proposal s" "Slots (emit e s) = Slots s"
  "SegmentCheckpoint (emit e s) = SegmentCheckpoint s" "View (emit e s) = View s"
  "InViewChange (emit e s) = InViewChange s" "ViewChangeStates (emit e s) = ViewChangeStates s"
  "outputEvents (emit e s) = outputEvents s @ [e]" "get_slot (emit e s) = get_slot s"
  "slots_of (emit e s) = slots_of s"
  by (auto simp: emit_def get_slot_def slots_of_def fun_eq_iff)

lemma put_slot_simps [simp]:
  "st_Segment (put_slot v sn slot s) = st_Segment s"
  "MessageBuffers (put_slot v sn slot s) = MessageBuffers s"
  "Proposal (put_slot v sn slot s) = Proposal s"
  "SegmentCheckpoint (put_slot v sn slot s) = SegmentCheckpoint s"
  "View (put_slot v sn slot s) = View s"
  "InViewChange (put_slot v sn slot s) = InViewChange s"
  "ViewChangeStates (put_slot v sn slot s) = ViewChangeStates s"
  "outputEvents (put_slot v sn slot s) = outputEvents s"
  by (simp_all add: put_slot_def)

lemma get_put_slot [simp]:
  "get_slot (put_slot v sn slot s) v' sn' = (if v' = v \<and> sn' = sn then Some slot else get_slot s v' sn')"
  by (auto simp: get_slot_def put_slot_def slots_of_def)

lemma get_slot_cong: "Slots s' = Slots s \<Longrightarrow> get_slot s' = get_slot s"
  by (auto simp: get_slot_def slots_of_def fun_eq_iff)

lemma LookUp_from_sound:
  assumes "LookUp_from s sn digest view = Some pp"
  shows "\<exists>v slot. v \<le> view \<and> get_slot s v sn = Some slot \<and> Preprepared slot \<and> digest \<noteq> None \<and>
           bval digest = bval (slot_Digest slot) \<and> slot_Preprepare slot = Some pp"
  using assms
proof (induction s sn digest view rule: LookUp_from.induct)
  case (1 s sn digest view)
  show ?case
  proof (cases "case get_slot s view sn of None \<Rightarrow> None | Some slot \<Rightarrow> GetPreprepare slot digest")
    case None
    then have r: "view \<noteq> 0" "LookUp_from s sn digest (view - 1) = Some pp"
      using 1(2) by (auto simp: LookUp_from.simps [of s sn digest view] split: if_splits)
    from 1(1) [OF None r] word_pred_less [OF r(1)] show ?thesis by (meson order_trans less_imp_le)
  next
    case (Some pp')
    then have "LookUp_from s sn digest view = Some pp'" by (simp add: LookUp_from.simps [of s sn digest view])
    with 1(2) Some show ?thesis
      by (intro exI [of _ view]) (auto simp: GetPreprepare_def split: option.splits if_splits)
  qed
qed

lemma LookUp_from_complete:
  assumes "get_slot s v sn = Some slot" "v \<le> view" "GetPreprepare slot digest = Some pp"
  shows "LookUp_from s sn digest view \<noteq> None"
  using assms
proof (induction s sn digest view rule: LookUp_from.induct)
  case (1 s sn digest view)
  show ?case
  proof (cases "case get_slot s view sn of None \<Rightarrow> None | Some slot \<Rightarrow> GetPreprepare slot digest")
    case None
    with 1(2,4) have "v \<noteq> view" by auto
    with 1(3) have "view \<noteq> 0" "v \<le> view - 1" by (auto intro: word_le_pred)
    with 1 None show ?thesis by (simp add: LookUp_from.simps [of s sn digest view])
  next
    case (Some pp')
    then show ?thesis by (simp add: LookUp_from.simps [of s sn digest view])
  qed
qed

lemma InitView_slots_mono:
  assumes "InitView_slots s view sns slots = Inr slots'"
  shows "map_of slots' sn \<noteq> None \<longleftrightarrow> sn \<in> set sns \<or> map_of slots sn \<noteq> None"
  using assms
  by (induction s view sns slots rule: InitView_slots.induct) (auto simp: Let_def rbind_eq_Inr)

text \<open>The slots of a new view: fresh, or carrying over a committed value.\<close>

definition init_slot :: "Membership \<Rightarrow> PbftSlot option \<Rightarrow> ViewNr \<Rightarrow> PbftSlot \<Rightarrow> bool" where
  "init_slot m prev view slot \<longleftrightarrow>
     slot = NewPbftSlot m \<or>
     (\<exists>ps pp. prev = Some ps \<and> Committed ps \<and> slot_Preprepare ps = Some pp \<and>
        slot = (NewPbftSlot m)\<lparr>Committed := True, slot_Digest := slot_Digest ps,
                               slot_Preprepare := Some (pp\<lparr>pp_View := view\<rparr>)\<rparr>)"

lemma InitView_slots_init:
  assumes "InitView_slots s view sns slots = Inr slots'"
    and "\<And>sn slot. map_of slots sn = Some slot \<Longrightarrow>
           init_slot (seg_Membership (st_Segment s)) (get_slot s (View s) sn) view slot"
    and "map_of slots' sn = Some slot"
  shows "init_slot (seg_Membership (st_Segment s)) (get_slot s (View s) sn) view slot"
  using assms
proof (induction sns arbitrary: slots)
  case (Cons k sns)
  then obtain fresh where fresh: "InitView_slots s view sns (AList.update k fresh slots) = Inr slots'"
    "init_slot (seg_Membership (st_Segment s)) (get_slot s (View s) k) view fresh"
    by (auto simp: Let_def rbind_eq_Inr init_slot_def PopulateFromPrevious_def split: if_splits option.splits)
  show ?case
    by (rule Cons.IH [OF fresh(1) _ Cons.prems(3)]) (use fresh(2) Cons.prems(2) in \<open>auto split: if_splits\<close>)
qed auto

end
