(* ===== verification/PbftHandlers.thy ===== *)
theory PbftHandlers
  imports PbftState
begin

text \<open>
  The event handlers of a PBFT instance: catching up through the segment-level checkpoint
  (\<open>parts/catchup/catchup.go\<close>) and the good case (\<open>parts/goodcase/pbftgoodcase.go\<close>), each handler as a
  function on the instance state. The view change handlers are in theory PbftOrderer.

  A handler that logs and ignores its input returns the state unchanged. Handlers locate a slot
  by view and sequence number where the source keeps a pointer to it: a slot is referenced from
  the slot table only. The marshalling of a certificate (protobuf) is done before the
  corresponding event is handled and its result, bytes or an error, is part of the event.
\<close>

section \<open>Catching up\<close>

definition SendDoneMessages :: "PbftParams \<Rightarrow> PbftState \<Rightarrow> PbftState" where
  "SendDoneMessages p s =
     (let digests = IterateSorted (slots_of s (View s)) (\<lambda>sn slot ds. (True, ds @ [slot_Digest slot])) []
      in emit (TimerRepeat (cfg_DoneResendPeriod (Config p)) (cfg_EpochNr (Config p))
                 [SendMessage (MsgDone digests) (NodeIDs (st_Segment s))]) s)"

text \<open>When all slots are committed: mark the checkpoint as done and send Done messages.\<close>

definition finish_if_done :: "PbftParams \<Rightarrow> PbftState \<Rightarrow> PbftState" where
  "finish_if_done p s =
     (if AllCommitted s then SendDoneMessages p (s\<lparr>SegmentCheckpoint := SetDone (SegmentCheckpoint s)\<rparr>) else s)"

definition catchUpRequests :: "PbftState \<Rightarrow> NodeID list \<Rightarrow> (SeqNr, gobytes) gomap \<Rightarrow> PbftOut list res" where
  "catchUpRequests s nodes digests =
     IterateSorted digests (\<lambda>sn digest r.
       case r of
         Inl e \<Rightarrow> (False, Inl e)
       | Inr reqs \<Rightarrow>
           (case get_slot s (View s) sn of
              None \<Rightarrow> (False, Inl (Panic ''nil pointer dereference''))
            | Some slot \<Rightarrow>
                (True, Inr (if \<not> Committed slot then reqs @ [SendMessage (MsgCatchUpRequest digest sn) nodes]
                            else reqs)))) (Inr [])"

definition applyMsgDone :: "PbftParams \<Rightarrow> gobytes list \<Rightarrow> NodeID \<Rightarrow> PbftState \<Rightarrow> PbftState res" where
  "applyMsgDone p doneDigests from s =
     rbind (NodeDone (SegmentCheckpoint s) from doneDigests (st_Segment s)) (\<lambda>chkp.
       let s = s\<lparr>SegmentCheckpoint := chkp\<rparr>
       in (case doneNodes chkp of
             None \<Rightarrow> Inr s
           | Some nodes \<Rightarrow>
               if CatchingUp chkp then Inr s
               else let s = s\<lparr>SegmentCheckpoint := chkp\<lparr>CatchingUp := True\<rparr>\<rparr>
                    in rbind (catchUpRequests s nodes (case chkp_digests chkp of None \<Rightarrow> [] | Some ds \<Rightarrow> ds)) (\<lambda>reqs.
                         Inr (emit (TimerDelay (cfg_CatchUpDelay (Config p))
                           (TimerRepeat (cfg_CatchUpDelay (Config p)) (cfg_EpochNr (Config p)) reqs)) s))))"

definition applyMsgCatchUpRequest :: "gobytes \<Rightarrow> SeqNr \<Rightarrow> NodeID \<Rightarrow> PbftState \<Rightarrow> PbftState" where
  "applyMsgCatchUpRequest digest sn from s =
     (case LookUpPreprepare s sn digest of
        None \<Rightarrow> s
      | Some pp \<Rightarrow> emit (SendMessage (MsgCatchUpResponse (Some pp)) [from]) s)"

definition applyMsgCatchUpResponse :: "Preprepare option \<Rightarrow> PbftState \<Rightarrow> PbftState" where
  "applyMsgCatchUpResponse resp s =
     (case resp of
        None \<Rightarrow> s
      | Some pp \<Rightarrow>
          (case get_slot s (View s) (pp_Sn pp) of
             None \<Rightarrow> s
           | Some slot \<Rightarrow>
               if Committed slot then s
               else emit (HashRequestOne (SerializePreprepareForHashing pp) (CtxCatchUpResponse pp)) s))"

text \<open>The hash of a \<open>CatchUpResponse\<close> has been computed. \<open>digests[sn]\<close> of an absent key is nil.\<close>

definition UponCatchUpHash :: "PbftParams \<Rightarrow> gobytes \<Rightarrow> Preprepare \<Rightarrow> PbftState \<Rightarrow> PbftState res" where
  "UponCatchUpHash p digest pp s =
     (case get_slot s (View s) (pp_Sn pp) of
        None \<Rightarrow> Inl (Panic ''nil pointer dereference'')
      | Some slot \<Rightarrow>
          if Committed slot then Inr s
          else (case chkp_digests (SegmentCheckpoint s) of
                  None \<Rightarrow> Inr s
                | Some digests \<Rightarrow>
                    if \<not> bytes_Equal (case map_of digests (pp_Sn pp) of None \<Rightarrow> None | Some d \<Rightarrow> d) digest then Inr s
                    else
                      let pp' = pp\<lparr>pp_View := View s\<rparr>;
                          s = finish_if_done p (put_slot (View s) (pp_Sn pp) (slot_CatchUp slot pp' digest) s)
                      in Inr (emit (SBDeliver (pp_Sn pp) (pp_Data pp') (pp_Aborted pp')
                                (seg_Leader (st_Segment s)) (Self p)) s)))"

section \<open>Good case\<close>

definition canPropose :: "PbftParams \<Rightarrow> PbftState \<Rightarrow> bool" where
  "canPropose p s \<longleftrightarrow>
     OwnID p = seg_Leader (st_Segment s) \<and> View s = 0 \<and> \<not> CertRequested (Proposal s) \<and>
     ProposalsMade (Proposal s) < int (Segment_Len (st_Segment s)) \<and>
     ProposalTimeoutNr (Proposal s) > ProposalsMade (Proposal s) \<and> \<not> InViewChange s"

definition requestNewCert :: "PbftState \<Rightarrow> PbftState" where
  "requestNewCert s =
     emit RequestCert (s\<lparr>Proposal := (Proposal s)\<lparr>CertRequested := True, CertRequestedView := View s\<rparr>\<rparr>)"

text \<open>\<open>SeqNrs()[i]\<close> panics when the index is out of range.\<close>

definition seqNr_at :: "Segment \<Rightarrow> int \<Rightarrow> SeqNr res" where
  "seqNr_at seg i = (if 0 \<le> i \<and> i < int (length (SeqNrs seg)) then Inr (SeqNrs seg ! nat i)
                     else Inl (Panic ''index out of range''))"

definition propose :: "PbftParams \<Rightarrow> gobytes \<Rightarrow> PbftState \<Rightarrow> PbftState res" where
  "propose p data s =
     rbind (seqNr_at (st_Segment s) (ProposalsMade (Proposal s))) (\<lambda>sn.
       let s = s\<lparr>Proposal := (Proposal s)\<lparr>ProposalsMade := ProposalsMade (Proposal s) + 1\<rparr>\<rparr>;
           s = emit (SendMessage (MsgPreprepare \<lparr>pp_Sn = sn, pp_View = View s, pp_Data = data, pp_Aborted = False\<rparr>)
                       (NodeIDs (st_Segment s))) s
       in Inr (emit (TimerDelay (cfg_MaxProposeDelay (Config p))
                 (ProposeTimeout (word_of_int (ProposalsMade (Proposal s) + 1)))) s))"

definition applyProposeTimeout :: "PbftParams \<Rightarrow> int \<Rightarrow> PbftState \<Rightarrow> PbftState res" where
  "applyProposeTimeout p numProposals s =
     (if numProposals > ProposalTimeoutNr (Proposal s)
      then let s = s\<lparr>Proposal := (Proposal s)\<lparr>ProposalTimeoutNr := numProposals\<rparr>\<rparr>
           in if canPropose p s
              then rbind (seqNr_at (st_Segment s) (ProposalsMade (Proposal s))) (\<lambda>sn.
                     case map_of (seg_Proposals (st_Segment s)) sn of
                       Some (Some proposal) \<Rightarrow> propose p (Some proposal) s
                     | _ \<Rightarrow> Inr (requestNewCert s))
              else Inr s
      else Inr s)"

definition UponInit :: "PbftParams \<Rightarrow> PbftState \<Rightarrow> PbftState res" where
  "UponInit p s =
     rbind (InitView p 0 s) (\<lambda>s.
       Inr (emit (TimerDelay (cfg_MaxProposeDelay (Config p)) (ProposeTimeout 1)) s))"

definition UponNewCert :: "PbftParams \<Rightarrow> gobytes res \<Rightarrow> PbftState \<Rightarrow> PbftState res" where
  "UponNewCert p marshalled s =
     (let s = s\<lparr>Proposal := (Proposal s)\<lparr>CertRequested := False\<rparr>\<rparr>
      in if CertRequestedView (Proposal s) = View s
         then rbind marshalled (\<lambda>certBytes. propose p certBytes s)
         else Inr s)"

text \<open>
  \<open>preprocessMessage\<close> buffers a message that is not yet applicable, and tells whether the slot of
  the current view is to be updated. The nil buffer of an unknown sender panics.
\<close>

definition preprocessMessage ::
  "PbftParams \<Rightarrow> SeqNr \<Rightarrow> ViewNr \<Rightarrow> PbftMessage \<Rightarrow> NodeID \<Rightarrow> PbftState \<Rightarrow> (PbftState \<times> PbftSlot option) res" where
  "preprocessMessage p sn view msg from s =
     (if view < View s then Inr (s, None)
      else if view > View s \<or> InViewChange s
      then (case map_of (MessageBuffers s) from of
              None \<Rightarrow> Inl (Panic ''nil pointer dereference'')
            | Some mb \<Rightarrow> rbind (MessageBuffer_Store (proto_Size p) mb msg) (\<lambda>(mb, _).
                Inr (s\<lparr>MessageBuffers := AList.update from mb (MessageBuffers s)\<rparr>, None)))
      else (case get_slot s (View s) sn of
              None \<Rightarrow> Inr (s, None)
            | Some slot \<Rightarrow> if Committed slot then Inr (s, None) else Inr (s, Some slot)))"

text \<open>The two halves of \<open>advanceSlotState\<close>: becoming prepared, becoming committed.\<close>

definition advance_prepared :: "SeqNr \<Rightarrow> PbftState \<Rightarrow> PbftState res" where
  "advance_prepared sn s =
     (case get_slot s (View s) sn of
        None \<Rightarrow> Inl (Panic ''nil pointer dereference'')
      | Some slot \<Rightarrow>
          if Prepared slot then Inr s
          else rbind (CheckPrepared slot) (\<lambda>(slot, prepared).
            if prepared
            then Inr (emit (SendMessage (MsgCommit sn (View s) (slot_Digest slot)) (NodeIDs (st_Segment s)))
                       (put_slot (View s) sn (slot\<lparr>Prepared := True\<rparr>) s))
            else Inr (put_slot (View s) sn slot s)))"

definition reset_sn_timeout :: "PbftParams \<Rightarrow> bool \<Rightarrow> PbftState \<Rightarrow> PbftState" where
  "reset_sn_timeout p isStable s =
     (if \<not> isStable
      then emit (TimerDelay (cfg_ViewChangeSNTimeout (Config p))
             (ViewChangeSNTimeout (View s) (of_nat (NumCommitted s (View s))))) s
      else s)"

definition advance_committed :: "PbftParams \<Rightarrow> SeqNr \<Rightarrow> PbftState \<Rightarrow> PbftState res" where
  "advance_committed p sn s =
     (case get_slot s (View s) sn of
        None \<Rightarrow> Inl (Panic ''nil pointer dereference'')
      | Some slot \<Rightarrow>
          if Committed slot then Inr s
          else rbind (CheckCommitted slot) (\<lambda>(slot, committed).
            if \<not> committed then Inr (put_slot (View s) sn slot s)
            else
              let s = put_slot (View s) sn (slot\<lparr>Committed := True\<rparr>) s
              in rbind (chkp_Stable (SegmentCheckpoint s) (seg_Membership (st_Segment s))) (\<lambda>stable.
                let s = finish_if_done p (reset_sn_timeout p stable s)
                in (case slot_Preprepare slot of
                      None \<Rightarrow> Inl (Panic ''nil pointer dereference'')
                    | Some pp \<Rightarrow> Inr (emit (SBDeliver sn (pp_Data pp) (pp_Aborted pp)
                                        (seg_Leader (st_Segment s)) (Self p)) s)))))"

definition advanceSlotState :: "PbftParams \<Rightarrow> SeqNr \<Rightarrow> PbftState \<Rightarrow> PbftState res" where
  "advanceSlotState p sn s = rbind (advance_prepared sn s) (advance_committed p sn)"

definition ApplyMsgPreprepare :: "Preprepare \<Rightarrow> NodeID \<Rightarrow> PbftState \<Rightarrow> PbftState" where
  "ApplyMsgPreprepare pp from s = emit (ValidatePreprepare pp from) s"

text \<open>\<open>valid\<close> says that the validator returned no error.\<close>

definition ApplyMsgPreprepareValidated ::
  "PbftParams \<Rightarrow> Preprepare \<Rightarrow> NodeID \<Rightarrow> bool \<Rightarrow> PbftState \<Rightarrow> PbftState res" where
  "ApplyMsgPreprepareValidated p pp from valid s =
     (if \<not> valid then Inr s
      else rbind (preprocessMessage p (pp_Sn pp) (pp_View pp) (MsgPreprepare pp) from s) (\<lambda>(s, mslot).
        case mslot of
          None \<Rightarrow> Inr s
        | Some slot \<Rightarrow>
            if slot_Preprepare slot \<noteq> None then Inr s
            else rbind (PrimaryNode (st_Segment s) (View s)) (\<lambda>primary.
              if from \<noteq> primary then Inr s
              else Inr (emit (HashRequestOne (SerializePreprepareForHashing pp) (CtxPreprepare pp))
                         (put_slot (View s) (pp_Sn pp) (slot\<lparr>slot_Preprepare := Some pp\<rparr>) s)))))"

definition UponPreprepareHash :: "PbftParams \<Rightarrow> gobytes \<Rightarrow> Preprepare \<Rightarrow> PbftState \<Rightarrow> PbftState res" where
  "UponPreprepareHash p digest pp s =
     (if pp_View pp < View s then Inr s
      else (case get_slot s (View s) (pp_Sn pp) of
              None \<Rightarrow> Inl (Panic ''nil pointer dereference'')
            | Some slot \<Rightarrow>
                let s = put_slot (View s) (pp_Sn pp) (slot\<lparr>slot_Digest := digest, Preprepared := True\<rparr>) s;
                    s = emit (SendMessage (MsgPrepare (pp_Sn pp) (View s) digest) (NodeIDs (st_Segment s))) s
                in advanceSlotState p (pp_Sn pp) s))"

definition applyMsgPrepare :: "PbftParams \<Rightarrow> SeqNr \<Rightarrow> ViewNr \<Rightarrow> gobytes \<Rightarrow> NodeID \<Rightarrow> PbftState \<Rightarrow> PbftState res" where
  "applyMsgPrepare p sn view digest from s =
     (if digest = None then Inr s
      else rbind (preprocessMessage p sn view (MsgPrepare sn view digest) from s) (\<lambda>(s, mslot).
        case mslot of
          None \<Rightarrow> Inr s
        | Some slot \<Rightarrow>
            if mhas (PrepareDigests slot) from then Inr s
            else advanceSlotState p sn (put_slot (View s) sn
                   (slot\<lparr>PrepareDigests := AList.update from digest (PrepareDigests slot)\<rparr>) s)))"

definition applyMsgCommit :: "PbftParams \<Rightarrow> SeqNr \<Rightarrow> ViewNr \<Rightarrow> gobytes \<Rightarrow> NodeID \<Rightarrow> PbftState \<Rightarrow> PbftState res" where
  "applyMsgCommit p sn view digest from s =
     (if digest = None then Inr s
      else rbind (preprocessMessage p sn view (MsgCommit sn view digest) from s) (\<lambda>(s, mslot).
        case mslot of
          None \<Rightarrow> Inr s
        | Some slot \<Rightarrow>
            if mhas (CommitDigests slot) from then Inr s
            else advanceSlotState p sn (put_slot (View s) sn
                   (slot\<lparr>CommitDigests := AList.update from digest (CommitDigests slot)\<rparr>) s)))"

definition ApplyBufferedMsg :: "PbftParams \<Rightarrow> PbftMessage \<Rightarrow> NodeID \<Rightarrow> PbftState \<Rightarrow> PbftState res" where
  "ApplyBufferedMsg p msg from s =
     (case msg of
        MsgPreprepare pp \<Rightarrow> Inr (ApplyMsgPreprepare pp from s)
      | MsgPrepare sn view digest \<Rightarrow> applyMsgPrepare p sn view digest from s
      | MsgCommit sn view digest \<Rightarrow> applyMsgCommit p sn view digest from s
      | _ \<Rightarrow> Inr s)"

end
