(* ===== verification/PbftOrderer.thy ===== *)
theory PbftOrderer
  imports PbftHandlers
begin

text \<open>
  The view change of a PBFT instance (\<open>parts/viewchange/pbftviewchange.go\<close>), the constructor of the
  orderer module (\<open>orderer.go\<close>), and the dispatch of its events to the handlers registered by the
  three parts.
\<close>

section \<open>View change: sending\<close>

text \<open>The inner loop of \<open>getPSetQSet\<close>, over the views before the current one.\<close>

function getPSetQSet_views ::
  "PbftState \<Rightarrow> SeqNr \<Rightarrow> ViewNr \<Rightarrow> ViewChangePSet \<Rightarrow> (bytes, ViewNr) gomap \<Rightarrow>
     (ViewChangePSet \<times> (bytes, ViewNr) gomap) res" where
  "getPSetQSet_views s sn view pSet qEntry =
     (if view < View s
      then (case map_of (Slots s) view of
              None \<Rightarrow> getPSetQSet_views s sn (view + 1) pSet qEntry
            | Some slots \<Rightarrow>
                (case map_of slots sn of
                   None \<Rightarrow> Inl (Panic ''nil pointer dereference'')
                 | Some slot \<Rightarrow>
                     getPSetQSet_views s sn (view + 1)
                       (if Prepared slot
                        then AList.update sn \<lparr>e_Sn = sn, e_View = view, e_Digest = slot_Digest slot\<rparr> pSet
                        else pSet)
                       (if Preprepared slot then AList.update (bval (slot_Digest slot)) view qEntry else qEntry)))
      else Inr (pSet, qEntry))"
  by pat_completeness auto
termination
proof (relation "measure (\<lambda>(s, sn, view, _, _). unat (View s) - unat view)", goal_cases)
  case (2 s sn view pSet qEntry)
  then show ?case using word_less_succ [of view "View s"] by auto
next
  case (3 s sn view pSet qEntry slots slot)
  then show ?case using word_less_succ [of view "View s"] by auto
qed simp

declare getPSetQSet_views.simps [simp del]

fun getPSetQSet_loop ::
  "PbftState \<Rightarrow> SeqNr list \<Rightarrow> ViewChangePSet \<Rightarrow> ViewChangeQSet \<Rightarrow> (ViewChangePSet \<times> ViewChangeQSet) res" where
  "getPSetQSet_loop s [] pSet qSet = Inr (pSet, qSet)"
| "getPSetQSet_loop s (sn # sns) pSet qSet =
     rbind (getPSetQSet_views s sn 0 pSet []) (\<lambda>(pSet, qEntry).
       getPSetQSet_loop s sns pSet (AList.update sn qEntry qSet))"

definition getPSetQSet :: "PbftState \<Rightarrow> (ViewChangePSet \<times> ViewChangeQSet) res" where
  "getPSetQSet s = getPSetQSet_loop s (SeqNrs (st_Segment s)) [] []"

text \<open>\<open>state.View+1\<close> wraps around at 64 bits.\<close>

definition startViewChange :: "PbftParams \<Rightarrow> PbftState \<Rightarrow> PbftState res" where
  "startViewChange p s =
     rbind (InitView p (View s + 1) (s\<lparr>InViewChange := True\<rparr>)) (\<lambda>s.
     rbind (getPSetQSet s) (\<lambda>(pSet, qSet).
       let viewChange = \<lparr>vc_View = View s, vc_PSet = PSet_PbType pSet, vc_QSet = QSet_PbType qSet\<rparr>
       in Inr (emit (SignRequest (SerializeViewChangeForSigning viewChange) viewChange) s)))"

definition applyViewChangeSNTimeout :: "PbftParams \<Rightarrow> ViewNr \<Rightarrow> uint64 \<Rightarrow> PbftState \<Rightarrow> PbftState res" where
  "applyViewChangeSNTimeout p view numCommitted s =
     (if view = View s \<and> sint numCommitted = int (NumCommitted s (View s))
      then rbind (chkp_Stable (SegmentCheckpoint s) (seg_Membership (st_Segment s))) (\<lambda>stable.
             if \<not> stable then startViewChange p s else Inr s)
      else Inr s)"

definition applyViewChangeSegmentTimeout :: "PbftParams \<Rightarrow> ViewNr \<Rightarrow> PbftState \<Rightarrow> PbftState res" where
  "applyViewChangeSegmentTimeout p view s =
     (if view = View s
      then rbind (chkp_Stable (SegmentCheckpoint s) (seg_Membership (st_Segment s))) (\<lambda>stable.
             if \<not> stable then startViewChange p s else Inr s)
      else Inr s)"

definition UponSignResult :: "PbftParams \<Rightarrow> gobytes \<Rightarrow> ViewChange \<Rightarrow> PbftState \<Rightarrow> PbftState res" where
  "UponSignResult p signature vc s =
     rbind (PrimaryNode (st_Segment s) (vc_View vc)) (\<lambda>primary.
       Inr (emit (TimerRepeat (cfg_ViewChangeResendPeriod (Config p)) (cfg_EpochNr (Config p))
              [SendMessage (MsgSignedViewChange \<lparr>svc_ViewChange = Some vc, svc_Signature = signature\<rparr>) [primary]]) s))"

section \<open>View change: the new primary\<close>

definition syntacticCheckSignedViewChange :: "SignedViewChange \<Rightarrow> ViewChange res" where
  "syntacticCheckSignedViewChange svc =
     (if svc_Signature svc = None then Inl (Error ''nil signature in signed view change'')
      else (case svc_ViewChange svc of
              None \<Rightarrow> Inl (Error ''nil view change in signed view change'')
            | Some vc \<Rightarrow> Inr vc))"

definition applyMsgSignedViewChange :: "SignedViewChange \<Rightarrow> NodeID \<Rightarrow> PbftState \<Rightarrow> PbftState" where
  "applyMsgSignedViewChange svc from s =
     (case syntacticCheckSignedViewChange svc of
        Inl _ \<Rightarrow> s
      | Inr vc \<Rightarrow> emit (VerifySig (SerializeViewChangeForSigning vc) (svc_Signature svc) from svc) s)"

definition getViewChangeState :: "ViewNr \<Rightarrow> PbftState \<Rightarrow> PbftState \<times> PbftViewChangeState" where
  "getViewChangeState view s =
     (case map_of (ViewChangeStates s) view of
        Some vcs \<Rightarrow> (s, vcs)
      | None \<Rightarrow>
          let vcs = NewPbftViewChangeState (SeqNrs (st_Segment s)) (seg_Membership (st_Segment s))
          in (s\<lparr>ViewChangeStates := AList.update view vcs (ViewChangeStates s)\<rparr>, vcs))"

definition put_vcstate :: "ViewNr \<Rightarrow> PbftViewChangeState \<Rightarrow> PbftState \<Rightarrow> PbftState" where
  "put_vcstate view vcs s = s\<lparr>ViewChangeStates := AList.update view vcs (ViewChangeStates s)\<rparr>"

definition applyVerifiedViewChange :: "PbftParams \<Rightarrow> SignedViewChange \<Rightarrow> NodeID \<Rightarrow> PbftState \<Rightarrow> PbftState res" where
  "applyVerifiedViewChange p svc from s =
     (case svc_ViewChange svc of
        None \<Rightarrow> Inl (Panic ''nil pointer dereference'')
      | Some vc \<Rightarrow>
          if vc_View vc < View s then Inr s
          else rbind (PrimaryNode (st_Segment s) (vc_View vc)) (\<lambda>primary.
            if OwnID p \<noteq> primary then Inr s
            else
              let (s, vcs) = getViewChangeState (vc_View vc) s
              in if EnoughViewChanges vcs then Inr s
                 else rbind (AddSignedViewChange vcs svc from) (\<lambda>vcs.
                   if EnoughViewChanges vcs
                   then let (vcs, dataToHash) = SetEmptyPreprepares vcs (vc_View vc) (seg_Proposals (st_Segment s))
                        in Inr (emit (HashRequest dataToHash (CtxEmptyPreprepares (vc_View vc)))
                                  (put_vcstate (vc_View vc) vcs s))
                   else Inr (put_vcstate (vc_View vc) vcs s))))"

text \<open>A nil entry of \<open>Preprepares\<close> cannot occur in \<open>sendNewView\<close>: it is called when all are set.\<close>

definition sendNewView :: "ViewNr \<Rightarrow> PbftViewChangeState \<Rightarrow> PbftState \<Rightarrow> PbftState" where
  "sendNewView view vcs s =
     (let (senders, svcs) = IterateSorted (SignedViewChanges vcs)
            (\<lambda>sender svc (senders, svcs). (True, (senders @ [sender], svcs @ [svc]))) ([], []);
          (sns, pps) = IterateSorted (Preprepares vcs)
            (\<lambda>sn pp (sns, pps). (True, (sns @ [sn], pps @ [pp]))) ([], [])
      in emit (SendMessage (MsgNewView \<lparr>nv_View = view, nv_ViewChangeSenders = senders,
                 nv_SignedViewChanges = svcs, nv_PreprepareSeqNrs = sns,
                 nv_Preprepares = List.map_filter id pps\<rparr>) (NodeIDs (st_Segment s))) s)"

fun askForMissingPreprepares_loop :: "PbftViewChangeState \<Rightarrow> (SeqNr, gobytes) gomap \<Rightarrow> PbftState \<Rightarrow> PbftState" where
  "askForMissingPreprepares_loop vcs [] s = s"
| "askForMissingPreprepares_loop vcs ((sn, digest) # rs) s =
     askForMissingPreprepares_loop vcs rs
       (if bval digest \<noteq> [] \<and> (map_of (Preprepares vcs) sn = None \<or> map_of (Preprepares vcs) sn = Some None)
        then emit (SendMessage (MsgPreprepareRequest digest sn)
               (case map_of (PrepreparedIDs vcs) sn of None \<Rightarrow> [] | Some ids \<Rightarrow> ids)) s
        else s)"

definition askForMissingPreprepares :: "PbftViewChangeState \<Rightarrow> PbftState \<Rightarrow> PbftState" where
  "askForMissingPreprepares vcs s = askForMissingPreprepares_loop vcs (Reproposals vcs) s"

definition UponEmptyPreprepareHashes :: "gobytes list \<Rightarrow> ViewNr \<Rightarrow> PbftState \<Rightarrow> PbftState res" where
  "UponEmptyPreprepareHashes digests view s =
     (if view < View s then Inr s
      else (case map_of (ViewChangeStates s) view of
              None \<Rightarrow> Inl (Panic ''nil pointer dereference'')
            | Some vcs \<Rightarrow>
                rbind (SetEmptyPreprepareDigests vcs digests) (\<lambda>vcs.
                  let vcs = SetLocalPreprepares s view vcs;
                      s = put_vcstate view vcs s
                  in if HasAllPreprepares vcs then Inr (sendNewView view vcs s)
                     else Inr (askForMissingPreprepares vcs s))))"

text \<open>
  \<open>latestPendingVCState\<close>: the condition \<open>state == nil\<close> in the source compares the PBFT state, which is
  never nil, so that only views above 0 can be selected.
\<close>

fun latestPendingVCState_loop ::
  "(ViewNr, PbftViewChangeState) gomap \<Rightarrow> PbftViewChangeState option \<Rightarrow> ViewNr \<Rightarrow>
     PbftViewChangeState option \<times> ViewNr" where
  "latestPendingVCState_loop [] vcstate view = (vcstate, view)"
| "latestPendingVCState_loop ((v, vcs) # rest) vcstate view =
     (if EnoughViewChanges vcs \<and> v > view then latestPendingVCState_loop rest (Some vcs) v
      else latestPendingVCState_loop rest vcstate view)"

definition latestPendingVCState :: "PbftState \<Rightarrow> PbftViewChangeState option \<times> ViewNr" where
  "latestPendingVCState s = latestPendingVCState_loop (ViewChangeStates s) None 0"

definition applyMsgPreprepareRequest :: "gobytes \<Rightarrow> SeqNr \<Rightarrow> NodeID \<Rightarrow> PbftState \<Rightarrow> PbftState" where
  "applyMsgPreprepareRequest digest sn from s =
     (case LookUpPreprepare s sn digest of
        None \<Rightarrow> s
      | Some pp \<Rightarrow> emit (SendMessage (MsgMissingPreprepare (Some pp)) [from]) s)"

definition has_preprepare :: "PbftViewChangeState \<Rightarrow> SeqNr \<Rightarrow> bool" where
  "has_preprepare vcs sn = (case map_of (Preprepares vcs) sn of Some (Some _) \<Rightarrow> True | _ \<Rightarrow> False)"

definition applyMsgMissingPreprepare :: "Preprepare option \<Rightarrow> PbftState \<Rightarrow> PbftState res" where
  "applyMsgMissingPreprepare preprepare s =
     (case latestPendingVCState s of
        (None, view) \<Rightarrow> Inl (Panic ''nil pointer dereference'')
      | (Some vcs, view) \<Rightarrow>
          (case preprepare of
             None \<Rightarrow> Inl (Panic ''nil pointer dereference'')
           | Some pp \<Rightarrow>
               if has_preprepare vcs (pp_Sn pp) \<or> view < View s then Inr s
               else Inr (emit (HashRequestOne (SerializePreprepareForHashing pp) (CtxMissingPreprepare pp)) s)))"

definition UponMissingPreprepareHash :: "gobytes \<Rightarrow> Preprepare \<Rightarrow> PbftState \<Rightarrow> PbftState res" where
  "UponMissingPreprepareHash digest pp s =
     (case latestPendingVCState s of
        (None, view) \<Rightarrow> Inl (Panic ''nil pointer dereference'')
      | (Some vcs, view) \<Rightarrow>
          if has_preprepare vcs (pp_Sn pp) \<or> view < View s then Inr s
          else
            let vcs = (if bytes_Equal (case map_of (Reproposals vcs) (pp_Sn pp) of None \<Rightarrow> None | Some d \<Rightarrow> d) digest
                       then vcs\<lparr>Preprepares := AList.update (pp_Sn pp) (Some (pp\<lparr>pp_View := view\<rparr>)) (Preprepares vcs)\<rparr>
                       else vcs);
                s = put_vcstate view vcs s
            in if HasAllPreprepares vcs then Inr (sendNewView view vcs s) else Inr s)"

section \<open>View change: entering the new view\<close>

fun svc_data :: "SignedViewChange list \<Rightarrow> (bytes list list \<times> gobytes list) res" where
  "svc_data [] = Inr ([], [])"
| "svc_data (svc # svcs) =
     (case svc_ViewChange svc of
        None \<Rightarrow> Inl (Panic ''nil pointer dereference'')
      | Some vc \<Rightarrow> rbind (svc_data svcs) (\<lambda>(ds, sigs).
          Inr (SerializeViewChangeForSigning vc # ds, svc_Signature svc # sigs)))"

definition applyMsgNewView :: "NewView \<Rightarrow> NodeID \<Rightarrow> PbftState \<Rightarrow> PbftState res" where
  "applyMsgNewView nv from s =
     rbind (PrimaryNode (st_Segment s) (nv_View nv)) (\<lambda>primary.
       if from \<noteq> primary then Inr s
       else if length (nv_ViewChangeSenders nv) \<noteq> length (nv_SignedViewChanges nv) then Inr s
       else rbind (svc_data (nv_SignedViewChanges nv)) (\<lambda>(viewChangeData, signatures).
         Inr (emit (VerifySigs viewChangeData signatures (nv_ViewChangeSenders nv) nv) s)))"

definition UponSigsVerified :: "PbftParams \<Rightarrow> NodeID list \<Rightarrow> bool \<Rightarrow> NewView \<Rightarrow> PbftState \<Rightarrow> PbftState" where
  "UponSigsVerified p nodeIds allOk nv s =
     (if \<not> allOk then s
      else if \<not> ContainsAll (cfg_Membership (Config p)) nodeIds then s
      else emit (HashRequest (map SerializePreprepareForHashing (nv_Preprepares nv)) (CtxNewView nv)) s)"

definition validFreshPreprepare :: "Preprepare \<Rightarrow> ViewNr \<Rightarrow> SeqNr \<Rightarrow> bool" where
  "validFreshPreprepare pp view sn \<longleftrightarrow> pp_Aborted pp \<and> pp_Sn pp = sn \<and> pp_View pp = view"

text \<open>Feeding the view changes of a NewView message; \<open>ViewChangeSenders[i]\<close> may be out of range.\<close>

fun add_view_changes :: "SignedViewChange list \<Rightarrow> NodeID list \<Rightarrow> PbftViewChangeState \<Rightarrow> PbftViewChangeState res" where
  "add_view_changes [] senders vcs = Inr vcs"
| "add_view_changes (svc # svcs) [] vcs = Inl (Panic ''index out of range'')"
| "add_view_changes (svc # svcs) (from # senders) vcs =
     rbind (AddSignedViewChange vcs svc from) (add_view_changes svcs senders)"

text \<open>
  Comparing the re-proposals with the obtained preprepares: the closure state is the index
  and the flag \<open>prepreparesMatching\<close>; both index accesses may be out of range.
\<close>

definition prepreparesMatching :: "PbftViewChangeState \<Rightarrow> NewView \<Rightarrow> gobytes list \<Rightarrow> bool res" where
  "prepreparesMatching vcs nv digests =
     rbind (IterateSorted (Reproposals vcs) (\<lambda>sn digest r.
       case r of
         Inl e \<Rightarrow> (False, Inl e)
       | Inr (i, _) \<Rightarrow>
           if bval digest = []
           then if i < length (nv_Preprepares nv)
                then let b = validFreshPreprepare (nv_Preprepares nv ! i) (nv_View nv) sn in (b, Inr (Suc i, b))
                else (False, Inl (Panic ''index out of range''))
           else if i < length digests
                then let b = bytes_Equal digest (digests ! i) in (b, Inr (Suc i, b))
                else (False, Inl (Panic ''index out of range''))) (Inr (0, True))) (\<lambda>(_, b). Inr b)"

definition getMsgView :: "PbftMessage \<Rightarrow> ViewNr res" where
  "getMsgView msg =
     (case msg of
        MsgPreprepare pp \<Rightarrow> Inr (pp_View pp)
      | MsgPrepare sn view digest \<Rightarrow> Inr view
      | MsgCommit sn view digest \<Rightarrow> Inr view
      | _ \<Rightarrow> Inl (Error ''invalid PBFT message for view extraction''))"

definition buffer_filter :: "PbftState \<Rightarrow> PbftMessage \<Rightarrow> Applicable" where
  "buffer_filter s msg =
     (case getMsgView msg of
        Inl _ \<Rightarrow> Invalid
      | Inr msgView \<Rightarrow> if msgView < View s then Past else if msgView = View s then Current else Future)"

fun apply_buffered :: "PbftParams \<Rightarrow> NodeID list \<Rightarrow> PbftState \<Rightarrow> PbftState res" where
  "apply_buffered p [] s = Inr s"
| "apply_buffered p (from # froms) s =
     (case map_of (MessageBuffers s) from of
        None \<Rightarrow> apply_buffered p froms s
      | Some mb \<Rightarrow>
          rbind (MessageBuffer_Iterate (proto_Size p) buffer_filter (\<lambda>s msg. ApplyBufferedMsg p msg from s) mb s) (\<lambda>(mb, s).
            apply_buffered p froms (s\<lparr>MessageBuffers := AList.update from mb (MessageBuffers s)\<rparr>)))"

definition UponNewViewHashes :: "PbftParams \<Rightarrow> gobytes list \<Rightarrow> NewView \<Rightarrow> PbftState \<Rightarrow> PbftState res" where
  "UponNewViewHashes p digests nv s =
     (if nv_View nv < View s then Inr s
      else
        let vcs = NewPbftViewChangeState (SeqNrs (st_Segment s)) (seg_Membership (st_Segment s))
        in rbind (add_view_changes (nv_SignedViewChanges nv) (nv_ViewChangeSenders nv) vcs) (\<lambda>vcs.
             if \<not> EnoughViewChanges vcs then Inr s
             else rbind (prepreparesMatching vcs nv digests) (\<lambda>matching.
               if \<not> matching then Inr s
               else rbind (InitView p (nv_View nv) s) (\<lambda>s.
                 let s = s\<lparr>InViewChange := False\<rparr>
                 in rbind (PrimaryNode (st_Segment s) (nv_View nv)) (\<lambda>primary.
                   let s = fold (\<lambda>pp s. ApplyMsgPreprepare pp primary s) (nv_Preprepares nv) s
                   in apply_buffered p (map fst (MessageBuffers s)) s)))))"

section \<open>The orderer module\<close>

definition removeNodeID :: "NodeID list \<Rightarrow> NodeID \<Rightarrow> NodeID list" where
  "removeNodeID membership nID = filter (\<lambda>nodeID. nodeID \<noteq> nID) membership"

definition NewOrdererModule :: "Segment \<Rightarrow> PbftParams \<Rightarrow> PbftState" where
  "NewOrdererModule segment p =
     \<lparr>st_Segment = segment,
      MessageBuffers = NewBuffers (removeNodeID (cfg_Membership (Config p)) (OwnID p)) (cfg_MsgBufCapacity (Config p)),
      Proposal = \<lparr>ProposalsMade = 0, CertRequested = False, CertRequestedView = 0, ProposalTimeoutNr = 0\<rparr>,
      Slots = [], SegmentCheckpoint = NewPbftSegmentChkp, View = 0, InViewChange = False,
      ViewChangeStates = [], outputEvents = []\<rparr>"

text \<open>
  The events the module handles. Verification results carry the flag of the returned error
  being nil.
\<close>

datatype PbftInput =
    InInit
  | InNewCert "gobytes res"
  | InHashOne gobytes HashOneContext
  | InHash "gobytes list" HashContext
  | InProposeTimeout uint64
  | InPreprepareValidated bool Preprepare NodeID
  | InSignResult gobytes ViewChange
  | InSigVerified NodeID bool SignedViewChange
  | InSigsVerified "NodeID list" bool NewView
  | InViewChangeSegTimeout uint64
  | InViewChangeSNTimeout ViewNr uint64
  | InMessage NodeID PbftMessage

text \<open>Every message handler first checks that the sender is a member.\<close>

definition upon_message :: "PbftParams \<Rightarrow> NodeID \<Rightarrow> PbftMessage \<Rightarrow> PbftState \<Rightarrow> PbftState res" where
  "upon_message p from msg s =
     (if \<not> Contains (cfg_Membership (Config p)) from then Inr s
      else (case msg of
        MsgPreprepare pp \<Rightarrow> Inr (ApplyMsgPreprepare pp from s)
      | MsgPrepare sn view digest \<Rightarrow> applyMsgPrepare p sn view digest from s
      | MsgCommit sn view digest \<Rightarrow> applyMsgCommit p sn view digest from s
      | MsgDone digests \<Rightarrow> applyMsgDone p digests from s
      | MsgCatchUpRequest digest sn \<Rightarrow>
          (if digest = None then Inr s else Inr (applyMsgCatchUpRequest digest sn from s))
      | MsgCatchUpResponse resp \<Rightarrow> Inr (applyMsgCatchUpResponse resp s)
      | MsgSignedViewChange svc \<Rightarrow> Inr (applyMsgSignedViewChange svc from s)
      | MsgPreprepareRequest digest sn \<Rightarrow> Inr (applyMsgPreprepareRequest digest sn from s)
      | MsgMissingPreprepare pp \<Rightarrow> applyMsgMissingPreprepare pp s
      | MsgNewView nv \<Rightarrow> applyMsgNewView nv from s))"

fun ApplyEvent :: "PbftParams \<Rightarrow> PbftInput \<Rightarrow> PbftState \<Rightarrow> PbftState res" where
  "ApplyEvent p InInit s = UponInit p s"
| "ApplyEvent p (InNewCert cert) s = UponNewCert p cert s"
| "ApplyEvent p (InHashOne digest (CtxPreprepare pp)) s = UponPreprepareHash p digest pp s"
| "ApplyEvent p (InHashOne digest (CtxCatchUpResponse pp)) s = UponCatchUpHash p digest pp s"
| "ApplyEvent p (InHashOne digest (CtxMissingPreprepare pp)) s = UponMissingPreprepareHash digest pp s"
| "ApplyEvent p (InHash digests (CtxEmptyPreprepares view)) s = UponEmptyPreprepareHashes digests view s"
| "ApplyEvent p (InHash digests (CtxNewView nv)) s = UponNewViewHashes p digests nv s"
| "ApplyEvent p (InProposeTimeout n) s = applyProposeTimeout p (sint n) s"
| "ApplyEvent p (InPreprepareValidated valid pp from) s = ApplyMsgPreprepareValidated p pp from valid s"
| "ApplyEvent p (InSignResult sig vc) s = UponSignResult p sig vc s"
| "ApplyEvent p (InSigVerified nodeID valid svc) s =
     (if \<not> valid then Inr s
      else if \<not> Contains (cfg_Membership (Config p)) nodeID then Inr s
      else applyVerifiedViewChange p svc nodeID s)"
| "ApplyEvent p (InSigsVerified nodeIds allOk nv) s = Inr (UponSigsVerified p nodeIds allOk nv s)"
| "ApplyEvent p (InViewChangeSegTimeout v) s = applyViewChangeSegmentTimeout p v s"
| "ApplyEvent p (InViewChangeSNTimeout v n) s = applyViewChangeSNTimeout p v n s"
| "ApplyEvent p (InMessage from msg) s = upon_message p from msg s"

end
