(* ===== verification/PbftSafety.thy ===== *)
theory PbftSafety
  imports PbftOrderer
begin

text \<open>
  Safety of the PBFT orderer within a view. The output queue of an instance, never cleared, is the
  history of what the node requested and sent. An invariant of a single instance (relative to a
  predicate \<open>auth n m\<close>: a message \<open>m\<close> attributed to node \<open>n\<close> is authentic) says that every vote of the
  node is backed by the evidence the protocol demands. The system of all correct nodes, with
  authenticated channels and arbitrary messages from faulty nodes, is a step relation; by rule
  induction all its instances satisfy the invariant, and quorum intersection gives agreement.
\<close>

section \<open>History\<close>

fun out_msgs :: "PbftOut \<Rightarrow> PbftMessage list" where
  "out_msgs (SendMessage m dests) = [m]"
| "out_msgs (TimerDelay d e) = out_msgs e"
| "out_msgs (TimerRepeat d r es) = concat (map out_msgs es)"
| "out_msgs _ = []"

definition sent_in :: "PbftOut list \<Rightarrow> PbftMessage \<Rightarrow> bool" where
  "sent_in outs m \<longleftrightarrow> (\<exists>e \<in> set outs. m \<in> set (out_msgs e))"

definition sent :: "PbftState \<Rightarrow> PbftMessage \<Rightarrow> bool" where
  "sent s m = sent_in (outputEvents s) m"

text \<open>The preprepare the node accepted (submitted for hashing) in a view for a sequence number.\<close>

definition accepted :: "PbftOut list \<Rightarrow> ViewNr \<Rightarrow> SeqNr \<Rightarrow> Preprepare \<Rightarrow> bool" where
  "accepted outs v sn pp \<longleftrightarrow>
     HashRequestOne (SerializePreprepareForHashing pp) (CtxPreprepare pp) \<in> set outs \<and>
     pp_View pp = v \<and> pp_Sn pp = sn"

fun ctx_preprepare :: "HashOneContext \<Rightarrow> Preprepare" where
  "ctx_preprepare (CtxPreprepare pp) = pp"
| "ctx_preprepare (CtxCatchUpResponse pp) = pp"
| "ctx_preprepare (CtxMissingPreprepare pp) = pp"

definition prepare_cert :: "(NodeID \<Rightarrow> PbftMessage \<Rightarrow> bool) \<Rightarrow> Membership \<Rightarrow> SeqNr \<Rightarrow> ViewNr \<Rightarrow> bytes \<Rightarrow> bool" where
  "prepare_cert auth m sn v d \<longleftrightarrow>
     (\<exists>Q. distinct Q \<and> HaveStrongQuorum m Q = Inr True \<and>
          (\<forall>n \<in> set Q. \<exists>d'. auth n (MsgPrepare sn v d') \<and> bval d' = d))"

definition commit_cert :: "(NodeID \<Rightarrow> PbftMessage \<Rightarrow> bool) \<Rightarrow> Membership \<Rightarrow> SeqNr \<Rightarrow> ViewNr \<Rightarrow> bytes \<Rightarrow> bool" where
  "commit_cert auth m sn v d \<longleftrightarrow>
     (\<exists>Q. distinct Q \<and> HaveStrongQuorum m Q = Inr True \<and>
          (\<forall>n \<in> set Q. \<exists>d'. auth n (MsgCommit sn v d') \<and> bval d' = d))"

section \<open>Invariant of an instance\<close>

text \<open>\<open>H\<close> is the hash function of the hasher module.\<close>

definition digest_of :: "(bytes list \<Rightarrow> bytes) \<Rightarrow> Preprepare \<Rightarrow> bytes" where
  "digest_of H pp = H (SerializePreprepareForHashing pp)"

fun is_vote :: "PbftMessage \<Rightarrow> bool" where
  "is_vote (MsgPrepare sn v d) = True"
| "is_vote (MsgCommit sn v d) = True"
| "is_vote _ = False"

definition slot_struct :: "Membership \<Rightarrow> PbftSlot \<Rightarrow> bool" where
  "slot_struct m slot \<longleftrightarrow>
     slot_membership slot = m \<and>
     gomap_ok (PrepareDigests slot) \<and> gomap_ok (ValidPrepareDigests slot) \<and>
     gomap_ok (CommitDigests slot) \<and> gomap_ok (ValidCommitDigests slot)"

text \<open>Recorded votes are authentic.\<close>

definition slot_votes :: "(NodeID \<Rightarrow> PbftMessage \<Rightarrow> bool) \<Rightarrow> ViewNr \<Rightarrow> SeqNr \<Rightarrow> PbftSlot \<Rightarrow> bool" where
  "slot_votes auth v sn slot \<longleftrightarrow>
     (\<forall>n d. map_of (PrepareDigests slot) n = Some (Some d) \<longrightarrow> auth n (MsgPrepare sn v (Some d))) \<and>
     (\<forall>n d. map_of (CommitDigests slot) n = Some (Some d) \<longrightarrow> auth n (MsgCommit sn v (Some d))) \<and>
     (\<forall>n d. map_of (ValidPrepareDigests slot) n = Some d \<longrightarrow> (\<exists>d'. auth n (MsgPrepare sn v d') \<and> bval d' = bval d)) \<and>
     (\<forall>n d. map_of (ValidCommitDigests slot) n = Some d \<longrightarrow> (\<exists>d'. auth n (MsgCommit sn v d') \<and> bval d' = bval d))"

text \<open>
  Digests of votes counted as valid, and of a slot not yet committed, belong to the accepted
  preprepare (\<open>acc\<close>).
\<close>

definition slot_digests :: "(bytes list \<Rightarrow> bytes) \<Rightarrow> (Preprepare \<Rightarrow> bool) \<Rightarrow> PbftSlot \<Rightarrow> bool" where
  "slot_digests H acc slot \<longleftrightarrow>
     (\<forall>n d. map_of (ValidPrepareDigests slot) n = Some d \<longrightarrow> (\<exists>pp. acc pp \<and> bval d = digest_of H pp)) \<and>
     (\<forall>n d. map_of (ValidCommitDigests slot) n = Some d \<longrightarrow> (\<exists>pp. acc pp \<and> bval d = digest_of H pp)) \<and>
     (\<not> Committed slot \<longrightarrow>
        (Prepared slot \<longrightarrow> Preprepared slot) \<and>
        (\<forall>pp. slot_Preprepare slot = Some pp \<longrightarrow> acc pp) \<and>
        (Preprepared slot \<longrightarrow> (\<exists>pp. slot_Preprepare slot = Some pp \<and> bval (slot_Digest slot) = digest_of H pp))) \<and>
     (Committed slot \<and> \<not> Prepared slot \<longrightarrow> (\<forall>pp. \<not> acc pp)) \<and>
     (slot_Preprepare slot = None \<longrightarrow> (\<forall>pp. \<not> acc pp))"

definition slot_inv ::
  "(bytes list \<Rightarrow> bytes) \<Rightarrow> (NodeID \<Rightarrow> PbftMessage \<Rightarrow> bool) \<Rightarrow> Membership \<Rightarrow> PbftOut list \<Rightarrow>
     ViewNr \<Rightarrow> SeqNr \<Rightarrow> PbftSlot \<Rightarrow> bool" where
  "slot_inv H auth m outs v sn slot \<longleftrightarrow>
     slot_struct m slot \<and> slot_votes auth v sn slot \<and> slot_digests H (accepted outs v sn) slot"

fun sent_ok :: "(bytes list \<Rightarrow> bytes) \<Rightarrow> (NodeID \<Rightarrow> PbftMessage \<Rightarrow> bool) \<Rightarrow> Membership \<Rightarrow> PbftOut list \<Rightarrow> PbftMessage \<Rightarrow> bool" where
  "sent_ok H auth m outs (MsgPrepare sn v d) = (\<exists>pp. accepted outs v sn pp \<and> bval d = digest_of H pp)"
| "sent_ok H auth m outs (MsgCommit sn v d) =
     (prepare_cert auth m sn v (bval d) \<and> (\<exists>pp. accepted outs v sn pp \<and> bval d = digest_of H pp))"
| "sent_ok H auth m outs _ = True"

text \<open>
  A delivered value either has a commit certificate in some view, or was obtained by catching up.
\<close>

definition delivery_ok ::
  "(bytes list \<Rightarrow> bytes) \<Rightarrow> (NodeID \<Rightarrow> PbftMessage \<Rightarrow> bool) \<Rightarrow> Membership \<Rightarrow> PbftOut list \<Rightarrow>
     SeqNr \<Rightarrow> gobytes \<Rightarrow> bool \<Rightarrow> bool" where
  "delivery_ok H auth m outs sn data aborted \<longleftrightarrow>
     (\<exists>v pp. accepted outs v sn pp \<and> pp_Data pp = data \<and> pp_Aborted pp = aborted \<and>
             commit_cert auth m sn v (digest_of H pp)) \<or>
     (\<exists>pp. HashRequestOne (SerializePreprepareForHashing pp) (CtxCatchUpResponse pp) \<in> set outs \<and>
           pp_Sn pp = sn \<and> pp_Data pp = data \<and> pp_Aborted pp = aborted)"

text \<open>
  The history \<open>base\<close> is a lower bound of the output queue: relative to the queue before a step, the
  invariant says that the step only adds events.
\<close>

definition pbft_inv ::
  "(bytes list \<Rightarrow> bytes) \<Rightarrow> (NodeID \<Rightarrow> PbftMessage \<Rightarrow> bool) \<Rightarrow> PbftOut list \<Rightarrow> Segment \<Rightarrow> PbftState \<Rightarrow> bool" where
  "pbft_inv H auth base seg s \<longleftrightarrow>
     (let outs = outputEvents s; m = seg_Membership seg in
     st_Segment s = seg \<and>
     (\<forall>v sn slot. get_slot s v sn = Some slot \<longrightarrow> v \<le> View s \<and> slot_inv H auth m outs v sn slot) \<and>
     (\<forall>v sn pp. accepted outs v sn pp \<longrightarrow> v \<le> View s \<and> get_slot s v sn \<noteq> None) \<and>
     (\<forall>v sn pp pp'. accepted outs v sn pp \<longrightarrow> accepted outs v sn pp' \<longrightarrow> pp = pp') \<and>
     (\<forall>data ctx. HashRequestOne data ctx \<in> set outs \<longrightarrow> data = SerializePreprepareForHashing (ctx_preprepare ctx)) \<and>
     (\<forall>msg. sent_in outs msg \<longrightarrow> sent_ok H auth m outs msg) \<and>
     (\<forall>sn data ab ldr self. SBDeliver sn data ab ldr self \<in> set outs \<longrightarrow> delivery_ok H auth m outs sn data ab) \<and>
     (\<forall>from mb msg. map_of (MessageBuffers s) from = Some mb \<longrightarrow> msg \<in> set (mb_messages mb) \<longrightarrow> is_vote msg \<longrightarrow> auth from msg) \<and>
     set base \<subseteq> set outs)"

section \<open>Monotonicity\<close>

lemma sent_in_append [simp]: "sent_in (outs @ [e]) m \<longleftrightarrow> sent_in outs m \<or> m \<in> set (out_msgs e)"
  by (auto simp: sent_in_def)

lemma accepted_append:
  "accepted (outs @ [e]) v sn pp \<longleftrightarrow> accepted outs v sn pp \<or>
     (e = HashRequestOne (SerializePreprepareForHashing pp) (CtxPreprepare pp) \<and> pp_View pp = v \<and> pp_Sn pp = sn)"
  by (auto simp: accepted_def)

lemma cert_mono:
  assumes "\<And>n m. auth n m \<Longrightarrow> auth' n m"
  shows "prepare_cert auth m sn v d \<Longrightarrow> prepare_cert auth' m sn v d"
    "commit_cert auth m sn v d \<Longrightarrow> commit_cert auth' m sn v d"
  using assms unfolding prepare_cert_def commit_cert_def by blast+

lemma slot_votes_mono:
  assumes "\<And>n m. auth n m \<Longrightarrow> auth' n m" "slot_votes auth v sn slot"
  shows "slot_votes auth' v sn slot"
  using assms(2) unfolding slot_votes_def by (elim conjE) (intro conjI; meson assms(1))

lemma slot_inv_mono:
  assumes "slot_inv H auth m outs v sn slot" "\<And>n m. auth n m \<Longrightarrow> auth' n m"
    and "\<And>pp. accepted outs' v sn pp \<longleftrightarrow> accepted outs v sn pp"
  shows "slot_inv H auth' m outs' v sn slot"
proof -
  have "accepted outs' v sn = accepted outs v sn" using assms(3) by blast
  with assms(1) slot_votes_mono [OF assms(2)] show ?thesis by (simp add: slot_inv_def)
qed

lemma sent_ok_mono:
  assumes "sent_ok H auth m outs msg" "\<And>n m. auth n m \<Longrightarrow> auth' n m"
    and "\<And>v sn pp. accepted outs v sn pp \<Longrightarrow> accepted outs' v sn pp"
  shows "sent_ok H auth' m outs' msg"
proof (cases msg)
  case (MsgPrepare sn v d)
  with assms(1,3) show ?thesis by auto
next
  case (MsgCommit sn v d)
  with assms(1,3) cert_mono(1) [of auth auth', OF assms(2)] show ?thesis by auto
qed simp_all

lemma delivery_ok_mono:
  assumes "delivery_ok H auth m outs sn data ab" "\<And>n m. auth n m \<Longrightarrow> auth' n m"
    and "set outs \<subseteq> set outs'"
  shows "delivery_ok H auth' m outs' sn data ab"
  using assms(1)
proof (unfold delivery_ok_def, elim disjE exE conjE, goal_cases)
  case (1 v pp)
  then have "accepted outs' v sn pp" "commit_cert auth' m sn v (digest_of H pp)"
    using assms(3) cert_mono(2) [of auth auth', OF assms(2)] by (auto simp: accepted_def)
  with 1 show ?case by blast
next
  case (2 pp)
  with assms(3) show ?case by blast
qed

lemma pbft_inv_auth_mono:
  assumes inv: "pbft_inv H auth base seg s" and auth: "\<And>n m. auth n m \<Longrightarrow> auth' n m"
  shows "pbft_inv H auth' base seg s"
proof -
  have slot: "slot_inv H auth' m outs v sn slot" if "slot_inv H auth m outs v sn slot" for m outs v sn slot
    by (rule slot_inv_mono [OF that auth]) simp_all
  have sent: "sent_ok H auth' m outs msg" if "sent_ok H auth m outs msg" for m outs msg
    by (rule sent_ok_mono [OF that auth]) simp_all
  have deliv: "delivery_ok H auth' m outs sn data ab" if "delivery_ok H auth m outs sn data ab" for m outs sn data ab
    by (rule delivery_ok_mono [OF that auth]) simp_all
  show ?thesis
    using inv unfolding pbft_inv_def Let_def
    by (elim conjE) (intro conjI allI impI; (assumption | (simp; fail) | (meson slot sent deliv auth)))
qed

section \<open>Reading and establishing the invariant\<close>

lemma pbft_invI:
  assumes "st_Segment s = seg"
    and "\<And>v sn slot. get_slot s v sn = Some slot \<Longrightarrow> v \<le> View s \<and> slot_inv H auth (seg_Membership seg) (outputEvents s) v sn slot"
    and "\<And>v sn pp. accepted (outputEvents s) v sn pp \<Longrightarrow> v \<le> View s \<and> get_slot s v sn \<noteq> None"
    and "\<And>v sn pp pp'. accepted (outputEvents s) v sn pp \<Longrightarrow> accepted (outputEvents s) v sn pp' \<Longrightarrow> pp = pp'"
    and "\<And>data ctx. HashRequestOne data ctx \<in> set (outputEvents s) \<Longrightarrow> data = SerializePreprepareForHashing (ctx_preprepare ctx)"
    and "\<And>msg. sent_in (outputEvents s) msg \<Longrightarrow> sent_ok H auth (seg_Membership seg) (outputEvents s) msg"
    and "\<And>sn data ab ldr self. SBDeliver sn data ab ldr self \<in> set (outputEvents s) \<Longrightarrow>
           delivery_ok H auth (seg_Membership seg) (outputEvents s) sn data ab"
    and "\<And>from mb msg. map_of (MessageBuffers s) from = Some mb \<Longrightarrow> msg \<in> set (mb_messages mb) \<Longrightarrow> is_vote msg \<Longrightarrow> auth from msg"
    and "set base \<subseteq> set (outputEvents s)"
  shows "pbft_inv H auth base seg s"
  unfolding pbft_inv_def Let_def by (intro conjI; (intro allI impI)?; (rule assms; assumption))

lemma pbft_invD:
  assumes "pbft_inv H auth base seg s"
  shows "st_Segment s = seg"
    and "get_slot s v sn = Some slot \<Longrightarrow> v \<le> View s \<and> slot_inv H auth (seg_Membership seg) (outputEvents s) v sn slot"
    and "accepted (outputEvents s) v sn pp \<Longrightarrow> v \<le> View s \<and> get_slot s v sn \<noteq> None"
    and "accepted (outputEvents s) v sn pp \<Longrightarrow> accepted (outputEvents s) v sn pp' \<Longrightarrow> pp = pp'"
    and "HashRequestOne data ctx \<in> set (outputEvents s) \<Longrightarrow> data = SerializePreprepareForHashing (ctx_preprepare ctx)"
    and "sent_in (outputEvents s) msg \<Longrightarrow> sent_ok H auth (seg_Membership seg) (outputEvents s) msg"
    and "SBDeliver sn' data' ab ldr self \<in> set (outputEvents s) \<Longrightarrow>
           delivery_ok H auth (seg_Membership seg) (outputEvents s) sn' data' ab"
    and "map_of (MessageBuffers s) from = Some mb \<Longrightarrow> msg' \<in> set (mb_messages mb) \<Longrightarrow> is_vote msg' \<Longrightarrow> auth from msg'"
    and "set base \<subseteq> set (outputEvents s)"
  using assms unfolding pbft_inv_def Let_def by (elim conjE, meson)+

lemma pbft_inv_cong:
  assumes "pbft_inv H auth base seg s" "st_Segment s' = st_Segment s" "Slots s' = Slots s" "View s' = View s"
    "outputEvents s' = outputEvents s" "MessageBuffers s' = MessageBuffers s"
  shows "pbft_inv H auth base seg s'"
  using assms(1) unfolding pbft_inv_def Let_def assms(2,4-6) get_slot_cong [OF assms(3)] .

lemma pbft_inv_fields [simp]:
  "pbft_inv H auth base seg (s\<lparr>Proposal := x\<rparr>) = pbft_inv H auth base seg s"
  "pbft_inv H auth base seg (s\<lparr>SegmentCheckpoint := c\<rparr>) = pbft_inv H auth base seg s"
  "pbft_inv H auth base seg (s\<lparr>InViewChange := b\<rparr>) = pbft_inv H auth base seg s"
  "pbft_inv H auth base seg (s\<lparr>ViewChangeStates := w\<rparr>) = pbft_inv H auth base seg s"
  by (rule iffI; erule pbft_inv_cong; simp)+

text \<open>Events that neither vote, nor deliver, nor accept a preprepare.\<close>

fun quiet :: "PbftOut \<Rightarrow> bool" where
  "quiet (HashRequestOne data (CtxPreprepare pp)) = False"
| "quiet (HashRequestOne data ctx) = (data = SerializePreprepareForHashing (ctx_preprepare ctx))"
| "quiet (SBDeliver sn data ab ldr self) = False"
| "quiet e = list_all (\<lambda>m. \<not> is_vote m) (out_msgs e)"

lemma pbft_inv_emit:
  assumes inv: "pbft_inv H auth base seg s"
    and hash: "\<And>data pp. e \<noteq> HashRequestOne data (CtxPreprepare pp)"
    and hash_data: "\<And>data ctx. e = HashRequestOne data ctx \<Longrightarrow> data = SerializePreprepareForHashing (ctx_preprepare ctx)"
    and msgs: "\<And>msg. msg \<in> set (out_msgs e) \<Longrightarrow> sent_ok H auth (seg_Membership seg) (outputEvents s) msg"
    and deliv: "\<And>sn data ab ldr self. e = SBDeliver sn data ab ldr self \<Longrightarrow>
           delivery_ok H auth (seg_Membership seg) (outputEvents s) sn data ab"
  shows "pbft_inv H auth base seg (emit e s)"
proof (rule pbft_invI, goal_cases)
  case (2 v sn slot)
  then have "v \<le> View s" "slot_inv H auth (seg_Membership seg) (outputEvents s) v sn slot"
    using pbft_invD(2) [OF inv] by auto
  then show ?case using hash by (auto simp: accepted_append elim!: slot_inv_mono)
next
  case (3 v sn pp)
  then show ?case using pbft_invD(3) [OF inv, of v sn pp] hash by (auto simp: accepted_append)
next
  case (4 v sn pp pp')
  then show ?case using pbft_invD(4) [OF inv, of v sn pp pp'] hash by (auto simp: accepted_append)
next
  case (5 data ctx)
  then show ?case using pbft_invD(5) [OF inv, of data ctx] hash_data by auto
next
  case (6 msg)
  then have "sent_ok H auth (seg_Membership seg) (outputEvents s) msg"
    using pbft_invD(6) [OF inv, of msg] msgs by auto
  then show ?case by (rule sent_ok_mono) (auto simp: accepted_append)
next
  case (7 sn data ab ldr self)
  then have "delivery_ok H auth (seg_Membership seg) (outputEvents s) sn data ab"
    using pbft_invD(7) [OF inv, of sn data ab ldr self] deliv by auto
  then show ?case by (rule delivery_ok_mono) auto
next
  case (8 n mb msg)
  then show ?case using pbft_invD(8) [OF inv, of n mb msg] by simp
qed (use pbft_invD(1,9) [OF inv] in auto)

lemma pbft_inv_emit_quiet:
  assumes inv: "pbft_inv H auth base seg s" and q: "quiet e"
  shows "pbft_inv H auth base seg (emit e s)"
proof (rule pbft_inv_emit [OF inv])
  show "sent_ok H auth (seg_Membership seg) (outputEvents s) msg" if "msg \<in> set (out_msgs e)" for msg
  proof -
    have "\<not> is_vote msg" using q that by (cases e rule: quiet.cases) (auto simp: list_all_iff)
    then show ?thesis by (cases msg) simp_all
  qed
  show "data = SerializePreprepareForHashing (ctx_preprepare ctx)" if "e = HashRequestOne data ctx" for data ctx
    using q that by (cases ctx) auto
qed (use q in auto)

lemma pbft_inv_put_slot:
  assumes inv: "pbft_inv H auth base seg s" and old: "get_slot s v sn \<noteq> None"
    and slot: "slot_inv H auth (seg_Membership seg) (outputEvents s) v sn slot"
  shows "pbft_inv H auth base seg (put_slot v sn slot s)"
proof (rule pbft_invI, goal_cases)
  case (2 v' sn' slot')
  then show ?case using pbft_invD(2) [OF inv, of v' sn' slot'] pbft_invD(2) [OF inv, of v sn] old slot
    by (auto split: if_splits)
next
  case (3 v' sn' pp)
  then show ?case using pbft_invD(3) [OF inv, of v' sn' pp] by auto
qed (use pbft_invD [OF inv] in \<open>auto split: if_splits\<close>)

section \<open>Advancing a slot\<close>

lemma slot_inv_Preprepared:
  "slot_inv H auth m outs v sn slot \<Longrightarrow> \<not> Committed slot \<Longrightarrow> Prepared slot \<Longrightarrow> Preprepared slot"
  by (simp add: slot_inv_def slot_digests_def)

lemma slot_inv_digest:
  assumes "slot_inv H auth m outs v sn slot" "\<not> Committed slot" "Preprepared slot"
  obtains pp where "slot_Preprepare slot = Some pp" "accepted outs v sn pp" "bval (slot_Digest slot) = digest_of H pp"
  using assms by (auto simp: slot_inv_def slot_digests_def)

lemma slot_inv_validP:
  assumes "slot_inv H auth m outs v sn slot" "map_of (ValidPrepareDigests slot) n = Some d"
  shows "\<exists>d' pp. auth n (MsgPrepare sn v d') \<and> bval d' = bval d \<and> accepted outs v sn pp \<and> bval d = digest_of H pp"
  using assms by (simp add: slot_inv_def slot_votes_def slot_digests_def)

lemma slot_inv_validC:
  assumes "slot_inv H auth m outs v sn slot" "map_of (ValidCommitDigests slot) n = Some d"
  shows "\<exists>d' pp. auth n (MsgCommit sn v d') \<and> bval d' = bval d \<and> accepted outs v sn pp \<and> bval d = digest_of H pp"
  using assms by (simp add: slot_inv_def slot_votes_def slot_digests_def)

lemma CheckPrepared_cases:
  assumes "CheckPrepared slot = Inr (slot', b)"
  obtains "slot' = slot" "\<not> b"
  | recv valid where "check_digests (slot_Digest slot) (PrepareDigests slot) (ValidPrepareDigests slot) = (recv, valid)"
      "slot' = slot\<lparr>PrepareDigests := recv, ValidPrepareDigests := valid\<rparr>" "Preprepared slot"
      "HaveStrongQuorum (slot_membership slot) (GetKeys valid) = Inr b"
  using assms by (auto simp: CheckPrepared_def rbind_eq_Inr Let_def split: if_splits prod.splits)

lemma CheckCommitted_cases:
  assumes "CheckCommitted slot = Inr (slot', b)"
  obtains "slot' = slot" "\<not> b"
  | recv valid where "check_digests (slot_Digest slot) (CommitDigests slot) (ValidCommitDigests slot) = (recv, valid)"
      "slot' = slot\<lparr>CommitDigests := recv, ValidCommitDigests := valid\<rparr>" "Prepared slot"
      "HaveStrongQuorum (slot_membership slot) (GetKeys valid) = Inr b"
  using assms by (auto simp: CheckCommitted_def rbind_eq_Inr Let_def split: if_splits prod.splits)

lemma checked_received:
  assumes "check_digests dig rs valid = (recv, valid')"
  shows "map fst recv = map fst rs" "map_of recv n \<noteq> Some (Some d)"
proof -
  have recv: "recv = map (\<lambda>(n, _). (n, None)) rs" using check_digests_received [of dig rs valid] assms by simp
  then show "map fst recv = map fst rs" by (induction rs arbitrary: recv) auto
  show "map_of recv n \<noteq> Some (Some d)" unfolding recv by (auto dest!: map_of_SomeD)
qed

lemma CheckPrepared_inv:
  assumes inv: "slot_inv H auth m outs v sn slot" and nc: "\<not> Committed slot"
    and chk: "CheckPrepared slot = Inr (slot', b)"
  shows "slot_inv H auth m outs v sn slot'"
  using chk
proof (cases rule: CheckPrepared_cases)
  case (2 recv valid)
  note valid = check_digests_valid [of "slot_Digest slot" "PrepareDigests slot" "ValidPrepareDigests slot", unfolded 2(1) snd_conv]
  obtain pp where pp: "accepted outs v sn pp" "bval (slot_Digest slot) = digest_of H pp"
    by (rule slot_inv_digest [OF inv nc 2(3)])
  have mem: "map_of (PrepareDigests slot) n = Some d" if "(n, d) \<in> set (PrepareDigests slot)" for n d
    using inv that by (auto simp: slot_inv_def slot_struct_def)
  have "slot_struct m slot'"
    using inv 2(2) checked_received(1) [OF 2(1)]
      check_digests_ok [of "ValidPrepareDigests slot" "slot_Digest slot" "PrepareDigests slot", unfolded 2(1)]
    by (simp add: slot_inv_def slot_struct_def)
  moreover have "slot_votes auth v sn slot'"
    using inv 2(2) checked_received(2) [OF 2(1)] mem
    by (fastforce simp: slot_inv_def slot_votes_def dest!: valid)
  moreover have "slot_digests H (accepted outs v sn) slot'"
    using inv 2(2) pp by (fastforce simp: slot_inv_def slot_digests_def dest!: valid)
  ultimately show ?thesis by (simp add: slot_inv_def)
qed (use inv in simp)

lemma CheckCommitted_inv:
  assumes inv: "slot_inv H auth m outs v sn slot" and nc: "\<not> Committed slot"
    and chk: "CheckCommitted slot = Inr (slot', b)"
  shows "slot_inv H auth m outs v sn slot'"
  using chk
proof (cases rule: CheckCommitted_cases)
  case (2 recv valid)
  note valid = check_digests_valid [of "slot_Digest slot" "CommitDigests slot" "ValidCommitDigests slot", unfolded 2(1) snd_conv]
  have "Preprepared slot" by (rule slot_inv_Preprepared [OF inv nc 2(3)])
  then obtain pp where pp: "accepted outs v sn pp" "bval (slot_Digest slot) = digest_of H pp"
    by (rule slot_inv_digest [OF inv nc])
  have mem: "map_of (CommitDigests slot) n = Some d" if "(n, d) \<in> set (CommitDigests slot)" for n d
    using inv that by (auto simp: slot_inv_def slot_struct_def)
  have "slot_struct m slot'"
    using inv 2(2) checked_received(1) [OF 2(1)]
      check_digests_ok [of "ValidCommitDigests slot" "slot_Digest slot" "CommitDigests slot", unfolded 2(1)]
    by (simp add: slot_inv_def slot_struct_def)
  moreover have "(\<exists>d'. auth n (MsgCommit sn v d') \<and> bval d' = bval d) \<and>
      (\<exists>pp. accepted outs v sn pp \<and> bval d = digest_of H pp)" if "map_of valid n = Some d" for n d
    using valid [OF that]
  proof
    assume "map_of (ValidCommitDigests slot) n = Some d"
    with inv show ?thesis unfolding slot_inv_def slot_votes_def slot_digests_def by blast
  next
    assume d: "(n, d) \<in> set (CommitDigests slot) \<and> d \<noteq> None \<and> bval d = bval (slot_Digest slot)"
    with inv mem have "auth n (MsgCommit sn v d)" by (auto simp: slot_inv_def slot_votes_def)
    with d pp show ?thesis by auto
  qed
  with inv 2(2) checked_received(2) [OF 2(1)]
  have "slot_votes auth v sn slot'" "slot_digests H (accepted outs v sn) slot'"
    by (simp_all add: slot_inv_def slot_votes_def slot_digests_def)
  ultimately show ?thesis by (simp add: slot_inv_def)
qed (use inv in simp)

lemma CheckPrepared_cert:
  assumes inv: "slot_inv H auth m outs v sn slot'" and nc: "\<not> Committed slot'"
    and uniq: "\<And>pp pp'. accepted outs v sn pp \<Longrightarrow> accepted outs v sn pp' \<Longrightarrow> pp = pp'"
    and chk: "CheckPrepared slot = Inr (slot', True)"
  shows "prepare_cert auth m sn v (bval (slot_Digest slot')) \<and>
    (\<exists>pp. accepted outs v sn pp \<and> bval (slot_Digest slot') = digest_of H pp)"
  using chk
proof (cases rule: CheckPrepared_cases)
  case (2 recv valid)
  have pre: "Preprepared slot'" and vs: "ValidPrepareDigests slot' = valid" using 2(2,3) by simp_all
  obtain pp where pp: "accepted outs v sn pp" "bval (slot_Digest slot') = digest_of H pp"
    by (rule slot_inv_digest [OF inv nc pre])
  have "\<exists>d'. auth n (MsgPrepare sn v d') \<and> bval d' = digest_of H pp" if "n \<in> set (GetKeys valid)" for n
  proof -
    from that obtain d where d: "map_of (ValidPrepareDigests slot') n = Some d"
      using vs mhas_iff [of valid n] by auto
    from slot_inv_validP [OF inv d] obtain d' pp' where d': "auth n (MsgPrepare sn v d')" "bval d' = bval d"
      and "accepted outs v sn pp'" "bval d = digest_of H pp'" by blast
    with d' uniq [OF pp(1), of pp'] show ?thesis by auto
  qed
  moreover have "HaveStrongQuorum m (GetKeys valid) = Inr True" "distinct (GetKeys valid)"
    using inv 2 vs by (auto simp: slot_inv_def slot_struct_def)
  ultimately have "prepare_cert auth m sn v (digest_of H pp)" unfolding prepare_cert_def by blast
  with pp show ?thesis by auto
qed simp

lemma CheckCommitted_cert:
  assumes inv: "slot_inv H auth m outs v sn slot'" and nc: "\<not> Committed slot'"
    and uniq: "\<And>pp pp'. accepted outs v sn pp \<Longrightarrow> accepted outs v sn pp' \<Longrightarrow> pp = pp'"
    and chk: "CheckCommitted slot = Inr (slot', True)"
  shows "\<exists>pp. slot_Preprepare slot' = Some pp \<and> accepted outs v sn pp \<and> commit_cert auth m sn v (digest_of H pp)"
  using chk
proof (cases rule: CheckCommitted_cases)
  case (2 recv valid)
  have vs: "ValidCommitDigests slot' = valid" and prep: "Prepared slot'" using 2(2,3) by simp_all
  have pre: "Preprepared slot'" by (rule slot_inv_Preprepared [OF inv nc prep])
  obtain pp where pp: "slot_Preprepare slot' = Some pp" "accepted outs v sn pp"
    by (rule slot_inv_digest [OF inv nc pre])
  have "\<exists>d'. auth n (MsgCommit sn v d') \<and> bval d' = digest_of H pp" if "n \<in> set (GetKeys valid)" for n
  proof -
    from that obtain d where d: "map_of (ValidCommitDigests slot') n = Some d"
      using vs mhas_iff [of valid n] by auto
    from slot_inv_validC [OF inv d] obtain d' pp' where d': "auth n (MsgCommit sn v d')" "bval d' = bval d"
      and "accepted outs v sn pp'" "bval d = digest_of H pp'" by blast
    with d' uniq [OF pp(2), of pp'] show ?thesis by auto
  qed
  moreover have "HaveStrongQuorum m (GetKeys valid) = Inr True" "distinct (GetKeys valid)"
    using inv 2 vs by (auto simp: slot_inv_def slot_struct_def)
  ultimately have "commit_cert auth m sn v (digest_of H pp)" unfolding commit_cert_def by blast
  with pp show ?thesis by blast
qed simp

lemma CheckPrepared_same:
  assumes "CheckPrepared slot = Inr (slot', b)"
  shows "Committed slot' = Committed slot" "slot_Preprepare slot' = slot_Preprepare slot"
    "Preprepared slot' = Preprepared slot" "Prepared slot' = Prepared slot" "slot_Digest slot' = slot_Digest slot"
    "b \<Longrightarrow> Preprepared slot"
  using assms by (cases rule: CheckPrepared_cases; simp)+

lemma CheckCommitted_same:
  assumes "CheckCommitted slot = Inr (slot', b)"
  shows "Committed slot' = Committed slot" "slot_Preprepare slot' = slot_Preprepare slot"
    "Preprepared slot' = Preprepared slot" "Prepared slot' = Prepared slot" "slot_Digest slot' = slot_Digest slot"
    "b \<Longrightarrow> Prepared slot"
  using assms by (cases rule: CheckCommitted_cases; simp)+

lemma slot_inv_set_Prepared:
  "slot_inv H auth m outs v sn slot \<Longrightarrow> \<not> Committed slot \<Longrightarrow> Preprepared slot \<Longrightarrow>
     slot_inv H auth m outs v sn (slot\<lparr>Prepared := True\<rparr>)"
  by (simp add: slot_inv_def slot_struct_def slot_votes_def slot_digests_def)

lemma slot_inv_set_Committed:
  "slot_inv H auth m outs v sn slot \<Longrightarrow> Prepared slot \<Longrightarrow>
     slot_inv H auth m outs v sn (slot\<lparr>Committed := True\<rparr>)"
  by (simp add: slot_inv_def slot_struct_def slot_votes_def slot_digests_def)

lemma advance_prepared_inv:
  assumes inv: "pbft_inv H auth base seg s" and slot: "get_slot s (View s) sn = Some slot"
    and nc: "Committed slot \<Longrightarrow> Prepared slot" and adv: "advance_prepared sn s = Inr s'"
  shows "pbft_inv H auth base seg s' \<and> View s' = View s \<and> MessageBuffers s' = MessageBuffers s"
proof (cases "Prepared slot")
  case True
  with adv slot inv show ?thesis by (simp add: advance_prepared_def)
next
  case False
  let ?outs = "outputEvents s" and ?m = "seg_Membership seg"
  from False nc have nc: "\<not> Committed slot" by blast
  from adv slot False obtain slot' b where chk: "CheckPrepared slot = Inr (slot', b)"
    and s': "s' = (if b then emit (SendMessage (MsgCommit sn (View s) (slot_Digest slot')) (NodeIDs (st_Segment s)))
                          (put_slot (View s) sn (slot'\<lparr>Prepared := True\<rparr>) s)
                   else put_slot (View s) sn slot' s)"
    by (auto simp: advance_prepared_def rbind_eq_Inr split: if_splits)
  have sinv: "slot_inv H auth ?m ?outs (View s) sn slot'"
    using CheckPrepared_inv [OF _ nc chk] pbft_invD(2) [OF inv slot] by blast
  have nc': "\<not> Committed slot'" using nc CheckPrepared_same(1) [OF chk] by simp
  show ?thesis
  proof (cases b)
    case True
    then have chkT: "CheckPrepared slot = Inr (slot', True)" using chk by simp
    have cert: "prepare_cert auth ?m sn (View s) (bval (slot_Digest slot')) \<and>
        (\<exists>pp. accepted ?outs (View s) sn pp \<and> bval (slot_Digest slot') = digest_of H pp)"
      by (rule CheckPrepared_cert [OF sinv nc' pbft_invD(4) [OF inv] chkT])
    have "Preprepared slot'" using CheckPrepared_same(3,6) [OF chkT] by simp
    then have "pbft_inv H auth base seg (put_slot (View s) sn (slot'\<lparr>Prepared := True\<rparr>) s)"
      using slot by (intro pbft_inv_put_slot [OF inv] slot_inv_set_Prepared [OF sinv nc']) simp_all
    then have "pbft_inv H auth base seg s'"
      unfolding s' using True cert by (auto intro!: pbft_inv_emit)
    then show ?thesis using s' by simp
  next
    case False
    then show ?thesis using s' pbft_inv_put_slot [OF inv _ sinv] slot by simp
  qed
qed

lemma quiet_SendDone: "quiet (TimerRepeat d r [SendMessage (MsgDone ds) ns])"
  by simp

lemma SendDoneMessages_inv:
  "pbft_inv H auth base seg s \<Longrightarrow> pbft_inv H auth base seg (SendDoneMessages p s)"
  by (simp add: SendDoneMessages_def Let_def pbft_inv_emit_quiet)

lemma SendDoneMessages_simps [simp]:
  "View (SendDoneMessages p s) = View s" "MessageBuffers (SendDoneMessages p s) = MessageBuffers s"
  "st_Segment (SendDoneMessages p s) = st_Segment s" "get_slot (SendDoneMessages p s) = get_slot s"
  "set (outputEvents s) \<subseteq> set (outputEvents (SendDoneMessages p s))"
  by (auto simp: SendDoneMessages_def Let_def)

lemma finish_if_done_simps [simp]:
  "View (finish_if_done p s) = View s" "MessageBuffers (finish_if_done p s) = MessageBuffers s"
  "st_Segment (finish_if_done p s) = st_Segment s" "get_slot (finish_if_done p s) = get_slot s"
  "set (outputEvents s) \<subseteq> set (outputEvents (finish_if_done p s))"
  using SendDoneMessages_simps(5) [of "s\<lparr>SegmentCheckpoint := SetDone (SegmentCheckpoint s)\<rparr>" p]
  by (auto simp: finish_if_done_def get_slot_def slots_of_def SendDoneMessages_def Let_def fun_eq_iff)

lemma reset_sn_timeout_simps [simp]:
  "View (reset_sn_timeout p b s) = View s" "MessageBuffers (reset_sn_timeout p b s) = MessageBuffers s"
  "st_Segment (reset_sn_timeout p b s) = st_Segment s" "get_slot (reset_sn_timeout p b s) = get_slot s"
  "set (outputEvents s) \<subseteq> set (outputEvents (reset_sn_timeout p b s))"
  by (auto simp: reset_sn_timeout_def)

lemma finish_if_done_inv:
  "pbft_inv H auth base seg s \<Longrightarrow> pbft_inv H auth base seg (finish_if_done p s)"
  by (simp add: finish_if_done_def SendDoneMessages_inv)

lemma reset_sn_timeout_inv:
  "pbft_inv H auth base seg s \<Longrightarrow> pbft_inv H auth base seg (reset_sn_timeout p b s)"
  by (simp add: reset_sn_timeout_def pbft_inv_emit_quiet)

lemma deliver_inv:
  assumes inv: "pbft_inv H auth base seg s"
    and ok: "delivery_ok H auth (seg_Membership seg) (outputEvents s) sn data ab"
  shows "pbft_inv H auth base seg (emit (SBDeliver sn data ab ldr self) s)"
  using ok by (intro pbft_inv_emit [OF inv]) simp_all

lemma advance_committed_inv:
  assumes inv: "pbft_inv H auth base seg s" and adv: "advance_committed p sn s = Inr s'"
  shows "pbft_inv H auth base seg s' \<and> View s' = View s \<and> MessageBuffers s' = MessageBuffers s"
proof -
  let ?outs = "outputEvents s" and ?m = "seg_Membership seg"
  from adv obtain slot where slot: "get_slot s (View s) sn = Some slot"
    by (auto simp: advance_committed_def split: option.splits)
  show ?thesis
  proof (cases "Committed slot")
    case True
    with adv slot inv show ?thesis by (simp add: advance_committed_def)
  next
    case nc: False
    with adv slot obtain slot' b where chk: "CheckCommitted slot = Inr (slot', b)"
      by (auto simp: advance_committed_def rbind_eq_Inr)
    have sinv: "slot_inv H auth ?m ?outs (View s) sn slot'"
      using CheckCommitted_inv [OF _ nc chk] pbft_invD(2) [OF inv slot] by blast
    have nc': "\<not> Committed slot'" using nc CheckCommitted_same(1) [OF chk] by simp
    have uniq: "pp = pp'" if "accepted ?outs (View s) sn pp" "accepted ?outs (View s) sn pp'" for pp pp'
      by (rule pbft_invD(4) [OF inv that])
    show ?thesis
    proof (cases b)
      case False
      with adv slot nc chk have "s' = put_slot (View s) sn slot' s" by (simp add: advance_committed_def)
      with pbft_inv_put_slot [OF inv _ sinv] slot show ?thesis by simp
    next
      case True
      then have chkT: "CheckCommitted slot = Inr (slot', True)" using chk by simp
      obtain pp where pp: "slot_Preprepare slot' = Some pp" "accepted ?outs (View s) sn pp"
        "commit_cert auth ?m sn (View s) (digest_of H pp)"
        using CheckCommitted_cert [OF sinv nc' uniq chkT] by blast
      let ?s1 = "put_slot (View s) sn (slot'\<lparr>Committed := True\<rparr>) s"
      have inv1: "pbft_inv H auth base seg ?s1"
        using slot CheckCommitted_same(4,6) [OF chkT]
        by (intro pbft_inv_put_slot [OF inv] slot_inv_set_Committed [OF sinv]) simp_all
      obtain stable where s': "s' = emit (SBDeliver sn (pp_Data pp) (pp_Aborted pp) (seg_Leader (st_Segment s)) (Self p))
          (finish_if_done p (reset_sn_timeout p stable ?s1))"
        using adv slot nc chkT pp(1) by (auto simp: advance_committed_def rbind_eq_Inr Let_def)
      let ?s2 = "finish_if_done p (reset_sn_timeout p stable ?s1)"
      have "set ?outs \<subseteq> set (outputEvents ?s2)"
        by (rule order_trans [OF _ finish_if_done_simps(5)]) (rule order_trans [OF _ reset_sn_timeout_simps(5)], simp)
      then have "accepted (outputEvents ?s2) (View s) sn pp" using pp(2) by (auto simp: accepted_def)
      then have "delivery_ok H auth ?m (outputEvents ?s2) sn (pp_Data pp) (pp_Aborted pp)"
        using pp(3) unfolding delivery_ok_def by blast
      with inv1 have "pbft_inv H auth base seg s'"
        unfolding s' by (intro deliver_inv finish_if_done_inv reset_sn_timeout_inv)
      moreover have "View s' = View s" "MessageBuffers s' = MessageBuffers s" using s' by simp_all
      ultimately show ?thesis by blast
    qed
  qed
qed

lemma advanceSlotState_inv:
  assumes "pbft_inv H auth base seg s" "get_slot s (View s) sn = Some slot" "Committed slot \<Longrightarrow> Prepared slot"
    and "advanceSlotState p sn s = Inr s'"
  shows "pbft_inv H auth base seg s' \<and> View s' = View s \<and> MessageBuffers s' = MessageBuffers s"
  using assms advance_prepared_inv [OF assms(1-3)] advance_committed_inv
  by (auto simp: advanceSlotState_def rbind_eq_Inr)

section \<open>Handlers of the good case\<close>

lemma pbft_inv_buffers:
  assumes inv: "pbft_inv H auth base seg s"
    and mb: "\<And>msg. msg \<in> set (mb_messages mb) \<Longrightarrow> is_vote msg \<Longrightarrow> auth from msg"
  shows "pbft_inv H auth base seg (s\<lparr>MessageBuffers := AList.update from mb (MessageBuffers s)\<rparr>)"
proof -
  let ?s = "s\<lparr>MessageBuffers := AList.update from mb (MessageBuffers s)\<rparr>"
  have slots: "get_slot ?s = get_slot s" by (rule get_slot_cong) simp
  show ?thesis
  proof (rule pbft_invI, goal_cases)
    case (8 n mb' msg)
    then show ?case using pbft_invD(8) [OF inv, of n mb' msg] mb by (auto split: if_splits)
  qed (use pbft_invD [OF inv] slots in auto)
qed

lemma preprocessMessage_inv:
  assumes inv: "pbft_inv H auth base seg s" and a: "is_vote msg \<Longrightarrow> auth from msg"
    and pre: "preprocessMessage p sn view msg from s = Inr (s', mslot)"
  shows "pbft_inv H auth base seg s' \<and> View s' = View s \<and>
    (\<forall>slot. mslot = Some slot \<longrightarrow>
       s' = s \<and> view = View s \<and> get_slot s (View s) sn = Some slot \<and> \<not> Committed slot)"
proof (cases "view > View s \<or> InViewChange s")
  case True
  show ?thesis
  proof (cases "view < View s")
    case False
    with True pre obtain mb mb' b where mb: "map_of (MessageBuffers s) from = Some mb"
      "MessageBuffer_Store (proto_Size p) mb msg = Inr (mb', b)"
      and s': "s' = s\<lparr>MessageBuffers := AList.update from mb' (MessageBuffers s)\<rparr>" "mslot = None"
      by (auto simp: preprocessMessage_def rbind_eq_Inr split: if_splits option.splits)
    have "pbft_inv H auth base seg s'"
      unfolding s'(1) using Store_subset [OF mb(2)] pbft_invD(8) [OF inv mb(1)] a
      by (intro pbft_inv_buffers [OF inv]) auto
    with s' show ?thesis by simp
  qed (use True pre inv in \<open>simp add: preprocessMessage_def\<close>)
next
  case False
  with pre inv show ?thesis by (auto simp: preprocessMessage_def split: if_splits option.splits)
qed

lemma slot_inv_add_prepare:
  assumes "slot_inv H auth m outs v sn slot" "digest \<noteq> None" "auth from (MsgPrepare sn v digest)"
  shows "slot_inv H auth m outs v sn (slot\<lparr>PrepareDigests := AList.update from digest (PrepareDigests slot)\<rparr>)"
  using assms by (auto simp: slot_inv_def slot_struct_def slot_votes_def slot_digests_def)

lemma slot_inv_add_commit:
  assumes "slot_inv H auth m outs v sn slot" "digest \<noteq> None" "auth from (MsgCommit sn v digest)"
  shows "slot_inv H auth m outs v sn (slot\<lparr>CommitDigests := AList.update from digest (CommitDigests slot)\<rparr>)"
  using assms by (auto simp: slot_inv_def slot_struct_def slot_votes_def slot_digests_def)

lemma applyMsgPrepare_inv:
  assumes inv: "pbft_inv H auth base seg s" and a: "auth from (MsgPrepare sn view digest)"
    and app: "applyMsgPrepare p sn view digest from s = Inr s'"
  shows "pbft_inv H auth base seg s' \<and> View s' = View s"
proof (cases "digest = None")
  case True
  with app inv show ?thesis by (simp add: applyMsgPrepare_def)
next
  case False
  with app obtain s1 mslot where pre: "preprocessMessage p sn view (MsgPrepare sn view digest) from s = Inr (s1, mslot)"
    and rest: "(case mslot of None \<Rightarrow> Inr s1 | Some slot \<Rightarrow>
        if mhas (PrepareDigests slot) from then Inr s1
        else advanceSlotState p sn (put_slot (View s1) sn
          (slot\<lparr>PrepareDigests := AList.update from digest (PrepareDigests slot)\<rparr>) s1)) = Inr s'"
    by (auto simp: applyMsgPrepare_def rbind_eq_Inr simp del: not_None_eq)
  note p = preprocessMessage_inv [OF inv _ pre] a
  show ?thesis
  proof (cases mslot)
    case None
    with rest p show ?thesis by simp
  next
    case (Some slot)
    with p have s1: "s1 = s" "view = View s" "get_slot s (View s) sn = Some slot" "\<not> Committed slot" by auto
    let ?slot = "slot\<lparr>PrepareDigests := AList.update from digest (PrepareDigests slot)\<rparr>"
    have "slot_inv H auth (seg_Membership seg) (outputEvents s) (View s) sn ?slot"
      using slot_inv_add_prepare [OF _ False] a pbft_invD(2) [OF inv s1(3)] s1(2) by blast
    then have "pbft_inv H auth base seg (put_slot (View s) sn ?slot s)"
      using s1(3) by (intro pbft_inv_put_slot [OF inv]) simp_all
    with rest Some s1 inv advanceSlotState_inv [of H auth base seg "put_slot (View s) sn ?slot s" sn ?slot p s']
    show ?thesis by (auto split: if_splits)
  qed
qed

lemma applyMsgCommit_inv:
  assumes inv: "pbft_inv H auth base seg s" and a: "auth from (MsgCommit sn view digest)"
    and app: "applyMsgCommit p sn view digest from s = Inr s'"
  shows "pbft_inv H auth base seg s' \<and> View s' = View s"
proof (cases "digest = None")
  case True
  with app inv show ?thesis by (simp add: applyMsgCommit_def)
next
  case False
  with app obtain s1 mslot where pre: "preprocessMessage p sn view (MsgCommit sn view digest) from s = Inr (s1, mslot)"
    and rest: "(case mslot of None \<Rightarrow> Inr s1 | Some slot \<Rightarrow>
        if mhas (CommitDigests slot) from then Inr s1
        else advanceSlotState p sn (put_slot (View s1) sn
          (slot\<lparr>CommitDigests := AList.update from digest (CommitDigests slot)\<rparr>) s1)) = Inr s'"
    by (auto simp: applyMsgCommit_def rbind_eq_Inr simp del: not_None_eq)
  note p = preprocessMessage_inv [OF inv _ pre] a
  show ?thesis
  proof (cases mslot)
    case None
    with rest p show ?thesis by simp
  next
    case (Some slot)
    with p have s1: "s1 = s" "view = View s" "get_slot s (View s) sn = Some slot" "\<not> Committed slot" by auto
    let ?slot = "slot\<lparr>CommitDigests := AList.update from digest (CommitDigests slot)\<rparr>"
    have "slot_inv H auth (seg_Membership seg) (outputEvents s) (View s) sn ?slot"
      using slot_inv_add_commit [OF _ False] a pbft_invD(2) [OF inv s1(3)] s1(2) by blast
    then have "pbft_inv H auth base seg (put_slot (View s) sn ?slot s)"
      using s1(3) by (intro pbft_inv_put_slot [OF inv]) simp_all
    with rest Some s1 inv advanceSlotState_inv [of H auth base seg "put_slot (View s) sn ?slot s" sn ?slot p s']
    show ?thesis by (auto split: if_splits)
  qed
qed

lemma accept_inv:
  assumes inv: "pbft_inv H auth base seg s" and slot: "get_slot s (View s) sn = Some slot"
    and new: "\<not> Committed slot" "slot_Preprepare slot = None" and pp: "pp_View pp = View s" "pp_Sn pp = sn"
  shows "pbft_inv H auth base seg (emit (HashRequestOne (SerializePreprepareForHashing pp) (CtxPreprepare pp))
           (put_slot (View s) sn (slot\<lparr>slot_Preprepare := Some pp\<rparr>) s))" (is "pbft_inv _ _ _ _ ?s")
proof -
  let ?outs = "outputEvents s @ [HashRequestOne (SerializePreprepareForHashing pp) (CtxPreprepare pp)]"
  have sinv: "slot_inv H auth (seg_Membership seg) (outputEvents s) (View s) sn slot"
    using pbft_invD(2) [OF inv slot] by blast
  then have none: "\<not> accepted (outputEvents s) (View s) sn q" for q
    using new by (simp add: slot_inv_def slot_digests_def)
  have acc: "accepted ?outs v k q \<longleftrightarrow> (if v = View s \<and> k = sn then q = pp else accepted (outputEvents s) v k q)" for v k q
    using none pp by (auto simp: accepted_append)
  have new_slot: "slot_inv H auth (seg_Membership seg) ?outs (View s) sn (slot\<lparr>slot_Preprepare := Some pp\<rparr>)"
    using sinv new none by (auto simp: slot_inv_def slot_struct_def slot_votes_def slot_digests_def acc)
  show ?thesis
  proof (rule pbft_invI, goal_cases)
    case (2 v k slot')
    show ?case
    proof (cases "v = View s \<and> k = sn")
      case True
      with 2 new_slot show ?thesis by simp
    next
      case False
      with 2 have "get_slot s v k = Some slot'" by (auto split: if_splits)
      from pbft_invD(2) [OF inv this] show ?thesis using False by (auto simp: acc elim!: slot_inv_mono)
    qed
  next
    case (3 v k q)
    then show ?case using pbft_invD(3) [OF inv, of v k q] slot by (auto simp: acc split: if_splits)
  next
    case (4 v k q q')
    then show ?case using pbft_invD(4) [OF inv, of v k q q'] by (auto simp: acc split: if_splits)
  next
    case (5 data ctx)
    then show ?case using pbft_invD(5) [OF inv, of data ctx] by auto
  next
    case (6 msg)
    then have "sent_ok H auth (seg_Membership seg) (outputEvents s) msg" using pbft_invD(6) [OF inv] by simp
    then show ?case by (rule sent_ok_mono) (auto simp: accepted_append)
  next
    case (7 k data ab ldr self)
    then have "delivery_ok H auth (seg_Membership seg) (outputEvents s) k data ab"
      using pbft_invD(7) [OF inv, of k data ab ldr self] by simp
    then show ?case by (rule delivery_ok_mono) auto
  next
    case (8 n mb msg)
    then show ?case using pbft_invD(8) [OF inv, of n mb msg] by simp
  qed (use pbft_invD(1,9) [OF inv] in auto)
qed

lemma ApplyMsgPreprepareValidated_inv:
  assumes inv: "pbft_inv H auth base seg s" and app: "ApplyMsgPreprepareValidated p pp from valid s = Inr s'"
  shows "pbft_inv H auth base seg s'"
proof (cases valid)
  case True
  with app obtain s1 mslot where pre: "preprocessMessage p (pp_Sn pp) (pp_View pp) (MsgPreprepare pp) from s = Inr (s1, mslot)"
    and rest: "(case mslot of None \<Rightarrow> Inr s1 | Some slot \<Rightarrow>
        if slot_Preprepare slot \<noteq> None then Inr s1
        else rbind (PrimaryNode (st_Segment s1) (View s1)) (\<lambda>primary. if from \<noteq> primary then Inr s1
          else Inr (emit (HashRequestOne (SerializePreprepareForHashing pp) (CtxPreprepare pp))
                 (put_slot (View s1) (pp_Sn pp) (slot\<lparr>slot_Preprepare := Some pp\<rparr>) s1)))) = Inr s'"
    by (auto simp: ApplyMsgPreprepareValidated_def rbind_eq_Inr simp del: not_None_eq)
  note pre' = preprocessMessage_inv [OF inv _ pre, simplified]
  show ?thesis
  proof (cases mslot)
    case None
    with rest pre' show ?thesis by simp
  next
    case (Some slot)
    with pre' have s1: "s1 = s" "pp_View pp = View s" "get_slot s (View s) (pp_Sn pp) = Some slot" "\<not> Committed slot"
      by auto
    with rest Some inv accept_inv [OF inv s1(3,4) _ s1(2) refl] show ?thesis
      by (auto simp: rbind_eq_Inr split: if_splits)
  qed
qed (use app inv in \<open>simp add: ApplyMsgPreprepareValidated_def\<close>)

lemma slot_inv_hashed:
  assumes "slot_inv H auth m outs v sn slot" "accepted outs v sn pp" "d = digest_of H pp"
    and uniq: "\<And>pp'. accepted outs v sn pp' \<Longrightarrow> pp' = pp"
  shows "slot_inv H auth m outs v sn (slot\<lparr>slot_Digest := Some d, Preprepared := True\<rparr>)"
    "Committed slot \<Longrightarrow> Prepared slot"
proof -
  have acc: "accepted outs v sn = (\<lambda>q. q = pp)" using assms(2) uniq by blast
  have dig: "slot_digests H (\<lambda>q. q = pp) slot" and rest: "slot_struct m slot" "slot_votes auth v sn slot"
    using assms(1) by (simp_all add: slot_inv_def acc)
  from dig show "Committed slot \<Longrightarrow> Prepared slot" by (auto simp: slot_digests_def)
  have "slot_Preprepare slot = Some pp" if "\<not> Committed slot"
    using dig that by (cases "slot_Preprepare slot") (simp_all add: slot_digests_def)
  with dig have "slot_digests H (\<lambda>q. q = pp) (slot\<lparr>slot_Digest := Some d, Preprepared := True\<rparr>)"
    by (simp add: slot_digests_def assms(3))
  with rest show "slot_inv H auth m outs v sn (slot\<lparr>slot_Digest := Some d, Preprepared := True\<rparr>)"
    by (simp add: slot_inv_def acc slot_struct_def slot_votes_def)
qed

lemma UponPreprepareHash_inv:
  assumes inv: "pbft_inv H auth base seg s" and req: "HashRequestOne data (CtxPreprepare pp) \<in> set (outputEvents s)"
    and app: "UponPreprepareHash p (Some (H data)) pp s = Inr s'"
  shows "pbft_inv H auth base seg s'"
proof (cases "pp_View pp < View s")
  case True
  with app inv show ?thesis by (simp add: UponPreprepareHash_def)
next
  case False
  let ?sn = "pp_Sn pp" and ?outs = "outputEvents s"
  have data: "data = SerializePreprepareForHashing pp" using pbft_invD(5) [OF inv req] by simp
  then have acc: "accepted ?outs (pp_View pp) ?sn pp" using req by (simp add: accepted_def)
  then have v: "pp_View pp = View s" using pbft_invD(3) [OF inv acc] False by simp
  obtain slot where slot: "get_slot s (View s) ?sn = Some slot" using pbft_invD(3) [OF inv acc] v by auto
  let ?slot = "slot\<lparr>slot_Digest := Some (H data), Preprepared := True\<rparr>"
  have sinv: "slot_inv H auth (seg_Membership seg) ?outs (View s) ?sn ?slot" "Committed slot \<Longrightarrow> Prepared slot"
    using slot_inv_hashed [of H auth "seg_Membership seg" ?outs "View s" ?sn slot pp "H data"]
      pbft_invD(2) [OF inv slot] acc v data pbft_invD(4) [OF inv _ acc [unfolded v]]
    by (auto simp: digest_of_def)
  let ?s1 = "put_slot (View s) ?sn ?slot s"
  let ?s2 = "emit (SendMessage (MsgPrepare ?sn (View s) (Some (H data))) (NodeIDs (st_Segment s))) ?s1"
  have "pbft_inv H auth base seg ?s1" using slot sinv(1) by (intro pbft_inv_put_slot [OF inv]) simp_all
  then have "pbft_inv H auth base seg ?s2"
    using acc v data by (intro pbft_inv_emit) (auto simp: digest_of_def)
  moreover have "advanceSlotState p ?sn ?s2 = Inr s'"
    using app False slot by (simp add: UponPreprepareHash_def)
  ultimately show ?thesis using advanceSlotState_inv [of H auth base seg ?s2 ?sn ?slot p s'] sinv(2) by simp
qed

lemma UponCatchUpHash_inv:
  assumes inv: "pbft_inv H auth base seg s" and req: "HashRequestOne data (CtxCatchUpResponse pp) \<in> set (outputEvents s)"
    and app: "UponCatchUpHash p digest pp s = Inr s'"
  shows "pbft_inv H auth base seg s'"
proof -
  let ?sn = "pp_Sn pp"
  from app obtain slot where slot: "get_slot s (View s) ?sn = Some slot"
    by (auto simp: UponCatchUpHash_def split: option.splits)
  let ?pp = "pp\<lparr>pp_View := View s\<rparr>"
  let ?s1 = "put_slot (View s) ?sn (slot_CatchUp slot ?pp digest) s"
  from app slot consider "s' = s"
    | "s' = emit (SBDeliver ?sn (pp_Data ?pp) (pp_Aborted ?pp) (seg_Leader (st_Segment s)) (Self p)) (finish_if_done p ?s1)"
    by (auto simp: UponCatchUpHash_def Let_def split: if_splits option.splits)
  then show ?thesis
  proof cases
    case 2
    have "slot_inv H auth (seg_Membership seg) (outputEvents s) (View s) ?sn (slot_CatchUp slot ?pp digest)"
      using pbft_invD(2) [OF inv slot]
      by (simp add: slot_CatchUp_def slot_inv_def slot_struct_def slot_votes_def slot_digests_def)
    then have inv1: "pbft_inv H auth base seg ?s1" using slot by (intro pbft_inv_put_slot [OF inv]) simp_all
    have "HashRequestOne (SerializePreprepareForHashing pp) (CtxCatchUpResponse pp) \<in> set (outputEvents (finish_if_done p ?s1))"
      using req pbft_invD(5) [OF inv req] finish_if_done_simps(5) [THEN subsetD, of _ ?s1 p] by simp
    then have "delivery_ok H auth (seg_Membership seg) (outputEvents (finish_if_done p ?s1)) ?sn (pp_Data ?pp) (pp_Aborted ?pp)"
      unfolding delivery_ok_def by auto
    then show ?thesis unfolding 2 by (intro deliver_inv finish_if_done_inv inv1)
  qed (use inv in simp)
qed

section \<open>Entering a view\<close>

lemma init_slot_inv:
  assumes "init_slot m prev view slot" "\<And>pp. \<not> accepted outs view sn pp"
  shows "slot_inv H auth m outs view sn slot"
  using assms
  by (auto simp: init_slot_def slot_inv_def slot_struct_def slot_votes_def slot_digests_def NewPbftSlot_def)

lemma new_view_inv:
  assumes inv: "pbft_inv H auth base seg s" and view: "View s \<le> view"
    and fresh: "\<And>sn pp. \<not> accepted (outputEvents s) view sn pp"
    and slots: "InitView_slots s view sns [] = Inr slots"
  shows "pbft_inv H auth base seg (s\<lparr>Slots := AList.update view slots (Slots s), View := view\<rparr>)" (is "pbft_inv _ _ _ _ ?s")
proof -
  have gs: "get_slot ?s v sn = (if v = view then map_of slots sn else get_slot s v sn)" for v sn
    by (simp add: get_slot_def slots_of_def)
  show ?thesis
  proof (rule pbft_invI, goal_cases)
    case (2 v sn slot)
    show ?case
    proof (cases "v = view")
      case True
      with 2 have "map_of slots sn = Some slot" by (simp add: gs)
      with InitView_slots_init [OF slots] have "init_slot (seg_Membership (st_Segment s)) (get_slot s (View s) sn) view slot"
        by simp
      with init_slot_inv fresh True pbft_invD(1) [OF inv] show ?thesis by auto
    next
      case False
      with 2 pbft_invD(2) [OF inv, of v sn slot] view show ?thesis by (auto simp: gs)
    qed
  next
    case (3 v sn pp)
    then have "v \<noteq> view" using fresh by auto
    with 3 pbft_invD(3) [OF inv, of v sn pp] view show ?case by (auto simp: gs)
  next
    case (4 v sn pp pp')
    then show ?case using pbft_invD(4) [OF inv, of v sn pp pp'] by simp
  next
    case (5 data ctx)
    then show ?case using pbft_invD(5) [OF inv, of data ctx] by simp
  next
    case (6 msg)
    then show ?case using pbft_invD(6) [OF inv, of msg] by simp
  next
    case (7 sn data ab ldr self)
    then show ?case using pbft_invD(7) [OF inv, of sn data ab ldr self] by simp
  next
    case (8 n mb msg)
    then show ?case using pbft_invD(8) [OF inv, of n mb msg] by simp
  qed (use pbft_invD(1,9) [OF inv] in auto)
qed

lemma emit_View: "(emit e s)\<lparr>View := v\<rparr> = emit e (s\<lparr>View := v\<rparr>)"
  by (simp add: emit_def)

lemma InitView_inv:
  assumes inv: "pbft_inv H auth base seg s" and iv: "InitView p view s = Inr s'"
    and fresh: "view = 0 \<Longrightarrow> (\<And>sn pp. \<not> accepted (outputEvents s) view sn pp)"
  shows "pbft_inv H auth base seg s' \<and> View s' = view"
proof (cases "view \<noteq> 0 \<and> view = View s")
  case True
  then have "s' = s" using iv by (auto simp: InitView_def)
  with inv True show ?thesis by simp
next
  case False
  let ?s1 = "\<lambda>slots. s\<lparr>Slots := AList.update view slots (Slots s)\<rparr>"
  from iv False obtain slots where slots: "InitView_slots s view (SeqNrs (st_Segment s)) [] = Inr slots"
    and le: "\<not> view < View s"
    and s': "s' = emit (TimerDelay (computeTimeout (cfg_ViewChangeSegmentTimeout (Config p)) view) (ViewChangeSegTimeout view))
      (emit (TimerDelay (computeTimeout (cfg_ViewChangeSNTimeout (Config p)) view)
          (ViewChangeSNTimeout view (of_nat (NumCommitted (?s1 slots) view))))
        (s\<lparr>Slots := AList.update view slots (Slots s), View := view\<rparr>))"
    by (auto simp: InitView_def rbind_eq_Inr Let_def emit_View simp del: not_less split: if_splits)
  from le have le: "View s \<le> view" by simp
  have "\<not> accepted (outputEvents s) view sn pp" for sn pp
  proof (cases "view = 0")
    case False
    with \<open>\<not> (view \<noteq> 0 \<and> view = View s)\<close> le have "\<not> view \<le> View s" by auto
    then show ?thesis using pbft_invD(3) [OF inv, of view sn pp] by blast
  qed (use fresh in auto)
  from new_view_inv [OF inv le this slots] show ?thesis
    unfolding s' by (simp add: pbft_inv_emit_quiet)
qed

section \<open>The other handlers\<close>

lemma quiet_foldr:
  "pbft_inv H auth base seg s \<Longrightarrow> pbft_inv H auth base seg (fold (\<lambda>pp s. ApplyMsgPreprepare pp primary s) pps s)"
  by (induction pps arbitrary: s) (simp_all add: ApplyMsgPreprepare_def pbft_inv_emit_quiet)

lemma propose_inv: "pbft_inv H auth base seg s \<Longrightarrow> propose p data s = Inr s' \<Longrightarrow> pbft_inv H auth base seg s'"
  by (auto simp: propose_def rbind_eq_Inr Let_def intro!: pbft_inv_emit_quiet)

lemma UponNewCert_inv: "pbft_inv H auth base seg s \<Longrightarrow> UponNewCert p cert s = Inr s' \<Longrightarrow> pbft_inv H auth base seg s'"
  by (auto simp: UponNewCert_def rbind_eq_Inr Let_def split: if_splits elim!: propose_inv [rotated])

lemma applyProposeTimeout_inv:
  assumes inv: "pbft_inv H auth base seg s" and app: "applyProposeTimeout p n s = Inr s'"
  shows "pbft_inv H auth base seg s'"
proof -
  let ?s = "s\<lparr>Proposal := (Proposal s)\<lparr>ProposalTimeoutNr := n\<rparr>\<rparr>"
  have inv': "pbft_inv H auth base seg ?s" using inv by simp
  have req: "pbft_inv H auth base seg (requestNewCert ?s)"
    using inv by (simp add: requestNewCert_def pbft_inv_emit_quiet)
  show ?thesis
  proof (cases "n > ProposalTimeoutNr (Proposal s) \<and> canPropose p ?s")
    case True
    with app obtain sn where c: "(case map_of (seg_Proposals (st_Segment s)) sn of
        Some (Some proposal) \<Rightarrow> propose p (Some proposal) ?s | _ \<Rightarrow> Inr (requestNewCert ?s)) = Inr s'"
      by (auto simp: applyProposeTimeout_def rbind_eq_Inr Let_def)
    show ?thesis
    proof (cases "map_of (seg_Proposals (st_Segment s)) sn")
      case (Some mdata)
      with c req propose_inv [OF inv'] show ?thesis by (cases mdata) auto
    qed (use c req in simp)
  next
    case False
    with app inv show ?thesis by (auto simp: applyProposeTimeout_def Let_def split: if_splits)
  qed
qed

text \<open>A state threaded through a sorted iteration keeps what each call of the closure keeps.\<close>

lemma IterateSorted_inv:
  assumes "\<And>k v r. P r \<Longrightarrow> P (snd (f k v r))" "P r"
  shows "P (IterateSorted m f r)"
proof -
  have "P (IterateSorted_loop m f ks r)" if "P r" for ks r
    using that
  proof (induction ks arbitrary: r)
    case (Cons k ks)
    show ?case
    proof (cases "map_of m k")
      case None
      with Cons show ?thesis by simp
    next
      case (Some v)
      obtain b r' where f: "f k v r = (b, r')" by (cases "f k v r")
      with assms(1) [OF Cons.prems, of k v] have "P r'" by simp
      with Cons.IH Some f show ?thesis by (cases b) auto
    qed
  qed simp
  with assms(2) show ?thesis by (simp add: IterateSorted_def)
qed

lemma catchUpRequests_shape:
  assumes "catchUpRequests s ns ds = Inr reqs"
  shows "\<forall>e \<in> set reqs. \<exists>d sn. e = SendMessage (MsgCatchUpRequest d sn) ns"
proof -
  let ?P = "\<lambda>r. case r of Inl _ \<Rightarrow> True | Inr reqs \<Rightarrow> \<forall>e \<in> set reqs. \<exists>d sn. e = SendMessage (MsgCatchUpRequest d sn) ns"
  have "?P (catchUpRequests s ns ds)"
    unfolding catchUpRequests_def by (rule IterateSorted_inv) (auto split: sum.splits option.splits)
  with assms show ?thesis by simp
qed

lemma applyMsgDone_inv:
  assumes inv: "pbft_inv H auth base seg s" and app: "applyMsgDone p ds from s = Inr s'"
  shows "pbft_inv H auth base seg s'"
proof -
  obtain chkp where chkp: "NodeDone (SegmentCheckpoint s) from ds (st_Segment s) = Inr chkp"
    using app by (auto simp: applyMsgDone_def rbind_eq_Inr)
  from app chkp consider "s' = s\<lparr>SegmentCheckpoint := chkp\<rparr>"
    | c ns dgs reqs d r where "catchUpRequests (s\<lparr>SegmentCheckpoint := c\<rparr>) ns dgs = Inr reqs"
        "s' = emit (TimerDelay d (TimerRepeat d r reqs)) (s\<lparr>SegmentCheckpoint := c\<rparr>)"
    by (auto simp: applyMsgDone_def rbind_eq_Inr Let_def split: option.splits if_splits)
  then show ?thesis
  proof cases
    case 2
    have "list_all (\<lambda>m. \<not> is_vote m) (out_msgs (TimerRepeat d r reqs))"
      using catchUpRequests_shape [OF 2(1)] by (auto simp: list_all_iff)
    then have "quiet (TimerDelay d (TimerRepeat d r reqs))" by simp
    with inv show ?thesis unfolding 2(2) by (intro pbft_inv_emit_quiet) simp_all
  qed (use inv in simp)
qed

lemma startViewChange_inv:
  assumes inv: "pbft_inv H auth base seg s" and app: "startViewChange p s = Inr s'"
  shows "pbft_inv H auth base seg s'"
proof -
  from app obtain s1 vc data where iv: "InitView p (View s + 1) (s\<lparr>InViewChange := True\<rparr>) = Inr s1"
    and s': "s' = emit (SignRequest data vc) s1"
    by (auto simp: startViewChange_def rbind_eq_Inr Let_def)
  have "View s + 1 \<noteq> 0"
  proof
    assume wrap: "View s + 1 = 0"
    then have "0 < View s" by (cases "View s = 0") (simp_all add: word_neq_0_conv)
    with iv wrap show False by (simp add: InitView_def)
  qed
  then have "pbft_inv H auth base seg s1" using inv InitView_inv [OF _ iv, of H auth base seg] by simp
  then show ?thesis unfolding s' by (simp add: pbft_inv_emit_quiet)
qed

lemma timeouts_inv:
  assumes "pbft_inv H auth base seg s"
  shows "applyViewChangeSNTimeout p v n s = Inr s' \<Longrightarrow> pbft_inv H auth base seg s'"
    and "applyViewChangeSegmentTimeout p v s = Inr s' \<Longrightarrow> pbft_inv H auth base seg s'"
  using assms startViewChange_inv [OF assms, of p s']
  by (auto simp: applyViewChangeSNTimeout_def applyViewChangeSegmentTimeout_def rbind_eq_Inr split: if_splits)

lemma put_vcstate_inv [simp]: "pbft_inv H auth base seg (put_vcstate view vcs s) = pbft_inv H auth base seg s"
  by (simp add: put_vcstate_def)

lemma sendNewView_inv: "pbft_inv H auth base seg s \<Longrightarrow> pbft_inv H auth base seg (sendNewView view vcs s)"
  by (simp add: sendNewView_def pbft_inv_emit_quiet split: prod.splits)

lemma askForMissingPreprepares_inv:
  "pbft_inv H auth base seg s \<Longrightarrow> pbft_inv H auth base seg (askForMissingPreprepares vcs s)"
proof -
  have "pbft_inv H auth base seg s \<Longrightarrow> pbft_inv H auth base seg (askForMissingPreprepares_loop vcs rs s)" for rs s
    by (induction vcs rs s rule: askForMissingPreprepares_loop.induct) (simp_all add: pbft_inv_emit_quiet)
  then show "pbft_inv H auth base seg s \<Longrightarrow> ?thesis" by (simp add: askForMissingPreprepares_def)
qed

lemma applyVerifiedViewChange_inv:
  assumes inv: "pbft_inv H auth base seg s" and app: "applyVerifiedViewChange p svc from s = Inr s'"
  shows "pbft_inv H auth base seg s'"
proof -
  from app obtain vc where vc: "svc_ViewChange svc = Some vc"
    by (auto simp: applyVerifiedViewChange_def split: option.splits)
  obtain s1 vcs where g: "getViewChangeState (vc_View vc) s = (s1, vcs)" by fastforce
  then have inv1: "pbft_inv H auth base seg s1"
    using inv by (auto simp: getViewChangeState_def Let_def split: option.splits)
  show ?thesis
  proof (cases "vc_View vc < View s \<or> EnoughViewChanges vcs")
    case True
    with app vc g inv inv1 show ?thesis
      by (auto simp: applyVerifiedViewChange_def rbind_eq_Inr split: if_splits)
  next
    case False
    with app vc g consider "s' = s" | vcs1 where "s' = put_vcstate (vc_View vc) vcs1 s1"
      | vcs1 data where "s' = emit (HashRequest data (CtxEmptyPreprepares (vc_View vc))) (put_vcstate (vc_View vc) vcs1 s1)"
      by (auto simp: applyVerifiedViewChange_def rbind_eq_Inr case_prod_unfold Let_def split: if_splits)
    then show ?thesis by cases (use inv inv1 in \<open>simp_all add: pbft_inv_emit_quiet\<close>)
  qed
qed

lemma view_change_quiet_inv:
  assumes "pbft_inv H auth base seg s"
  shows "UponSignResult p sig vc s = Inr s' \<Longrightarrow> pbft_inv H auth base seg s'"
    and "pbft_inv H auth base seg (applyMsgSignedViewChange svc from s)"
    and "pbft_inv H auth base seg (applyMsgPreprepareRequest digest sn from s)"
    and "pbft_inv H auth base seg (applyMsgCatchUpRequest digest sn from s)"
    and "pbft_inv H auth base seg (applyMsgCatchUpResponse resp s)"
    and "applyMsgMissingPreprepare mpp s = Inr s' \<Longrightarrow> pbft_inv H auth base seg s'"
    and "applyMsgNewView nv from s = Inr s' \<Longrightarrow> pbft_inv H auth base seg s'"
    and "pbft_inv H auth base seg (UponSigsVerified p ns b nv s)"
  using assms
  by (auto simp: UponSignResult_def applyMsgSignedViewChange_def applyMsgPreprepareRequest_def applyMsgCatchUpRequest_def
      applyMsgCatchUpResponse_def applyMsgMissingPreprepare_def applyMsgNewView_def UponSigsVerified_def rbind_eq_Inr
      split: option.splits sum.splits if_splits prod.splits intro!: pbft_inv_emit_quiet)

lemma UponEmptyPreprepareHashes_inv:
  "pbft_inv H auth base seg s \<Longrightarrow> UponEmptyPreprepareHashes ds v s = Inr s' \<Longrightarrow> pbft_inv H auth base seg s'"
  by (auto simp: UponEmptyPreprepareHashes_def rbind_eq_Inr Let_def sendNewView_inv askForMissingPreprepares_inv
      split: option.splits if_splits)

lemma UponMissingPreprepareHash_inv:
  "pbft_inv H auth base seg s \<Longrightarrow> UponMissingPreprepareHash d pp s = Inr s' \<Longrightarrow> pbft_inv H auth base seg s'"
  by (auto simp: UponMissingPreprepareHash_def Let_def sendNewView_inv split: option.splits if_splits prod.splits)

section \<open>Entering a new view and applying buffered messages\<close>

lemma ApplyBufferedMsg_inv:
  assumes inv: "pbft_inv H auth base seg s" and a: "is_vote msg \<Longrightarrow> auth from msg"
    and app: "ApplyBufferedMsg p msg from s = Inr s'"
  shows "pbft_inv H auth base seg s'"
  using inv a app applyMsgPrepare_inv [OF inv] applyMsgCommit_inv [OF inv]
  by (cases msg) (auto simp: ApplyBufferedMsg_def ApplyMsgPreprepare_def intro!: pbft_inv_emit_quiet)

lemma apply_buffered_inv:
  "pbft_inv H auth base seg s \<Longrightarrow> apply_buffered p froms s = Inr s' \<Longrightarrow> pbft_inv H auth base seg s'"
proof (induction froms arbitrary: s)
  case (Cons n froms)
  show ?case
  proof (cases "map_of (MessageBuffers s) n")
    case None
    with Cons show ?thesis by simp
  next
    case (Some mb)
    with Cons.prems(2) obtain mb' s1 where it: "MessageBuffer_Iterate (proto_Size p) buffer_filter
        (\<lambda>s msg. ApplyBufferedMsg p msg n s) mb s = Inr (mb', s1)"
      and rest: "apply_buffered p froms (s1\<lparr>MessageBuffers := AList.update n mb' (MessageBuffers s1)\<rparr>) = Inr s'"
      by (auto simp: rbind_eq_Inr)
    have auth: "auth n msg" if "msg \<in> set (mb_messages mb)" "is_vote msg" for msg
      by (rule pbft_invD(8) [OF Cons.prems(1) Some that])
    have "pbft_inv H auth base seg s1 \<and> set (mb_messages mb') \<subseteq> set (mb_messages mb)"
      by (rule Iterate_inv [where I = "pbft_inv H auth base seg", OF _ Cons.prems(1) it])
         (use auth ApplyBufferedMsg_inv in blast)
    then show ?thesis
      using auth by (intro Cons.IH [OF _ rest] pbft_inv_buffers) auto
  qed
qed simp

lemma UponNewViewHashes_inv:
  assumes inv: "pbft_inv H auth base seg s" and nz: "nv_View nv \<noteq> 0"
    and app: "UponNewViewHashes p ds nv s = Inr s'"
  shows "pbft_inv H auth base seg s'"
proof -
  from app consider "s' = s"
    | s1 primary where "InitView p (nv_View nv) s = Inr s1"
        "apply_buffered p (map fst (MessageBuffers (fold (\<lambda>pp s. ApplyMsgPreprepare pp primary s) (nv_Preprepares nv) (s1\<lparr>InViewChange := False\<rparr>))))
           (fold (\<lambda>pp s. ApplyMsgPreprepare pp primary s) (nv_Preprepares nv) (s1\<lparr>InViewChange := False\<rparr>)) = Inr s'"
    by (auto simp: UponNewViewHashes_def rbind_eq_Inr Let_def split: if_splits)
  then show ?thesis
  proof cases
    case 2
    then have "pbft_inv H auth base seg s1" using InitView_inv [OF inv 2(1)] nz by simp
    then show ?thesis using apply_buffered_inv [OF quiet_foldr 2(2)] by simp
  qed (use inv in simp)
qed

section \<open>Events of an instance\<close>

text \<open>
  What the environment of an instance guarantees: \<open>Init\<close> is not repeated, a hash result answers
  a request of the module, and a vote that is delivered is authentic. A NewView message for
  view 0 is excluded: \<open>InitView\<close> would re-initialise the slots of view 0.
\<close>

fun env_ok :: "(bytes list \<Rightarrow> bytes) \<Rightarrow> (NodeID \<Rightarrow> PbftMessage \<Rightarrow> bool) \<Rightarrow> PbftState \<Rightarrow> PbftInput \<Rightarrow> bool" where
  "env_ok H auth s InInit = False"
| "env_ok H auth s (InHashOne digest ctx) =
     (\<exists>data. HashRequestOne data ctx \<in> set (outputEvents s) \<and> digest = Some (H data))"
| "env_ok H auth s (InHash digests (CtxNewView nv)) = (nv_View nv \<noteq> 0)"
| "env_ok H auth s (InMessage from msg) = (is_vote msg \<longrightarrow> auth from msg)"
| "env_ok H auth s _ = True"

lemma upon_message_inv:
  assumes inv: "pbft_inv H auth base seg s" and a: "is_vote msg \<Longrightarrow> auth from msg"
    and app: "upon_message p from msg s = Inr s'"
  shows "pbft_inv H auth base seg s'"
proof (cases "from \<in> set (cfg_Membership (Config p))")
  case True
  note quiet_inv = view_change_quiet_inv [OF inv]
  show ?thesis
  proof (cases msg)
    case (MsgPreprepare pp)
    with app True inv show ?thesis
      by (auto simp: upon_message_def ApplyMsgPreprepare_def intro!: pbft_inv_emit_quiet)
  qed (use app True inv a quiet_inv applyMsgPrepare_inv [OF inv] applyMsgCommit_inv [OF inv] applyMsgDone_inv [OF inv]
       in \<open>auto simp: upon_message_def split: if_splits\<close>)
qed (use app inv in \<open>simp add: upon_message_def\<close>)

lemma ApplyEvent_inv:
  assumes inv: "pbft_inv H auth base seg s" and env: "env_ok H auth s ev" and app: "ApplyEvent p ev s = Inr s'"
  shows "pbft_inv H auth base seg s'"
proof (cases ev)
  case (InHashOne digest ctx)
  with env obtain data where "HashRequestOne data ctx \<in> set (outputEvents s)" "digest = Some (H data)" by auto
  with InHashOne app UponPreprepareHash_inv [OF inv] UponCatchUpHash_inv [OF inv] UponMissingPreprepareHash_inv [OF inv]
  show ?thesis by (cases ctx) auto
next
  case (InHash digests ctx)
  with app env UponEmptyPreprepareHashes_inv [OF inv] UponNewViewHashes_inv [OF inv] show ?thesis by (cases ctx) auto
next
  case (InSigVerified n b svc)
  with app inv applyVerifiedViewChange_inv [OF inv] show ?thesis by (auto split: if_splits)
next
  case (InMessage n msg)
  with app env upon_message_inv [OF inv] show ?thesis by auto
next
  case (InPreprepareValidated b pp n)
  with app ApplyMsgPreprepareValidated_inv [OF inv] show ?thesis by auto
qed (use app env UponNewCert_inv [OF inv] applyProposeTimeout_inv [OF inv] view_change_quiet_inv [OF inv]
     timeouts_inv [OF inv] in auto)

lemma NewBuffers_empty: "map_of (NewBuffers ns c) n = Some mb \<Longrightarrow> mb_messages mb = []"
proof -
  have "\<forall>n mb. map_of bs n = Some mb \<longrightarrow> mb_messages mb = [] \<Longrightarrow>
      map_of (NewBuffers_loop ns c l bs) n = Some mb \<Longrightarrow> mb_messages mb = []" for l bs
    by (induction ns c l bs rule: NewBuffers_loop.induct) (auto simp: MessageBuffer_New_def split: if_splits)
  from this [of "[]" "int (length ns)"] show "map_of (NewBuffers ns c) n = Some mb \<Longrightarrow> mb_messages mb = []"
    by (simp add: NewBuffers_def)
qed

lemma NewOrdererModule_inv: "pbft_inv H auth [] seg (NewOrdererModule seg p)"
  by (rule pbft_invI)
     (auto simp: NewOrdererModule_def get_slot_def slots_of_def accepted_def sent_in_def dest: NewBuffers_empty)

lemma UponInit_inv:
  assumes "UponInit p (NewOrdererModule seg p) = Inr s"
  shows "pbft_inv H auth [] seg s"
proof -
  from assms obtain s1 where s1: "InitView p 0 (NewOrdererModule seg p) = Inr s1"
    and s: "s = emit (TimerDelay (cfg_MaxProposeDelay (Config p)) (ProposeTimeout 1)) s1"
    by (auto simp: UponInit_def rbind_eq_Inr)
  have "pbft_inv H auth [] seg s1"
    using InitView_inv [OF NewOrdererModule_inv s1] by (simp add: accepted_def NewOrdererModule_def)
  then show ?thesis unfolding s by (simp add: pbft_inv_emit_quiet)
qed

lemma pbft_inv_base:
  assumes "pbft_inv H auth base seg s"
  shows "pbft_inv H auth (outputEvents s) seg s" "pbft_inv H auth [] seg s"
  by (rule pbft_invI; use pbft_invD [OF assms] in simp)+

section \<open>The system of correct nodes\<close>

text \<open>
  A system state gives the instance state of each correct node. A step lets one correct node
  handle one event. Messages of faulty nodes (the set \<open>F\<close>) are unconstrained.
\<close>

definition authentic :: "NodeID set \<Rightarrow> (NodeID \<Rightarrow> PbftState) \<Rightarrow> NodeID \<Rightarrow> PbftMessage \<Rightarrow> bool" where
  "authentic F S n msg \<longleftrightarrow> n \<in> F \<or> sent (S n) msg"

inductive pbft_reachable ::
  "(bytes list \<Rightarrow> bytes) \<Rightarrow> NodeID set \<Rightarrow> Segment \<Rightarrow> (NodeID \<Rightarrow> PbftParams) \<Rightarrow> (NodeID \<Rightarrow> PbftState) \<Rightarrow> bool"
  for H F seg ps where
  start: "(\<And>n. n \<notin> F \<Longrightarrow> UponInit (ps n) (NewOrdererModule seg (ps n)) = Inr (S n)) \<Longrightarrow>
            pbft_reachable H F seg ps S"
| event: "pbft_reachable H F seg ps S \<Longrightarrow> n \<notin> F \<Longrightarrow> env_ok H (authentic F S) (S n) ev \<Longrightarrow>
            ApplyEvent (ps n) ev (S n) = Inr s' \<Longrightarrow> pbft_reachable H F seg ps (S(n := s'))"

lemma pbft_reachable_inv:
  "pbft_reachable H F seg ps S \<Longrightarrow> n \<notin> F \<Longrightarrow> pbft_inv H (authentic F S) [] seg (S n)"
proof (induction arbitrary: n rule: pbft_reachable.induct)
  case (start S)
  then show ?case by (blast intro: UponInit_inv)
next
  case (event S k ev s')
  have "pbft_inv H (authentic F S) (outputEvents (S k)) seg s'"
    by (rule ApplyEvent_inv [OF pbft_inv_base(1) [OF event.IH [OF event.hyps(2)]] event.hyps(3,4)])
  then have grow: "set (outputEvents (S k)) \<subseteq> set (outputEvents s')" and inv: "pbft_inv H (authentic F S) [] seg s'"
    by (rule pbft_invD(9), rule pbft_inv_base(2))
  have mono: "authentic F (S(k := s')) j msg" if "authentic F S j msg" for j msg
    using that grow by (auto simp: authentic_def sent_def sent_in_def)
  show ?case
    by (rule pbft_inv_auth_mono [OF _ mono]) (use inv event.IH event.prems in auto)
qed

text \<open>A correct node votes for one digest only per view and sequence number.\<close>

lemma single_prepare:
  assumes "pbft_inv H auth base seg s" "sent s (MsgPrepare sn v d)" "sent s (MsgPrepare sn v d')"
  shows "bval d = bval d'"
proof -
  have "\<exists>pp. accepted (outputEvents s) v sn pp \<and> bval x = digest_of H pp" if "sent s (MsgPrepare sn v x)" for x
    using pbft_invD(6) [OF assms(1), of "MsgPrepare sn v x"] that by (simp add: sent_def)
  from this [OF assms(2)] this [OF assms(3)] obtain pp pp' where
    "accepted (outputEvents s) v sn pp" "bval d = digest_of H pp"
    "accepted (outputEvents s) v sn pp'" "bval d' = digest_of H pp'" by blast
  with pbft_invD(4) [OF assms(1), of v sn pp pp'] show ?thesis by simp
qed

lemma prepare_certs_agree:
  assumes inv: "\<And>n. n \<notin> F \<Longrightarrow> pbft_inv H (authentic F S) [] seg (S n)"
    and ok: "membership_ok m" "tolerable m F"
    and c1: "prepare_cert (authentic F S) m sn v d1" and c2: "prepare_cert (authentic F S) m sn v d2"
  shows "d1 = d2"
proof -
  let ?voted = "\<lambda>n d. \<exists>d'. sent (S n) (MsgPrepare sn v d') \<and> bval d' = d"
  from c1 obtain Q1 where Q1: "distinct Q1" "HaveStrongQuorum m Q1 = Inr True"
    "\<And>n. n \<in> set Q1 \<Longrightarrow> n \<notin> F \<Longrightarrow> ?voted n d1"
    unfolding prepare_cert_def authentic_def by blast
  from c2 obtain Q2 where Q2: "distinct Q2" "HaveStrongQuorum m Q2 = Inr True"
    "\<And>n. n \<in> set Q2 \<Longrightarrow> n \<notin> F \<Longrightarrow> ?voted n d2"
    unfolding prepare_cert_def authentic_def by blast
  have once: "u = u'" if "n \<notin> F" "?voted n u" "?voted n u'" for n u u'
    using single_prepare [OF inv [OF that(1)]] that(2,3) by blast
  show ?thesis
    by (rule quorum.strong_votes_agree [where voted = ?voted, OF ok Q1(1) Q2(1) Q1(2) Q2(2) Q1(3) Q2(3) once])
qed

lemma pbft_commit_agreement:
  assumes "pbft_reachable H F seg ps S" "membership_ok (seg_Membership seg)" "tolerable (seg_Membership seg) F"
    and "i \<notin> F" "sent (S i) (MsgCommit sn v d1)" and "j \<notin> F" "sent (S j) (MsgCommit sn v d2)"
  shows "bval d1 = bval d2"
proof -
  note inv = pbft_reachable_inv [OF assms(1)]
  have "prepare_cert (authentic F S) (seg_Membership seg) sn v (bval d1)"
    using pbft_invD(6) [OF inv [OF assms(4)], of "MsgCommit sn v d1"] assms(5) by (simp add: sent_def)
  moreover have "prepare_cert (authentic F S) (seg_Membership seg) sn v (bval d2)"
    using pbft_invD(6) [OF inv [OF assms(6)], of "MsgCommit sn v d2"] assms(7) by (simp add: sent_def)
  ultimately show ?thesis using prepare_certs_agree [OF inv assms(2,3)] by blast
qed

lemma pbft_delivery_evidence:
  assumes "pbft_reachable H F seg ps S" "i \<notin> F" "SBDeliver sn data ab ldr self \<in> set (outputEvents (S i))"
  shows "delivery_ok H (authentic F S) (seg_Membership seg) (outputEvents (S i)) sn data ab"
  by (rule pbft_invD(7) [OF pbft_reachable_inv [OF assms(1,2)] assms(3)])

end
