(* ===== verification/PbftProperties.thy ===== *)
theory PbftProperties
  imports PbftSafety
begin

text \<open>
  The properties of the PBFT orderer, and runs of the model they are applied to: an executable
  scheduler that delivers a list of events to the nodes of a system, and a system of four nodes of
  which one may be faulty.
\<close>

section \<open>Runs\<close>

fun exec_ok :: "(bytes list \<Rightarrow> bytes) \<Rightarrow> NodeID list \<Rightarrow> (NodeID \<Rightarrow> PbftState) \<Rightarrow> NodeID \<Rightarrow> PbftInput \<Rightarrow> bool" where
  "exec_ok H F S n InInit = False"
| "exec_ok H F S n (InHashOne digest ctx) =
     list_ex (\<lambda>e. case e of HashRequestOne data ctx' \<Rightarrow> ctx' = ctx \<and> digest = Some (H data) | _ \<Rightarrow> False) (outputEvents (S n))"
| "exec_ok H F S n (InHash digests (CtxNewView nv)) = (nv_View nv \<noteq> 0)"
| "exec_ok H F S n (InMessage from msg) = (is_vote msg \<longrightarrow> from \<in> set F \<or> sent (S from) msg)"
| "exec_ok H F S n _ = True"

lemma exec_ok_env:
  assumes "exec_ok H F S n ev"
  shows "env_ok H (authentic (set F) S) (S n) ev"
proof (cases ev)
  case (InHashOne digest ctx)
  with assms obtain e where e: "e \<in> set (outputEvents (S n))"
      "case e of HashRequestOne data ctx' \<Rightarrow> ctx' = ctx \<and> digest = Some (H data) | _ \<Rightarrow> False"
    by (auto simp: list_ex_iff)
  from e(2) obtain data where "e = HashRequestOne data ctx" "digest = Some (H data)"
    by (simp split: PbftOut.splits)
  with e(1) show ?thesis by (auto simp: InHashOne)
next
  case (InHash digests ctx)
  with assms show ?thesis by (cases ctx) auto
qed (use assms in \<open>auto simp: authentic_def\<close>)

fun exec :: "(bytes list \<Rightarrow> bytes) \<Rightarrow> NodeID list \<Rightarrow> (NodeID \<Rightarrow> PbftParams) \<Rightarrow> (NodeID \<times> PbftInput) list \<Rightarrow>
    (NodeID \<Rightarrow> PbftState) \<Rightarrow> (NodeID \<Rightarrow> PbftState) option" where
  "exec H F ps [] S = Some S"
| "exec H F ps ((n, ev) # evs) S =
     (if n \<notin> set F \<and> exec_ok H F S n ev
      then case ApplyEvent (ps n) ev (S n) of Inl e \<Rightarrow> None | Inr s' \<Rightarrow> exec H F ps evs (S(n := s'))
      else None)"

lemma exec_reachable:
  "pbft_reachable H (set F) seg ps S \<Longrightarrow> exec H F ps evs S = Some S' \<Longrightarrow> pbft_reachable H (set F) seg ps S'"
proof (induction H F ps evs S rule: exec.induct)
  case (2 H F ps n ev evs S)
  then obtain s' where s': "n \<notin> set F" "exec_ok H F S n ev" "ApplyEvent (ps n) ev (S n) = Inr s'"
      "exec H F ps evs (S(n := s')) = Some S'"
    by (auto split: if_splits sum.splits)
  from s'(2) have "env_ok H (authentic (set F) S) (S n) ev" by (rule exec_ok_env)
  then have "pbft_reachable H (set F) seg ps (S(n := s'))" by (rule pbft_reachable.event [OF 2(2) s'(1) _ s'(3)])
  then show ?case using 2(1) [OF _ s'(3)] s' by blast
qed simp

definition ex_seg :: Segment where
  "ex_seg = \<lparr>seg_Leader = ''a'', seg_Membership = ex_memb, seg_Proposals = [(0, None)]\<rparr>"

definition ex_params :: "NodeID \<Rightarrow> PbftParams" where
  "ex_params n = \<lparr>OwnID = n,
     Config = \<lparr>cfg_Membership = [''a'', ''b'', ''c'', ''d''], cfg_MaxProposeDelay = 1, cfg_DoneResendPeriod = 1,
       cfg_CatchUpDelay = 1, cfg_MsgBufCapacity = 10, cfg_ViewChangeSNTimeout = 1, cfg_ViewChangeSegmentTimeout = 1,
       cfg_ViewChangeResendPeriod = 1, cfg_EpochNr = 0\<rparr>,
     Self = ''orderer'', proto_Size = (\<lambda>_. 1)\<rparr>"

definition ex_pp :: Preprepare where
  "ex_pp = \<lparr>pp_Sn = 0, pp_View = 0, pp_Data = Some [7], pp_Aborted = False\<rparr>"

definition ex_digest :: gobytes where
  "ex_digest = Some (concat (SerializePreprepareForHashing ex_pp))"

definition ex_init :: "NodeID \<Rightarrow> PbftState" where
  "ex_init n = (case UponInit (ex_params n) (NewOrdererModule ex_seg (ex_params n)) of
     Inr s \<Rightarrow> s | Inl e \<Rightarrow> NewOrdererModule ex_seg (ex_params n))"

text \<open>Nodes \<open>a\<close>, \<open>b\<close> and \<open>c\<close> accept the leader's proposal; \<open>a\<close> and \<open>b\<close> prepare it, \<open>a\<close> commits it; \<open>d\<close> is faulty.\<close>

definition ex_events :: "(NodeID \<times> PbftInput) list" where
  "ex_events =
     concat (map (\<lambda>n. [(n, InPreprepareValidated True ex_pp ''a''), (n, InHashOne ex_digest (CtxPreprepare ex_pp))])
       [''a'', ''b'', ''c'']) @
     [(''a'', InMessage ''a'' (MsgPrepare 0 0 ex_digest)), (''a'', InMessage ''b'' (MsgPrepare 0 0 ex_digest)),
      (''a'', InMessage ''c'' (MsgPrepare 0 0 ex_digest)),
      (''b'', InMessage ''a'' (MsgPrepare 0 0 ex_digest)), (''b'', InMessage ''b'' (MsgPrepare 0 0 ex_digest)),
      (''b'', InMessage ''d'' (MsgPrepare 0 0 ex_digest)),
      (''a'', InMessage ''a'' (MsgCommit 0 0 ex_digest)), (''a'', InMessage ''b'' (MsgCommit 0 0 ex_digest)),
      (''a'', InMessage ''d'' (MsgCommit 0 0 ex_digest))]"

definition ex_run :: "NodeID \<Rightarrow> PbftState" where
  "ex_run = (case exec concat [''d''] ex_params ex_events ex_init of Some S \<Rightarrow> S | None \<Rightarrow> ex_init)"

definition ex_completed :: bool where
  "ex_completed = (case exec concat [''d''] ex_params ex_events ex_init of None \<Rightarrow> False
     | Some S \<Rightarrow> sent (S ''a'') (MsgCommit 0 0 ex_digest) \<and> sent (S ''b'') (MsgCommit 0 0 ex_digest) \<and>
         accepted (outputEvents (S ''a'')) 0 0 ex_pp \<and> accepted (outputEvents (S ''b'')) 0 0 ex_pp \<and>
         SBDeliver 0 (Some [7]) False ''a'' ''orderer'' \<in> set (outputEvents (S ''a'')))"

lemma ex_completed_True: "ex_completed"
  by code_simp

lemma ex_run_facts:
  shows "exec concat [''d''] ex_params ex_events ex_init = Some ex_run"
    and "sent (ex_run ''a'') (MsgCommit 0 0 ex_digest)" "sent (ex_run ''b'') (MsgCommit 0 0 ex_digest)"
    and "accepted (outputEvents (ex_run ''a'')) 0 0 ex_pp" "accepted (outputEvents (ex_run ''b'')) 0 0 ex_pp"
    and "SBDeliver 0 (Some [7]) False ''a'' ''orderer'' \<in> set (outputEvents (ex_run ''a''))"
  using ex_completed_True by (auto simp: ex_completed_def ex_run_def split: option.splits)

lemma ex_run_reachable: "pbft_reachable concat {''d''} ex_seg ex_params ex_run"
proof -
  have ok: "is_ok (UponInit (ex_params n) (NewOrdererModule ex_seg (ex_params n)))" for n by code_simp
  have "UponInit (ex_params n) (NewOrdererModule ex_seg (ex_params n)) = Inr (ex_init n)" for n
    using ok [of n] by (cases "UponInit (ex_params n) (NewOrdererModule ex_seg (ex_params n))") (simp_all add: ex_init_def)
  then have "pbft_reachable concat (set [''d'']) ex_seg ex_params ex_init" by (intro pbft_reachable.start)
  from exec_reachable [OF this ex_run_facts(1)] show ?thesis by simp
qed

section \<open>Agreement\<close>

lemma commit_accepted:
  assumes "pbft_reachable H F seg ps S" "i \<notin> F" "sent (S i) (MsgCommit sn v d)" "accepted (outputEvents (S i)) v sn pp"
  shows "bval d = digest_of H pp"
proof -
  note inv = pbft_reachable_inv [OF assms(1,2)]
  obtain pp' where "accepted (outputEvents (S i)) v sn pp'" "bval d = digest_of H pp'"
    using pbft_invD(6) [OF inv, of "MsgCommit sn v d"] assms(3) by (auto simp: sent_def)
  with pbft_invD(4) [OF inv this(1) assms(4)] show ?thesis by simp
qed





section \<open>Primaries\<close>

text \<open>
  C27: Primaries rotate. From any view (far enough below \<open>2^63\<close>) every member of the segment becomes
  primary within as many views as there are members.
\<close>

theorem primary_rotation:
  assumes "mhas (Nodes (seg_Membership seg)) (seg_Leader seg)" "n \<in> set (NodeIDs seg)"
    and "unat view + 2 * length (NodeIDs seg) < 2 ^ 63"
  shows "\<exists>k < length (NodeIDs seg). PrimaryNode seg (view + of_nat k) = Inr n"
proof -
  let ?N = "length (NodeIDs seg)"
  obtain li where li: "LeaderIndex seg = Inr li" "li < ?N" using LeaderIndex_ok [OF assms(1)] by metis
  from assms(2) obtain j where j: "j < ?N" "NodeIDs seg ! j = n" by (auto simp: in_set_conv_nth)
  define k where "k = (j + ?N - (li + unat view) mod ?N) mod ?N"
  have k: "k < ?N" unfolding k_def by (rule mod_less_divisor) (use j in linarith)
  have "(li + unat view + k) mod ?N = j"
  proof -
    have "(li + unat view) mod ?N < ?N" by (rule mod_less_divisor) (use j in linarith)
    then have "((li + unat view) mod ?N + (j + ?N - (li + unat view) mod ?N)) mod ?N = j" using j by simp
    then show ?thesis unfolding k_def by (metis mod_add_eq mod_mod_trivial)
  qed
  moreover have u: "unat (view + of_nat k) = unat view + k"
    using assms(3) k by (simp add: unat_word_ariths take_bit_eq_mod unat_of_nat)
  moreover have "NodeIDs seg \<noteq> []" using k by auto
  ultimately have "PrimaryNode seg (view + of_nat k) = Inr (NodeIDs seg ! j)"
    using PrimaryNode_index [OF li(1), of "view + of_nat k"] k li(2) assms(3) by (auto simp: ac_simps)
  with j k show ?thesis by auto
qed

theorem primary_rotation_witness:
  "\<exists>k < length (NodeIDs ex_seg). PrimaryNode ex_seg (5 + of_nat k) = Inr ''c''"
proof (rule primary_rotation)
  show "mhas (Nodes (seg_Membership ex_seg)) (seg_Leader ex_seg)" "''c'' \<in> set (NodeIDs ex_seg)" by code_simp+
  have "length (NodeIDs ex_seg) = 4" by code_simp
  then show "unat (5 :: ViewNr) + 2 * length (NodeIDs ex_seg) < 2 ^ 63" by simp
qed

text \<open>
  C31: A view number from which the signed primary index is negative, and not a multiple of the number
  of members, makes the handling of a NewView message for it crash the node, whoever sent it.
\<close>

theorem new_view_negative_index_panics:
  assumes "LeaderIndex (st_Segment s) = Inr li" "sint (of_nat li + nv_View nv) < 0"
    and "\<not> int (length (NodeIDs (st_Segment s))) dvd sint (of_nat li + nv_View nv)"
  shows "is_panic (applyMsgNewView nv sender s)"
proof -
  have "0 < int (length (NodeIDs (st_Segment s)))" using assms(1) by (auto simp: LeaderIndex_def)
  from go_rem_neg_range [OF assms(2) this assms(3)] assms(1) show ?thesis
    by (simp add: applyMsgNewView_def PrimaryNode_def Let_def)
qed

theorem new_view_negative_index_panics_witness:
  "is_panic (applyMsgNewView \<lparr>nv_View = 18446744073709551615, nv_ViewChangeSenders = [], nv_SignedViewChanges = [],
     nv_PreprepareSeqNrs = [], nv_Preprepares = []\<rparr> ''d'' (ex_init ''b''))"
proof (rule new_view_negative_index_panics)
  show "LeaderIndex (st_Segment (ex_init ''b'')) = Inr 0" by code_simp
  have "length (NodeIDs (st_Segment (ex_init ''b''))) = 4" by code_simp
  then show "\<not> int (length (NodeIDs (st_Segment (ex_init ''b'')))) dvd
      sint (of_nat 0 + nv_View \<lparr>nv_View = 18446744073709551615, nv_ViewChangeSenders = [], nv_SignedViewChanges = [],
        nv_PreprepareSeqNrs = [], nv_Preprepares = []\<rparr>)" by simp
qed simp

section \<open>View change\<close>

text \<open>
  C32: A MissingPreprepare message that reaches a node with no view change above view 0 under way
  crashes it (the pending view-change state is nil and is dereferenced).
\<close>

theorem unsolicited_missing_preprepare_panics:
  assumes "\<And>v vcs. (v, vcs) \<in> set (ViewChangeStates s) \<Longrightarrow> 0 < v \<Longrightarrow> \<not> EnoughViewChanges vcs"
  shows "is_panic (applyMsgMissingPreprepare preprepare s)"
proof -
  have "latestPendingVCState_loop m None 0 = (None, 0)"
    if "\<forall>(v, vcs) \<in> set m. 0 < v \<longrightarrow> \<not> EnoughViewChanges vcs" for m
    using that by (induction m) auto
  moreover have "\<forall>(v, vcs) \<in> set (ViewChangeStates s). 0 < v \<longrightarrow> \<not> EnoughViewChanges vcs" using assms by blast
  ultimately have "latestPendingVCState_loop (ViewChangeStates s) None 0 = (None, 0)" by blast
  then show ?thesis by (simp add: applyMsgMissingPreprepare_def latestPendingVCState_def)
qed

theorem unsolicited_missing_preprepare_panics_witness:
  "ViewChangeStates (ex_init ''b'') = [] \<and> is_panic (applyMsgMissingPreprepare (Some ex_pp) (ex_init ''b''))"
proof
  show none: "ViewChangeStates (ex_init ''b'') = []" by code_simp
  show "is_panic (applyMsgMissingPreprepare (Some ex_pp) (ex_init ''b''))"
    by (rule unsolicited_missing_preprepare_panics) (simp add: none)
qed

fun run_events :: "PbftParams \<Rightarrow> PbftInput list \<Rightarrow> PbftState \<Rightarrow> PbftState res" where
  "run_events p [] s = Inr s"
| "run_events p (ev # evs) s = rbind (ApplyEvent p ev s) (run_events p evs)"

definition ex_nv0 :: NewView where
  "ex_nv0 = \<lparr>nv_View = 0, nv_ViewChangeSenders = [''a'', ''c'', ''d''],
     nv_SignedViewChanges = replicate 3 \<lparr>svc_ViewChange = Some \<lparr>vc_View = 1, vc_PSet = [], vc_QSet = []\<rparr>, svc_Signature = Some []\<rparr>,
     nv_PreprepareSeqNrs = [0], nv_Preprepares = [\<lparr>pp_Sn = 0, pp_View = 0, pp_Data = None, pp_Aborted = True\<rparr>]\<rparr>"

definition ex_pp0 :: Preprepare where
  "ex_pp0 = \<lparr>pp_Sn = 0, pp_View = 0, pp_Data = None, pp_Aborted = True\<rparr>"

definition ex_digest0 :: gobytes where
  "ex_digest0 = Some (concat (SerializePreprepareForHashing ex_pp0))"


end
