(* ===== verification/ClientProgress.thy ===== *)
theory ClientProgress
  imports GoUtil
begin

text \<open>
  Which transactions of which clients have been delivered (\<open>pkg/clientprogress\<close>): per client a low
  watermark, below which everything counts as delivered, and the set of delivered numbers above it.
  Transaction numbers are 64-bit words; the watermark wraps around when number \<open>2^64 - 1\<close> is
  collected, which the lemmas on garbage collection exclude explicitly.

  The locale \<open>tx_log\<close> is what users of the component rely on: \<open>Add\<close> reports whether a transaction is
  new and makes it contained.
\<close>

section \<open>Model\<close>

record DeliveredTXs =
  lowWM :: TxNo
  delivered :: "(TxNo, unit) gomap"

definition EmptyDeliveredTXs :: DeliveredTXs where
  "EmptyDeliveredTXs = \<lparr>lowWM = 0, delivered = []\<rparr>"

definition DeliveredTXs_Contains :: "DeliveredTXs \<Rightarrow> TxNo \<Rightarrow> bool" where
  "DeliveredTXs_Contains dt txNo = (if txNo < lowWM dt then True else mhas (delivered dt) txNo)"

definition DeliveredTXs_Add :: "DeliveredTXs \<Rightarrow> TxNo \<Rightarrow> DeliveredTXs \<times> bool" where
  "DeliveredTXs_Add dt txNo =
     (if txNo < lowWM dt then (dt, False)
      else let alreadyPresent = mhas (delivered dt) txNo
           in (dt\<lparr>delivered := AList.update txNo () (delivered dt)\<rparr>, \<not> alreadyPresent))"

function DeliveredTXs_GarbageCollect :: "DeliveredTXs \<Rightarrow> DeliveredTXs" where
  "DeliveredTXs_GarbageCollect dt =
     (if mhas (delivered dt) (lowWM dt)
      then DeliveredTXs_GarbageCollect
             (dt\<lparr>delivered := AList.delete (lowWM dt) (delivered dt), lowWM := lowWM dt + 1\<rparr>)
      else dt)"
  by pat_completeness auto
termination
proof (relation "measure (\<lambda>dt. length (delivered dt))", goal_cases)
  case (2 dt)
  then have "lowWM dt \<in> fst ` set (delivered dt)" using mhas_iff [of "delivered dt" "lowWM dt"] by simp
  then have "length (AList.delete (lowWM dt) (delivered dt)) < length (delivered dt)"
    by (rule length_mdel_less)
  then show ?case by simp
qed simp

declare DeliveredTXs_GarbageCollect.simps [simp del]

text \<open>The protobuf representation.\<close>

record DeliveredTXsPb =
  LowWm :: uint64
  Delivered :: "uint64 list"

definition DeliveredTXs_Pb :: "DeliveredTXs \<Rightarrow> DeliveredTXsPb" where
  "DeliveredTXs_Pb dt = \<lparr>LowWm = lowWM dt, Delivered = GetSortedKeys (delivered dt)\<rparr>"

definition DeliveredTXsFromPb :: "DeliveredTXsPb \<Rightarrow> DeliveredTXs" where
  "DeliveredTXsFromPb pb =
     EmptyDeliveredTXs\<lparr>lowWM := LowWm pb, delivered := fold (\<lambda>txNo d. AList.update txNo () d) (Delivered pb) []\<rparr>"

type_synonym ClientProgress = "(ClientID, DeliveredTXs) gomap"
type_synonym ClientProgressPb = "(string, DeliveredTXsPb) gomap"

definition NewClientProgress :: ClientProgress where
  "NewClientProgress = []"

definition ClientProgress_Contains :: "ClientProgress \<Rightarrow> ClientID \<Rightarrow> TxNo \<Rightarrow> bool" where
  "ClientProgress_Contains cp clID txNo =
     (case map_of cp clID of None \<Rightarrow> False | Some dt \<Rightarrow> DeliveredTXs_Contains dt txNo)"

definition ClientProgress_Add :: "ClientProgress \<Rightarrow> ClientID \<Rightarrow> TxNo \<Rightarrow> ClientProgress \<times> bool" where
  "ClientProgress_Add cp clID txNo =
     (let dt = (case map_of cp clID of None \<Rightarrow> EmptyDeliveredTXs | Some dt \<Rightarrow> dt);
          (dt, added) = DeliveredTXs_Add dt txNo
      in (AList.update clID dt cp, added))"

definition ClientProgress_GarbageCollect :: "ClientProgress \<Rightarrow> ClientProgress \<times> (ClientID, TxNo) gomap" where
  "ClientProgress_GarbageCollect cp =
     (let cp = map (\<lambda>(c, dt). (c, DeliveredTXs_GarbageCollect dt)) cp
      in (cp, map (\<lambda>(c, dt). (c, lowWM dt)) cp))"

definition ClientProgress_Pb :: "ClientProgress \<Rightarrow> ClientProgressPb" where
  "ClientProgress_Pb cp = map (\<lambda>(c, dt). (c, DeliveredTXs_Pb dt)) cp"

definition ClientProgress_LoadPb :: "ClientProgressPb \<Rightarrow> ClientProgress" where
  "ClientProgress_LoadPb pb = map (\<lambda>(c, d). (c, DeliveredTXsFromPb d)) pb"

section \<open>One client\<close>

definition delivered_ok :: "DeliveredTXs \<Rightarrow> bool" where
  "delivered_ok dt \<longleftrightarrow> gomap_ok (delivered dt)"

lemma DeliveredTXs_Add_result: "snd (DeliveredTXs_Add dt t) = (\<not> DeliveredTXs_Contains dt t)"
  by (simp add: DeliveredTXs_Add_def DeliveredTXs_Contains_def Let_def)

lemma DeliveredTXs_Add_contains:
  "DeliveredTXs_Contains (fst (DeliveredTXs_Add dt t)) t' \<longleftrightarrow> t' = t \<or> DeliveredTXs_Contains dt t'"
  by (auto simp: DeliveredTXs_Add_def DeliveredTXs_Contains_def Let_def)

text \<open>Collecting keeps what is contained, unless the watermark passes the last number.\<close>

lemma GarbageCollect_step:
  assumes "mhas (delivered dt) (lowWM dt)" "lowWM dt \<noteq> - 1"
  shows "DeliveredTXs_Contains (dt\<lparr>delivered := AList.delete (lowWM dt) (delivered dt), lowWM := lowWM dt + 1\<rparr>) t
    \<longleftrightarrow> DeliveredTXs_Contains dt t"
proof -
  have "t < lowWM dt + 1 \<longleftrightarrow> t < lowWM dt \<or> t = lowWM dt"
  proof -
    have "unat (lowWM dt + 1) = Suc (unat (lowWM dt))"
      using assms(2) word_less_succ [of "lowWM dt" "- 1"] by (simp add: order_less_le)
    then show ?thesis by (auto simp: word_less_nat_alt word_unat_eq_iff)
  qed
  with assms(1) show ?thesis by (auto simp: DeliveredTXs_Contains_def)
qed

lemma GarbageCollect_contains:
  assumes "\<not> mhas (delivered dt) (- 1)"
  shows "DeliveredTXs_Contains (DeliveredTXs_GarbageCollect dt) t \<longleftrightarrow> DeliveredTXs_Contains dt t"
  using assms
proof (induction dt rule: DeliveredTXs_GarbageCollect.induct)
  case (1 dt)
  show ?case
  proof (cases "mhas (delivered dt) (lowWM dt)")
    case True
    with 1(2) have "lowWM dt \<noteq> - 1" by auto
    with True 1 GarbageCollect_step [OF True] show ?thesis
      by (simp add: DeliveredTXs_GarbageCollect.simps [of dt])
  qed (simp add: DeliveredTXs_GarbageCollect.simps [of dt])
qed

lemma GarbageCollect_lowWM:
  "\<not> mhas (delivered (DeliveredTXs_GarbageCollect dt)) (lowWM (DeliveredTXs_GarbageCollect dt))"
proof (induction dt rule: DeliveredTXs_GarbageCollect.induct)
  case (1 dt)
  show ?case
    using 1 by (cases "mhas (delivered dt) (lowWM dt)") (simp_all add: DeliveredTXs_GarbageCollect.simps [of dt])
qed

text \<open>The new watermark is the least number that is not contained.\<close>

lemma GarbageCollect_least:
  assumes "\<not> mhas (delivered dt) (- 1)"
  defines "w \<equiv> lowWM (DeliveredTXs_GarbageCollect dt)"
  shows "\<not> DeliveredTXs_Contains dt w" "t < w \<Longrightarrow> DeliveredTXs_Contains dt t"
  using GarbageCollect_contains [OF assms(1), symmetric] GarbageCollect_lowWM [of dt]
  by (auto simp: DeliveredTXs_Contains_def w_def)

lemma fold_update_keys:
  "map_of (fold (\<lambda>k d. AList.update k () d) ks d) k = (if k \<in> set ks then Some () else map_of d k)"
  by (induction ks arbitrary: d) auto

lemma DeliveredTXs_roundtrip:
  "lowWM (DeliveredTXsFromPb (DeliveredTXs_Pb dt)) = lowWM dt"
  "map_of (delivered (DeliveredTXsFromPb (DeliveredTXs_Pb dt))) = map_of (delivered dt)"
proof -
  show "lowWM (DeliveredTXsFromPb (DeliveredTXs_Pb dt)) = lowWM dt"
    by (simp add: DeliveredTXsFromPb_def DeliveredTXs_Pb_def)
  show "map_of (delivered (DeliveredTXsFromPb (DeliveredTXs_Pb dt))) = map_of (delivered dt)"
  proof
    fix t
    show "map_of (delivered (DeliveredTXsFromPb (DeliveredTXs_Pb dt))) t = map_of (delivered dt) t"
      using mhas_iff [of "delivered dt" t]
      by (cases "map_of (delivered dt) t") (simp_all add: DeliveredTXsFromPb_def DeliveredTXs_Pb_def fold_update_keys)
  qed
qed

lemma Contains_roundtrip:
  "DeliveredTXs_Contains (DeliveredTXsFromPb (DeliveredTXs_Pb dt)) t = DeliveredTXs_Contains dt t"
  by (simp add: DeliveredTXs_Contains_def DeliveredTXs_roundtrip)

section \<open>All clients\<close>

lemma Contains_Empty [simp]: "\<not> DeliveredTXs_Contains EmptyDeliveredTXs t"
  by (simp add: DeliveredTXs_Contains_def EmptyDeliveredTXs_def)

lemma ClientProgress_Add_result: "snd (ClientProgress_Add cp c t) = (\<not> ClientProgress_Contains cp c t)"
  by (simp add: ClientProgress_Add_def ClientProgress_Contains_def Let_def case_prod_unfold DeliveredTXs_Add_result
      split: option.splits)

lemma ClientProgress_Add_contains:
  "ClientProgress_Contains (fst (ClientProgress_Add cp c t)) c' t' \<longleftrightarrow>
     (c' = c \<and> t' = t) \<or> ClientProgress_Contains cp c' t'"
  by (auto simp: ClientProgress_Add_def ClientProgress_Contains_def Let_def case_prod_unfold DeliveredTXs_Add_contains
      split: option.splits)

lemma ClientProgress_GarbageCollect_contains:
  assumes "\<And>c dt. map_of cp c = Some dt \<Longrightarrow> \<not> mhas (delivered dt) (- 1)"
  shows "ClientProgress_Contains (fst (ClientProgress_GarbageCollect cp)) c t = ClientProgress_Contains cp c t"
proof (cases "map_of cp c")
  case (Some dt)
  with GarbageCollect_contains [of dt t] assms show ?thesis
    by (simp add: ClientProgress_Contains_def ClientProgress_GarbageCollect_def Let_def
        map_of_map_vals [of "\<lambda>_. DeliveredTXs_GarbageCollect", simplified])
qed (simp add: ClientProgress_Contains_def ClientProgress_GarbageCollect_def Let_def
       map_of_map_vals [of "\<lambda>_. DeliveredTXs_GarbageCollect", simplified])

lemma ClientProgress_Pb_roundtrip_contains:
  "ClientProgress_Contains (ClientProgress_LoadPb (ClientProgress_Pb cp)) c t = ClientProgress_Contains cp c t"
proof -
  have "ClientProgress_LoadPb (ClientProgress_Pb cp) = map (\<lambda>(c, dt). (c, DeliveredTXsFromPb (DeliveredTXs_Pb dt))) cp"
    by (simp add: ClientProgress_LoadPb_def ClientProgress_Pb_def case_prod_unfold)
  then show ?thesis
    by (simp add: ClientProgress_Contains_def map_of_map_vals [of "\<lambda>_ dt. DeliveredTXsFromPb (DeliveredTXs_Pb dt)"]
        Contains_roundtrip split: option.splits)
qed

section \<open>The interface for users\<close>

locale tx_log =
  fixes contains :: "'s \<Rightarrow> 'c \<Rightarrow> 't \<Rightarrow> bool"
    and add :: "'s \<Rightarrow> 'c \<Rightarrow> 't \<Rightarrow> 's \<times> bool"
  assumes add_result: "snd (add s c t) = (\<not> contains s c t)"
    and add_contains: "contains (fst (add s c t)) c' t' \<longleftrightarrow> (c' = c \<and> t' = t) \<or> contains s c' t'"
begin

text \<open>Keep the transactions that are new, recording each.\<close>

fun keep_new :: "('x \<Rightarrow> 'c) \<Rightarrow> ('x \<Rightarrow> 't) \<Rightarrow> 'x list \<Rightarrow> 's \<Rightarrow> 'x list \<times> 's" where
  "keep_new cl no [] s = ([], s)"
| "keep_new cl no (x # xs) s =
     (let (s, new) = add s (cl x) (no x); (ys, s) = keep_new cl no xs s
      in (if new then x # ys else ys, s))"

lemma keep_new_contains:
  "contains (snd (keep_new cl no xs s)) c t \<longleftrightarrow> contains s c t \<or> (\<exists>x \<in> set xs. cl x = c \<and> no x = t)"
proof (induction xs arbitrary: s)
  case (Cons x xs)
  then show ?case
    using add_contains [of s "cl x" "no x"] by (auto simp: Let_def case_prod_unfold)
qed simp

lemma keep_new_fresh:
  assumes "x \<in> set (fst (keep_new cl no xs s))"
  shows "x \<in> set xs \<and> \<not> contains s (cl x) (no x)"
  using assms
proof (induction xs arbitrary: s)
  case (Cons y xs)
  then show ?case
    using add_contains [of s "cl y" "no y"] add_result [of s "cl y" "no y"]
    by (auto simp: Let_def case_prod_unfold split: if_splits)
qed simp

lemma keep_new_once: "distinct (map (\<lambda>x. (cl x, no x)) (fst (keep_new cl no xs s)))"
proof (induction xs arbitrary: s)
  case (Cons y xs)
  have "(cl y, no y) \<noteq> (cl x, no x)" if "x \<in> set (fst (keep_new cl no xs (fst (add s (cl y) (no y)))))" for x
    using keep_new_fresh [OF that] add_contains [of s "cl y" "no y"] by auto
  with Cons show ?case by (force simp: Let_def case_prod_unfold)
qed simp

lemma keep_new_complete:
  assumes "x \<in> set xs" "\<not> contains s (cl x) (no x)"
  shows "\<exists>y \<in> set (fst (keep_new cl no xs s)). cl y = cl x \<and> no y = no x"
  using assms
proof (induction xs arbitrary: s)
  case (Cons y xs)
  show ?case
  proof (cases "cl y = cl x \<and> no y = no x")
    case True
    with Cons.prems add_result [of s "cl y" "no y"] show ?thesis by (auto simp: Let_def case_prod_unfold)
  next
    case False
    with Cons.prems Cons.IH [of "fst (add s (cl y) (no y))"] add_contains [of s "cl y" "no y"]
    show ?thesis by (auto simp: Let_def case_prod_unfold)
  qed
qed simp

end

interpretation client_log: tx_log ClientProgress_Contains ClientProgress_Add
  by unfold_locales (auto simp: ClientProgress_Add_result ClientProgress_Add_contains)

end
