(* ===== verification/LeaderPolicy.thy ===== *)
theory LeaderPolicy
  imports Membership "HOL-Library.Product_Lexorder"
begin

text \<open>
  Leader selection policies of ISS (\<open>pkg/iss/leaderselectionpolicy\<close>): the simple policy (all nodes lead) and
  the blacklist policy (the least recently suspected nodes that make a strong quorum lead).

  \<open>sort.Slice\<close> sorts by a comparison function, leaving the order of incomparable elements open; the
  model sorts the keys, in the order in which the map yields them, with a stable sort. The
  CBOR encoding of a policy is a parameter (\<open>enc\<close>, \<open>dec\<close>) of the functions that use it.
\<close>

section \<open>Model\<close>

record BlacklistLeaderPolicy =
  bl_Membership :: Membership
  Suspected :: "(NodeID, EpochNr) gomap"

datatype LeaderPolicy = SimplePolicy "NodeID list" | BlacklistPolicy BlacklistLeaderPolicy

definition NewSimpleLeaderPolicy :: "Membership \<Rightarrow> LeaderPolicy" where
  "NewSimpleLeaderPolicy m = SimplePolicy (GetSortedKeys (Nodes m))"

definition NewBlackListLeaderPolicy :: "Membership \<Rightarrow> LeaderPolicy" where
  "NewBlackListLeaderPolicy m = BlacklistPolicy \<lparr>bl_Membership = m, Suspected = []\<rparr>"

text \<open>
  The comparison of \<open>Leaders\<close> as a sort key: nodes never suspected first, by identifier, then the
  suspected ones by the epoch of the latest suspicion.
\<close>

definition suspect_key :: "(NodeID, EpochNr) gomap \<Rightarrow> NodeID \<Rightarrow> bool \<times> EpochNr \<times> NodeID" where
  "suspect_key susp n = (case map_of susp n of None \<Rightarrow> (False, 0, n) | Some e \<Rightarrow> (True, e, []))"

function minLeaders_loop :: "Membership \<Rightarrow> NodeID list \<Rightarrow> nat \<Rightarrow> nat res" where
  "minLeaders_loop m nodeIDs k =
     (if length nodeIDs < k then Inl (Panic ''slice bounds out of range'')
      else rbind (HaveStrongQuorum m (take k nodeIDs)) (\<lambda>q.
             if q then Inr k else minLeaders_loop m nodeIDs (Suc k)))"
  by pat_completeness auto
termination
  by (relation "measure (\<lambda>(_, ns, k). Suc (length ns) - k)") auto

declare minLeaders_loop.simps [simp del]

definition Blacklist_Leaders :: "BlacklistLeaderPolicy \<Rightarrow> NodeID list res" where
  "Blacklist_Leaders l =
     (let nodeIDs = sort_key (suspect_key (Suspected l)) (GetKeys (Nodes (bl_Membership l)))
      in rbind (minLeaders_loop (bl_Membership l) nodeIDs 1) (\<lambda>minLeaders.
           let numLeaders = int (length (Nodes (bl_Membership l))) - int (length (Suspected l));
               numLeaders = (if numLeaders < int minLeaders then int minLeaders else numLeaders)
           in Inr (take (nat numLeaders) nodeIDs)))"

definition Leaders :: "LeaderPolicy \<Rightarrow> NodeID list res" where
  "Leaders pol = (case pol of SimplePolicy ns \<Rightarrow> Inr ns | BlacklistPolicy l \<Rightarrow> Blacklist_Leaders l)"

definition Suspect :: "LeaderPolicy \<Rightarrow> EpochNr \<Rightarrow> NodeID \<Rightarrow> LeaderPolicy" where
  "Suspect pol e node =
     (case pol of
        SimplePolicy ns \<Rightarrow> pol
      | BlacklistPolicy l \<Rightarrow>
          if \<not> mhas (Nodes (bl_Membership l)) node then pol
          else (case map_of (Suspected l) node of
                  None \<Rightarrow> BlacklistPolicy (l\<lparr>Suspected := AList.update node e (Suspected l)\<rparr>)
                | Some epochNr \<Rightarrow>
                    if epochNr < e then BlacklistPolicy (l\<lparr>Suspected := AList.update node e (Suspected l)\<rparr>)
                    else pol))"

fun Reconfigure_suspected :: "(NodeID, EpochNr) gomap \<Rightarrow> NodeID list \<Rightarrow> (NodeID, EpochNr) gomap \<Rightarrow> (NodeID, EpochNr) gomap" where
  "Reconfigure_suspected old [] new = new"
| "Reconfigure_suspected old (n # ns) new =
     Reconfigure_suspected old ns (case map_of old n of None \<Rightarrow> new | Some epoch \<Rightarrow> AList.update n epoch new)"

definition Reconfigure :: "LeaderPolicy \<Rightarrow> Membership \<Rightarrow> LeaderPolicy" where
  "Reconfigure pol m =
     (case pol of
        SimplePolicy _ \<Rightarrow> SimplePolicy (GetSortedKeys (Nodes m))
      | BlacklistPolicy l \<Rightarrow>
          BlacklistPolicy \<lparr>bl_Membership = m, Suspected = Reconfigure_suspected (Suspected l) (GetKeys (Nodes m)) []\<rparr>)"

definition policy_tag :: "string \<Rightarrow> bytes" where
  "policy_tag t = map of_char t"

definition stripType :: "bytes \<Rightarrow> string \<Rightarrow> bool \<times> bytes" where
  "stripType data policyType =
     (if length data < length policyType then (False, [])
      else if take (length policyType) data \<noteq> policy_tag policyType then (False, [])
      else (True, drop (length policyType) data))"

definition LeaderPolicy_Bytes :: "(LeaderPolicy \<Rightarrow> bytes res) \<Rightarrow> LeaderPolicy \<Rightarrow> bytes res" where
  "LeaderPolicy_Bytes enc pol =
     rbind (enc pol) (\<lambda>ser. Inr
       (policy_tag (case pol of SimplePolicy _ \<Rightarrow> ''simple'' | BlacklistPolicy _ \<Rightarrow> ''blacklist'') @ ser))"

definition LeaderPolicyFromBytes ::
  "(bytes \<Rightarrow> NodeID list res) \<Rightarrow> (bytes \<Rightarrow> BlacklistLeaderPolicy res) \<Rightarrow> bytes \<Rightarrow> LeaderPolicy res" where
  "LeaderPolicyFromBytes decSimple decBlacklist data =
     (case stripType data ''simple'' of
        (True, policyData) \<Rightarrow> rbind (decSimple policyData) (\<lambda>ns. Inr (SimplePolicy ns))
      | (False, _) \<Rightarrow>
          (case stripType data ''blacklist'' of
             (True, policyData) \<Rightarrow> rbind (decBlacklist policyData) (\<lambda>l. Inr (BlacklistPolicy l))
           | (False, _) \<Rightarrow> Inl (Error ''invalid LeaderSelectionPolicy type'')))"

section \<open>Leaders of the blacklist policy\<close>

definition blacklist_ok :: "BlacklistLeaderPolicy \<Rightarrow> bool" where
  "blacklist_ok l \<longleftrightarrow> membership_ok (bl_Membership l) \<and> gomap_ok (Suspected l) \<and>
     fst ` set (Suspected l) \<subseteq> node_ids (bl_Membership l)"

definition sorted_nodes :: "BlacklistLeaderPolicy \<Rightarrow> NodeID list" where
  "sorted_nodes l = sort_key (suspect_key (Suspected l)) (GetKeys (Nodes (bl_Membership l)))"

lemma all_nodes_strong: "membership_ok m \<Longrightarrow> set ns = node_ids m \<Longrightarrow> distinct ns \<Longrightarrow> HaveStrongQuorum m ns = Inr True"
proof -
  assume ok: "membership_ok m" and ns: "set ns = node_ids m" "distinct ns"
  have "weight_sum m ns = total_weight m" using ok ns by (simp add: weight_sum_set total_weight_set)
  moreover have "strong_threshold m \<le> total_weight m"
    using max_faulty_weight_bounds [OF ok] unfolding strong_threshold_def by linarith
  ultimately show ?thesis using ok ns by (simp add: HaveStrongQuorum_ok membership_ok_def)
qed

lemma minLeaders_loop_ok:
  assumes ok: "membership_ok m" and ns: "set ns = node_ids m" "distinct ns"
  shows "k \<le> length ns \<Longrightarrow> \<exists>j. minLeaders_loop m ns k = Inr j \<and> k \<le> j \<and> j \<le> length ns \<and>
     HaveStrongQuorum m (take j ns) = Inr True"
proof (induction "length ns - k" arbitrary: k)
  case 0
  then have "take k ns = ns" "k = length ns" by simp_all
  with all_nodes_strong [OF ok ns] have "minLeaders_loop m ns k = Inr k"
    by (simp add: minLeaders_loop.simps [of m ns "length ns"])
  with \<open>k = length ns\<close> all_nodes_strong [OF ok ns] show ?case by simp
next
  case (Suc d)
  have "set (take k ns) \<subseteq> node_ids m" using ns(1) set_take_subset [of k ns] by simp
  then obtain b where b: "HaveStrongQuorum m (take k ns) = Inr b"
    using ok by (simp add: HaveStrongQuorum_ok membership_ok_def)
  show ?case
  proof (cases b)
    case True
    with b Suc.prems show ?thesis by (auto simp: minLeaders_loop.simps [of m ns k])
  next
    case False
    have "d = length ns - Suc k" "Suc k \<le> length ns" using Suc(2) by simp_all
    from Suc(1) [OF this] obtain j where "minLeaders_loop m ns (Suc k) = Inr j" "Suc k \<le> j" "j \<le> length ns"
      "HaveStrongQuorum m (take j ns) = Inr True" by blast
    with b False Suc.prems show ?thesis by (intro exI [of _ j]) (simp add: minLeaders_loop.simps [of m ns k])
  qed
qed

lemma sorted_nodes_props:
  assumes "blacklist_ok l"
  shows "set (sorted_nodes l) = node_ids (bl_Membership l)" "distinct (sorted_nodes l)"
    "length (sorted_nodes l) = length (Nodes (bl_Membership l))"
  using assms by (simp_all add: sorted_nodes_def node_ids_def blacklist_ok_def membership_ok_def GetKeys_def)

lemma node_ids_nonempty: "membership_ok m \<Longrightarrow> node_ids m \<noteq> {}"
  by (auto simp: membership_ok_def total_weight_def weight_sum_def node_ids_def)

text \<open>The leaders: a prefix of the sorted nodes that is a strong quorum.\<close>

lemma Blacklist_Leaders_ok:
  assumes ok: "blacklist_ok l"
  obtains k where "Blacklist_Leaders l = Inr (take k (sorted_nodes l))" "1 \<le> k" "k \<le> length (sorted_nodes l)"
    "HaveStrongQuorum (bl_Membership l) (take k (sorted_nodes l)) = Inr True"
    "length (sorted_nodes l) - length (Suspected l) \<le> k"
proof -
  let ?m = "bl_Membership l" and ?ns = "sorted_nodes l"
  have m: "membership_ok ?m" using ok by (simp add: blacklist_ok_def)
  note ns = sorted_nodes_props [OF ok]
  have "?ns \<noteq> []" using ns(1) node_ids_nonempty [OF m] by auto
  then have "1 \<le> length ?ns" by (cases ?ns) auto
  from minLeaders_loop_ok [OF m ns(1,2) this] obtain j where
    j: "minLeaders_loop ?m ?ns 1 = Inr j" "1 \<le> j" "j \<le> length ?ns" "HaveStrongQuorum ?m (take j ?ns) = Inr True"
    by blast
  let ?k = "max j (length ?ns - length (Suspected l))"
  have k: "?k \<le> length ?ns" using j(3) by simp
  have "set (take j ?ns) \<subseteq> set (take ?k ?ns)" by (rule set_take_subset_set_take) simp
  moreover have "set (take ?k ?ns) \<subseteq> node_ids ?m" using ns(1) set_take_subset [of ?k ?ns] by simp
  ultimately have "HaveStrongQuorum ?m (take ?k ?ns) = Inr True"
    using quorum.strong_mono [OF m _ _ _ j(4)] ns(2) by simp
  moreover have "Blacklist_Leaders l = Inr (take ?k ?ns)"
    using j(1) ns(3) by (auto simp: Blacklist_Leaders_def sorted_nodes_def Let_def max_def nat_diff_distrib' split: if_splits)
  ultimately show ?thesis using that [of ?k] j(2) k by auto
qed

lemma suspect_key_first:
  "a \<notin> fst ` set susp \<Longrightarrow> b \<in> fst ` set susp \<Longrightarrow> suspect_key susp a < suspect_key susp b"
  using mhas_iff [of susp a] mhas_iff [of susp b] by (auto simp: suspect_key_def split: option.splits)

text \<open>In the sorted list, the nodes never suspected precede the suspected ones.\<close>

lemma unsuspected_prefix:
  assumes ok: "blacklist_ok l" and n: "n \<in> node_ids (bl_Membership l)" "n \<notin> fst ` set (Suspected l)"
    and k: "length (sorted_nodes l) - length (Suspected l) \<le> k"
  shows "n \<in> set (take k (sorted_nodes l))"
proof (rule ccontr)
  assume out: "n \<notin> set (take k (sorted_nodes l))"
  let ?ns = "sorted_nodes l" and ?S = "fst ` set (Suspected l)"
  note ns = sorted_nodes_props [OF ok]
  have "n \<in> set (drop k ?ns)"
    using out n(1) ns(1) by (metis append_take_drop_id set_append UnE)
  moreover have "sorted (map (suspect_key (Suspected l)) (take k ?ns @ drop k ?ns))"
    by (simp add: sorted_nodes_def)
  ultimately have le: "suspect_key (Suspected l) x \<le> suspect_key (Suspected l) n" if "x \<in> set (take k ?ns)" for x
    using that by (auto simp: sorted_append simp del: append_take_drop_id)
  have "set (take k ?ns) \<subseteq> node_ids (bl_Membership l) - ?S - {n}"
    using le suspect_key_first [of n "Suspected l"] n(2) ns(1) out set_take_subset [of k ?ns] leD by blast
  then have "card (set (take k ?ns)) \<le> card (node_ids (bl_Membership l) - ?S - {n})" by (intro card_mono) simp_all
  moreover have "card (set (take k ?ns)) = k"
    using ns(2) \<open>n \<in> set (drop k ?ns)\<close> distinct_card [of "take k ?ns"] by (cases "k \<le> length ?ns") auto
  moreover have "card (node_ids (bl_Membership l) - ?S - {n}) = length ?ns - length (Suspected l) - 1"
    using ok n ns distinct_card [OF ns(2)] distinct_card [of "map fst (Suspected l)"]
    by (simp add: blacklist_ok_def card_Diff_subset)
  moreover have "0 < length ?ns - length (Suspected l)"
  proof -
    have "card (insert n ?S) \<le> card (node_ids (bl_Membership l))"
      using ok n by (intro card_mono) (auto simp: blacklist_ok_def)
    then show ?thesis
      using ok n ns distinct_card [OF ns(2)] distinct_card [of "map fst (Suspected l)"] by (simp add: blacklist_ok_def)
  qed
  ultimately show False using k by linarith
qed

section \<open>Suspicions, reconfiguration\<close>

lemma Suspect_ok:
  assumes "blacklist_ok l"
  shows "\<exists>l'. Suspect (BlacklistPolicy l) e n = BlacklistPolicy l' \<and> blacklist_ok l' \<and> bl_Membership l' = bl_Membership l"
  using assms mhas_iff [of "Nodes (bl_Membership l)" n]
  by (auto simp: Suspect_def blacklist_ok_def node_ids_def split: option.splits)

lemma Reconfigure_suspected_props:
  "gomap_ok new \<Longrightarrow> gomap_ok (Reconfigure_suspected old ns new) \<and>
     map_of (Reconfigure_suspected old ns new) n =
       (if n \<in> set ns \<and> mhas old n then map_of old n else map_of new n)"
  by (induction old ns new rule: Reconfigure_suspected.induct) (auto split: option.splits)

lemma Reconfigure_blacklist_ok:
  assumes "membership_ok m"
  shows "\<exists>l'. Reconfigure (BlacklistPolicy l) m = BlacklistPolicy l' \<and> blacklist_ok l' \<and> bl_Membership l' = m \<and>
     (\<forall>n. map_of (Suspected l') n = (if n \<in> node_ids m then map_of (Suspected l) n else None))"
proof -
  let ?s = "Reconfigure_suspected (Suspected l) (GetKeys (Nodes m)) []"
  have p: "gomap_ok ?s" "map_of ?s n = (if n \<in> node_ids m then map_of (Suspected l) n else None)" for n
    using Reconfigure_suspected_props [of "[]" "Suspected l" "GetKeys (Nodes m)" n] by (auto simp: node_ids_def)
  have "fst ` set ?s \<subseteq> node_ids m"
    using p(2) mhas_iff [of ?s] by (metis (no_types, lifting) subsetI)
  with p assms show ?thesis by (auto simp: Reconfigure_def blacklist_ok_def)
qed

section \<open>Serialisation\<close>

lemma stripType_same [simp]: "stripType (policy_tag t @ ser) t = (True, ser)"
  by (simp add: stripType_def policy_tag_def)

lemma stripType_blacklist [simp]: "stripType (policy_tag ''blacklist'' @ ser) ''simple'' = (False, [])"
  by (simp add: stripType_def policy_tag_def)

lemma LeaderPolicy_roundtrip:
  assumes "\<And>ns ser. enc (SimplePolicy ns) = Inr ser \<Longrightarrow> decS ser = Inr ns"
    and "\<And>l ser. enc (BlacklistPolicy l) = Inr ser \<Longrightarrow> decB ser = Inr l"
    and "LeaderPolicy_Bytes enc pol = Inr data"
  shows "LeaderPolicyFromBytes decS decB data = Inr pol"
  using assms by (cases pol) (auto simp: LeaderPolicy_Bytes_def LeaderPolicyFromBytes_def rbind_eq_Inr)

end
