(* ===== verification/Checkpoint.thy ===== *)
theory Checkpoint
  imports Membership ClientProgress LeaderPolicy
begin

text \<open>
  Stable checkpoints and the checkpoint protocol (\<open>pkg/checkpoint\<close>): the data of a checkpoint and its
  serialisation for hashing and signing (\<open>serializing.go\<close>), syntactic checks and certificate
  verification (\<open>checkpoint.go\<close>), the validators (\<open>chkpvalidator\<close>) and the protocol that collects
  signatures until a checkpoint is stable (\<open>protocol.go\<close>).

  The CBOR encoding of a membership, the hash function and signature verification are parameters,
  bundled in a record \<open>ChkpEnv\<close>. A pointer, slice or map that the code compares with nil is an option.
  The elements of a list of memberships are taken to be non-nil.
\<close>

section \<open>Data\<close>

record EpochConfig =
  ec_EpochNr :: EpochNr
  ec_FirstSn :: SeqNr
  ec_Length :: uint64
  ec_Memberships :: "Membership list option"

record EpochData =
  ed_EpochConfig :: "EpochConfig option"
  ed_ClientProgress :: "ClientProgressPb option"
  ed_LeaderPolicy :: gobytes
  ed_PreviousMembership :: "Membership option"

record StateSnapshot =
  ss_AppData :: gobytes
  ss_EpochData :: "EpochData option"

type_synonym Certificate = "(NodeID, bytes) gomap"

record StableCheckpoint =
  sc_Sn :: SeqNr
  sc_Snapshot :: "StateSnapshot option"
  sc_Cert :: "Certificate option"

record ChkpEnv =
  memb_Serialize :: "Membership \<Rightarrow> bytes res"
  HashImpl :: "bytes \<Rightarrow> bytes"
  Verifier :: "bytes list \<Rightarrow> bytes \<Rightarrow> NodeID \<Rightarrow> bool"

text \<open>Successive writes to a hasher hash the concatenation of what is written.\<close>

definition hash :: "ChkpEnv \<Rightarrow> bytes list \<Rightarrow> bytes" where
  "hash env data = HashImpl env (concat data)"

definition StripCert :: "StableCheckpoint \<Rightarrow> StableCheckpoint" where
  "StripCert sc = \<lparr>sc_Sn = sc_Sn sc, sc_Snapshot = sc_Snapshot sc, sc_Cert = None\<rparr>"

definition AttachCert :: "StableCheckpoint \<Rightarrow> Certificate \<Rightarrow> StableCheckpoint" where
  "AttachCert sc cert = \<lparr>sc_Sn = sc_Sn sc, sc_Snapshot = sc_Snapshot sc, sc_Cert = Some cert\<rparr>"

definition sc_EpochData :: "StableCheckpoint \<Rightarrow> EpochData res" where
  "sc_EpochData sc = rbind (deref (sc_Snapshot sc)) (\<lambda>ss. deref (ss_EpochData ss))"

definition sc_EpochConfig :: "StableCheckpoint \<Rightarrow> EpochConfig res" where
  "sc_EpochConfig sc = rbind (sc_EpochData sc) (\<lambda>ed. deref (ed_EpochConfig ed))"

definition sc_Memberships :: "StableCheckpoint \<Rightarrow> Membership list option res" where
  "sc_Memberships sc = rbind (sc_EpochConfig sc) (\<lambda>ec. Inr (ec_Memberships ec))"

definition sc_PreviousMembership :: "StableCheckpoint \<Rightarrow> Membership option res" where
  "sc_PreviousMembership sc = rbind (sc_EpochData sc) (\<lambda>ed. Inr (ed_PreviousMembership ed))"

definition sc_Epoch :: "StableCheckpoint \<Rightarrow> EpochNr res" where
  "sc_Epoch sc = rbind (sc_EpochConfig sc) (\<lambda>ec. Inr (ec_EpochNr ec))"

definition Genesis :: "StateSnapshot \<Rightarrow> StableCheckpoint" where
  "Genesis initialStateSnapshot = \<lparr>sc_Sn = 0, sc_Snapshot = Some initialStateSnapshot, sc_Cert = Some []\<rparr>"

section \<open>Serialisation\<close>

definition serializeCheckpointForSig :: "EpochNr \<Rightarrow> SeqNr \<Rightarrow> bytes \<Rightarrow> bytes list" where
  "serializeCheckpointForSig epoch seqNr snapshotHash = [Uint64ToBytes epoch, Uint64ToBytes seqNr, snapshotHash]"

definition str_bytes :: "string \<Rightarrow> bytes" where
  "str_bytes s = map of_char s"

definition serializeClientProgressForHash :: "ClientProgressPb \<Rightarrow> bytes list" where
  "serializeClientProgressForHash cp =
     IterateSorted cp (\<lambda>clientID d data.
       (True, data @ [str_bytes clientID, Uint64ToBytes (LowWm d)] @ map Uint64ToBytes (Delivered d))) []"

fun serializeMembershipsForHash :: "ChkpEnv \<Rightarrow> Membership list \<Rightarrow> bytes list res" where
  "serializeMembershipsForHash env [] = Inr []"
| "serializeMembershipsForHash env (m # ms) =
     rbind (memb_Serialize env m) (\<lambda>d. rbind (serializeMembershipsForHash env ms) (\<lambda>ds. Inr (d # ds)))"

definition serializeEpochConfigForHash :: "ChkpEnv \<Rightarrow> EpochConfig \<Rightarrow> bytes list res" where
  "serializeEpochConfigForHash env ec =
     rbind (serializeMembershipsForHash env (case ec_Memberships ec of None \<Rightarrow> [] | Some ms \<Rightarrow> ms)) (\<lambda>d.
       Inr ([Uint64ToBytes (ec_EpochNr ec), Uint64ToBytes (ec_Length ec), Uint64ToBytes (ec_FirstSn ec)] @ d))"

definition serializeEpochDataForHash :: "ChkpEnv \<Rightarrow> EpochData \<Rightarrow> bytes list res" where
  "serializeEpochDataForHash env ed =
     rbind (deref (ed_EpochConfig ed)) (\<lambda>ec.
     rbind (serializeEpochConfigForHash env ec) (\<lambda>data.
     rbind (deref (ed_ClientProgress ed)) (\<lambda>cp.
     rbind (deref (ed_PreviousMembership ed)) (\<lambda>pm.
       let data = data @ [bval (ed_LeaderPolicy ed)] @ serializeClientProgressForHash cp
       in if Nodes pm \<noteq> [] then rbind (memb_Serialize env pm) (\<lambda>d. Inr (data @ [d])) else Inr data))))"

definition serializeSnapshotForHash :: "ChkpEnv \<Rightarrow> StateSnapshot \<Rightarrow> bytes list res" where
  "serializeSnapshotForHash env snapshot =
     rbind (deref (ss_EpochData snapshot)) (\<lambda>ed.
     rbind (serializeEpochDataForHash env ed) (\<lambda>d. Inr (d @ [bval (ss_AppData snapshot)])))"

section \<open>Checks\<close>

fun valid_memberships :: "Membership list \<Rightarrow> unit res" where
  "valid_memberships [] = Inr ()"
| "valid_memberships (m # ms) =
     (case Membership_Valid m of
        Inl (Error e) \<Rightarrow> Inl (Error ''invalid membership'')
      | Inl (Panic e) \<Rightarrow> Inl (Panic e)
      | Inr _ \<Rightarrow> valid_memberships ms)"

definition SyntacticCheck :: "StableCheckpoint \<Rightarrow> int \<Rightarrow> unit res" where
  "SyntacticCheck sc configOffset =
     (case sc_Snapshot sc of
        None \<Rightarrow> Inl (Error ''snapshot is nil'')
      | Some ss \<Rightarrow>
     (case ss_EpochData ss of
        None \<Rightarrow> Inl (Error ''epoch data is nil'')
      | Some ed \<Rightarrow>
     (case ed_EpochConfig ed of
        None \<Rightarrow> Inl (Error ''epoch config is nil'')
      | Some ec \<Rightarrow>
     (case ec_Memberships ec of
        None \<Rightarrow> Inl (Error ''memberships is nil'')
      | Some ms \<Rightarrow>
        if int (length ms) \<noteq> configOffset + 1 then Inl (Error ''number of memberships does not match expected'')
        else rbind (valid_memberships ms) (\<lambda>_.
     (case ed_PreviousMembership ed of
        None \<Rightarrow> Inl (Error ''previous membership is nil'')
      | Some pm \<Rightarrow>
        rbind (if ec_EpochNr ec > 0 then valid_memberships [pm] else Inr ()) (\<lambda>_.
          if sc_Cert sc = None then Inl (Error ''certificate is nil'')
          else if ss_AppData ss = None then Inl (Error ''app data is nil'')
          else if ed_ClientProgress ed = None then Inl (Error ''client progress is nil'')
          else if ed_LeaderPolicy ed = None then Inl (Error ''leader policy is nil'')
          else Inr ())))))))"

fun check_signatures :: "ChkpEnv \<Rightarrow> bytes list \<Rightarrow> Membership \<Rightarrow> Certificate \<Rightarrow> unit res" where
  "check_signatures env signedData m [] = Inr ()"
| "check_signatures env signedData m ((nodeID, sig) # cert) =
     (if \<not> mhas (Nodes m) nodeID then Inl (Error ''node not in membership'')
      else if \<not> Verifier env signedData sig nodeID then Inl (Error ''signature verification error'')
      else check_signatures env signedData m cert)"

definition sc_CertMap :: "StableCheckpoint \<Rightarrow> Certificate" where
  "sc_CertMap sc = (case sc_Cert sc of None \<Rightarrow> [] | Some cert \<Rightarrow> cert)"

definition VerifyCert :: "ChkpEnv \<Rightarrow> StableCheckpoint \<Rightarrow> Membership \<Rightarrow> unit res" where
  "VerifyCert env sc m =
     rbind (HaveWeakQuorum m (GetKeys (sc_CertMap sc))) (\<lambda>q.
     if \<not> q then Inl (Error ''not enough signatures in certificate to have weak quorum'')
     else rbind (deref (sc_Snapshot sc)) (\<lambda>ss.
          rbind (serializeSnapshotForHash env ss) (\<lambda>snapshotData.
          rbind (sc_Epoch sc) (\<lambda>epoch.
            check_signatures env (serializeCheckpointForSig epoch (sc_Sn sc) (hash env snapshotData)) m (sc_CertMap sc)))))"

fun consistent_nodes ::
  "(NodeID, NodeIdentity) gomap \<Rightarrow> (NodeID, NodeIdentity) gomap \<Rightarrow> (NodeID, NodeIdentity) gomap res" where
  "consistent_nodes seen [] = Inr seen"
| "consistent_nodes seen ((nodeID, node) # rest) =
     (case map_of seen nodeID of
        None \<Rightarrow> consistent_nodes (AList.update nodeID node seen) rest
      | Some node' \<Rightarrow> if node' \<noteq> node then Inl (Error ''inconsistent membership parameters'')
                      else consistent_nodes seen rest)"

fun consistent_memberships :: "(NodeID, NodeIdentity) gomap \<Rightarrow> Membership list \<Rightarrow> unit res" where
  "consistent_memberships seen [] = Inr ()"
| "consistent_memberships seen (m # ms) =
     rbind (consistent_nodes seen (Nodes m)) (\<lambda>seen. consistent_memberships seen ms)"

text \<open>\<open>reflect.DeepEqual\<close> of two memberships compares the maps, not the order of their entries.\<close>

definition same_membership :: "Membership \<Rightarrow> Membership \<Rightarrow> bool" where
  "same_membership a b \<longleftrightarrow>
     length (Nodes a) = length (Nodes b) \<and> list_all (\<lambda>(n, node). map_of (Nodes b) n = Some node) (Nodes a)"

definition verifyMembershipConsistency :: "StableCheckpoint \<Rightarrow> Membership \<Rightarrow> unit res" where
  "verifyMembershipConsistency sc m =
     rbind (sc_Memberships sc) (\<lambda>ms.
     rbind (consistent_memberships [] (case ms of None \<Rightarrow> [] | Some ms \<Rightarrow> ms)) (\<lambda>_.
     rbind (sc_Epoch sc) (\<lambda>epoch. rbind (sc_PreviousMembership sc) (\<lambda>pm.
       if epoch > 0 \<and> (case pm of None \<Rightarrow> True | Some pm \<Rightarrow> \<not> same_membership pm m)
       then Inl (Error ''inconsistent sc.PreviousMembership() with membership'') else Inr ()))))"

definition sc_Verify :: "ChkpEnv \<Rightarrow> StableCheckpoint \<Rightarrow> int \<Rightarrow> Membership \<Rightarrow> unit res" where
  "sc_Verify env sc configOffset m =
     rbind (SyntacticCheck sc configOffset) (\<lambda>_.
     rbind (sc_Epoch sc) (\<lambda>epoch.
     rbind (if epoch > 0 then VerifyCert env sc m
            else rbind (sc_PreviousMembership sc) (\<lambda>pm. rbind (deref pm) (\<lambda>pm.
                   if Nodes pm \<noteq> [] then Inl (Error ''certificate not empty for first epoch'') else Inr ()))) (\<lambda>_.
       verifyMembershipConsistency sc m)))"

section \<open>Validators\<close>

text \<open>\<open>int(sc.Epoch()) - 1 - int(epochNr)\<close>, on 64-bit signed integers.\<close>

definition chkpMembershipOffset :: "EpochNr \<Rightarrow> EpochNr \<Rightarrow> int" where
  "chkpMembershipOffset chkpEpoch epochNr = sint (chkpEpoch - 1 - epochNr)"

definition own_membership :: "StableCheckpoint \<Rightarrow> NodeID \<Rightarrow> unit res" where
  "own_membership sc ownID =
     rbind (sc_Memberships sc) (\<lambda>ms. rbind (deref ms) (\<lambda>ms. rbind (index ms 0) (\<lambda>m.
       if \<not> mhas (Nodes m) ownID then Inl (Error ''nodeID not in membership'') else Inr ())))"

definition ConservativeCV_Verify ::
  "ChkpEnv \<Rightarrow> int \<Rightarrow> NodeID \<Rightarrow> StableCheckpoint \<Rightarrow> EpochNr \<Rightarrow> Membership list \<Rightarrow> unit res" where
  "ConservativeCV_Verify env configOffset ownID sc epochNr memberships =
     rbind (SyntacticCheck sc configOffset) (\<lambda>_.
     rbind (own_membership sc ownID) (\<lambda>_.
     rbind (sc_Epoch sc) (\<lambda>epoch.
       let offset = chkpMembershipOffset epoch epochNr
       in if offset \<le> 0 then Inl (Error ''checkpoint not far ahead enough'')
          else if offset > configOffset then Inl (Error ''checkpoint too far ahead'')
          else rbind (index memberships offset) (\<lambda>m. sc_Verify env sc configOffset m))))"

definition PermissiveCV_Verify ::
  "ChkpEnv \<Rightarrow> int \<Rightarrow> NodeID \<Rightarrow> StableCheckpoint \<Rightarrow> EpochNr \<Rightarrow> Membership list \<Rightarrow> unit res" where
  "PermissiveCV_Verify env configOffset ownID sc epochNr memberships =
     rbind (SyntacticCheck sc configOffset) (\<lambda>_.
     rbind (own_membership sc ownID) (\<lambda>_.
     rbind (sc_Epoch sc) (\<lambda>epoch.
     rbind (sc_PreviousMembership sc) (\<lambda>pm.
       let offset = chkpMembershipOffset epoch epochNr
       in rbind (if offset > configOffset then deref pm else index memberships offset) (\<lambda>m.
            sc_Verify env sc configOffset m)))))"

section \<open>Verification: lemmas\<close>

lemma deref_Some [simp]: "deref (Some x) = Inr x"
  by (simp add: deref_def)

lemma deref_eq_Inr [simp]: "deref x = Inr y \<longleftrightarrow> x = Some y"
  by (simp add: deref_def split: option.splits)

lemma check_signatures_ok:
  "check_signatures env data m cert = Inr () \<longleftrightarrow>
     (\<forall>(n, sig) \<in> set cert. n \<in> node_ids m \<and> Verifier env data sig n)"
proof (induction cert)
  case (Cons c cert)
  obtain n sig where c: "c = (n, sig)" by (cases c)
  show ?case using Cons mhas_iff [of "Nodes m" n] by (auto simp: c node_ids_def)
qed simp

lemma VerifyCert_sound:
  assumes "VerifyCert env sc m = Inr ()"
  obtains ss data epoch where "sc_Snapshot sc = Some ss" "serializeSnapshotForHash env ss = Inr data"
    "sc_Epoch sc = Inr epoch" "HaveWeakQuorum m (GetKeys (sc_CertMap sc)) = Inr True"
    "\<forall>(n, sig) \<in> set (sc_CertMap sc). n \<in> node_ids m \<and>
       Verifier env (serializeCheckpointForSig epoch (sc_Sn sc) (hash env data)) sig n"
  using assms by (auto simp: VerifyCert_def rbind_eq_Inr check_signatures_ok split: if_splits)

text \<open>A verified certificate contains the valid signature of a correct node.\<close>

lemma VerifyCert_correct_signer:
  assumes v: "VerifyCert env sc m = Inr ()" and ok: "membership_ok m" "tolerable m F" and cert: "gomap_ok (sc_CertMap sc)"
  shows "\<exists>n sig ss data epoch. n \<notin> F \<and> n \<in> node_ids m \<and> (n, sig) \<in> set (sc_CertMap sc) \<and> sc_Snapshot sc = Some ss \<and>
     serializeSnapshotForHash env ss = Inr data \<and> sc_Epoch sc = Inr epoch \<and>
     Verifier env (serializeCheckpointForSig epoch (sc_Sn sc) (hash env data)) sig n"
proof -
  from v obtain ss data epoch where vc: "sc_Snapshot sc = Some ss" "serializeSnapshotForHash env ss = Inr data"
    "sc_Epoch sc = Inr epoch" "HaveWeakQuorum m (GetKeys (sc_CertMap sc)) = Inr True"
    "\<forall>(n, sig) \<in> set (sc_CertMap sc). n \<in> node_ids m \<and>
       Verifier env (serializeCheckpointForSig epoch (sc_Sn sc) (hash env data)) sig n"
    by (rule VerifyCert_sound)
  from quorum.weak_correct [OF ok(1) _ vc(4) ok(2)] cert obtain n where n: "n \<in> set (GetKeys (sc_CertMap sc))" "n \<notin> F"
    by auto
  then obtain sig where "(n, sig) \<in> set (sc_CertMap sc)" by (auto simp: GetKeys_def)
  with vc n show ?thesis by blast
qed

lemma VerifyCert_nonmember_panics:
  assumes "n \<in> fst ` set (sc_CertMap sc)" "n \<notin> node_ids m"
  shows "is_panic (VerifyCert env sc m)"
proof -
  have "is_panic (HaveWeakQuorum m (GetKeys (sc_CertMap sc)))"
    using assms by (intro HaveWeakQuorum_nonmember) auto
  then show ?thesis by (auto simp: VerifyCert_def is_panic_iff)
qed

lemma weak_of_strong:
  assumes "membership_ok m" "HaveStrongQuorum m ns = Inr True"
  shows "HaveWeakQuorum m ns = Inr True"
proof -
  have mem: "set ns \<subseteq> node_ids m" by (rule HaveStrongQuorum_members [OF assms(2)])
  have "strong_threshold m \<le> weight_sum m ns"
    using assms mem by (simp add: HaveStrongQuorum_ok membership_ok_def)
  moreover have "max_faulty_weight m < strong_threshold m"
    using max_faulty_weight_bounds [OF assms(1)] unfolding strong_threshold_def by linarith
  ultimately show ?thesis using assms(1) mem by (simp add: HaveWeakQuorum_ok membership_ok_def)
qed

lemma VerifyCert_complete:
  assumes "membership_ok m" "HaveStrongQuorum m (GetKeys (sc_CertMap sc)) = Inr True"
    and "sc_Snapshot sc = Some ss" "serializeSnapshotForHash env ss = Inr data" "sc_Epoch sc = Inr epoch"
    and "\<And>n sig. (n, sig) \<in> set (sc_CertMap sc) \<Longrightarrow>
           Verifier env (serializeCheckpointForSig epoch (sc_Sn sc) (hash env data)) sig n"
  shows "VerifyCert env sc m = Inr ()"
  using assms weak_of_strong [OF assms(1,2)] HaveStrongQuorum_members [OF assms(2)]
  by (auto simp: VerifyCert_def check_signatures_ok)

section \<open>The protocol\<close>

record CheckpointMsg =
  cm_Epoch :: EpochNr
  cm_Sn :: SeqNr
  cm_SnapshotHash :: gobytes
  cm_Signature :: bytes

record ChkpParams =
  cp_OwnID :: NodeID
  cp_Membership :: Membership
  cp_EpochConfig :: EpochConfig
  cp_LeaderPolicyData :: gobytes
  cp_ResendPeriod :: int

text \<open>The events the module emits, in the order of its calls to the DSL.\<close>

datatype ChkpOut =
    COHashRequest "bytes list"
  | COSignRequest "bytes list"
  | COVerifySig "bytes list" bytes NodeID
  | COStableCheckpoint SeqNr StateSnapshot Certificate
  | COEpochProgress NodeID EpochNr
  | COTimerRepeat int EpochNr CheckpointMsg "NodeID list"

record ChkpState =
  StateSnapshot :: StateSnapshot
  StateSnapshotHash :: gobytes
  Signatures :: Certificate
  SigReceived :: "NodeID list"
  PendingMessages :: "(NodeID, CheckpointMsg) gomap option"
  Announced :: bool
  chkp_out :: "ChkpOut list"

definition chkp_emit :: "ChkpOut \<Rightarrow> ChkpState \<Rightarrow> ChkpState" where
  "chkp_emit e s = s\<lparr>chkp_out := chkp_out s @ [e]\<rparr>"

definition ChkpNewModule :: "ChkpParams \<Rightarrow> ChkpState" where
  "ChkpNewModule p =
     \<lparr>StateSnapshot = \<lparr>ss_AppData = None,
        ss_EpochData = Some \<lparr>ed_EpochConfig = Some (cp_EpochConfig p), ed_ClientProgress = None,
          ed_LeaderPolicy = cp_LeaderPolicyData p, ed_PreviousMembership = Some (cp_Membership p)\<rparr>\<rparr>,
      StateSnapshotHash = None, Signatures = [], SigReceived = [], PendingMessages = Some [],
      Announced = False, chkp_out = []\<rparr>"

definition SnapshotReady :: "ChkpState \<Rightarrow> bool res" where
  "SnapshotReady s =
     (if ss_AppData (StateSnapshot s) = None then Inr False
      else rbind (deref (ss_EpochData (StateSnapshot s))) (\<lambda>ed. Inr (ed_ClientProgress ed \<noteq> None)))"

definition ChkpStable :: "ChkpParams \<Rightarrow> ChkpState \<Rightarrow> bool res" where
  "ChkpStable p s =
     rbind (SnapshotReady s) (\<lambda>r. if r then HaveStrongQuorum (cp_Membership p) (GetKeys (Signatures s)) else Inr False)"

definition processStateSnapshot :: "ChkpEnv \<Rightarrow> ChkpState \<Rightarrow> ChkpState res" where
  "processStateSnapshot env s =
     rbind (serializeSnapshotForHash env (StateSnapshot s)) (\<lambda>data. Inr (chkp_emit (COHashRequest data) s))"

definition process_if_ready :: "ChkpEnv \<Rightarrow> ChkpState \<Rightarrow> ChkpState res" where
  "process_if_ready env s =
     rbind (SnapshotReady s) (\<lambda>r. if r then processStateSnapshot env s else Inr s)"

definition UponSnapshot :: "ChkpEnv \<Rightarrow> gobytes \<Rightarrow> ChkpState \<Rightarrow> ChkpState res" where
  "UponSnapshot env appData s =
     (let appData = (case appData of None \<Rightarrow> [] | Some d \<Rightarrow> d)
      in if ss_AppData (StateSnapshot s) = None
         then process_if_ready env (s\<lparr>StateSnapshot := (StateSnapshot s)\<lparr>ss_AppData := Some appData\<rparr>\<rparr>)
         else Inr s)"

definition UponClientProgress :: "ChkpEnv \<Rightarrow> ClientProgressPb \<Rightarrow> ChkpState \<Rightarrow> ChkpState res" where
  "UponClientProgress env progress s =
     rbind (deref (ss_EpochData (StateSnapshot s))) (\<lambda>ed.
       if ed_ClientProgress ed = None
       then process_if_ready env
              (s\<lparr>StateSnapshot := (StateSnapshot s)\<lparr>ss_EpochData := Some (ed\<lparr>ed_ClientProgress := Some progress\<rparr>)\<rparr>\<rparr>)
       else Inr s)"

definition chkp_sig_data :: "ChkpParams \<Rightarrow> ChkpState \<Rightarrow> bytes list" where
  "chkp_sig_data p s =
     serializeCheckpointForSig (ec_EpochNr (cp_EpochConfig p)) (ec_FirstSn (cp_EpochConfig p)) (bval (StateSnapshotHash s))"

definition UponHashResult :: "ChkpParams \<Rightarrow> gobytes \<Rightarrow> ChkpState \<Rightarrow> ChkpState" where
  "UponHashResult p digest s =
     (let s = s\<lparr>StateSnapshotHash := digest\<rparr> in chkp_emit (COSignRequest (chkp_sig_data p s)) s)"

definition announceStable :: "ChkpParams \<Rightarrow> ChkpState \<Rightarrow> ChkpState" where
  "announceStable p s =
     (if Announced s then s
      else chkp_emit (COStableCheckpoint (ec_FirstSn (cp_EpochConfig p)) (StateSnapshot s) (Signatures s))
             (s\<lparr>Announced := True\<rparr>))"

definition announce_if_stable :: "ChkpParams \<Rightarrow> ChkpState \<Rightarrow> ChkpState res" where
  "announce_if_stable p s =
     rbind (ChkpStable p s) (\<lambda>b. Inr (if b then announceStable p s else s))"

definition applyCheckpointReceived :: "ChkpParams \<Rightarrow> NodeID \<Rightarrow> CheckpointMsg \<Rightarrow> ChkpState \<Rightarrow> ChkpState res" where
  "applyCheckpointReceived p source msg s =
     (if cm_Sn msg \<noteq> ec_FirstSn (cp_EpochConfig p) then Inr s
      else if cm_Epoch msg \<noteq> ec_EpochNr (cp_EpochConfig p) then Inr s
      else if \<not> mhas (Nodes (cp_Membership p)) source then Inr s
      else let s = chkp_emit (COEpochProgress source (cm_Epoch msg)) s in
       rbind (ChkpStable p s) (\<lambda>stable.
         if stable then Inr s
         else if StateSnapshotHash s = None
         then (case PendingMessages s of
                 None \<Rightarrow> Inl (Panic ''assignment to entry in nil map'')
               | Some pend \<Rightarrow> Inr (s\<lparr>PendingMessages := Some (AList.update source msg pend)\<rparr>))
         else if \<not> bytes_Equal (StateSnapshotHash s) (cm_SnapshotHash msg) then Inr s
         else if source \<in> set (SigReceived s) then Inr s
         else Inr (chkp_emit (COVerifySig (chkp_sig_data p s) (cm_Signature msg) source)
                     (s\<lparr>SigReceived := source # SigReceived s\<rparr>))))"

fun apply_pending :: "ChkpParams \<Rightarrow> (NodeID \<times> CheckpointMsg) list \<Rightarrow> ChkpState \<Rightarrow> ChkpState res" where
  "apply_pending p [] s = Inr s"
| "apply_pending p ((n, msg) # rest) s = rbind (applyCheckpointReceived p n msg s) (apply_pending p rest)"

definition UponChkpSignResult :: "ChkpParams \<Rightarrow> bytes \<Rightarrow> ChkpState \<Rightarrow> ChkpState res" where
  "UponChkpSignResult p sig s =
     (let s = s\<lparr>Signatures := AList.update (cp_OwnID p) sig (Signatures s),
                SigReceived := List.insert (cp_OwnID p) (SigReceived s)\<rparr>
      in rbind (announce_if_stable p s) (\<lambda>s.
         let msg = \<lparr>cm_Epoch = ec_EpochNr (cp_EpochConfig p), cm_Sn = ec_FirstSn (cp_EpochConfig p),
                    cm_SnapshotHash = StateSnapshotHash s, cm_Signature = sig\<rparr>;
             s = chkp_emit (COTimerRepeat (cp_ResendPeriod p) (ec_EpochNr (cp_EpochConfig p)) msg
                              (GetSortedKeys (Nodes (cp_Membership p)))) s
         in rbind (apply_pending p (case PendingMessages s of None \<Rightarrow> [] | Some ms \<Rightarrow> ms) s) (\<lambda>s.
            Inr (s\<lparr>PendingMessages := None\<rparr>))))"

definition UponChkpSigVerified :: "ChkpParams \<Rightarrow> NodeID \<Rightarrow> bool \<Rightarrow> bytes \<Rightarrow> ChkpState \<Rightarrow> ChkpState res" where
  "UponChkpSigVerified p nodeId ok signature s =
     (if \<not> ok then Inr s
      else announce_if_stable p (s\<lparr>Signatures := AList.update nodeId signature (Signatures s)\<rparr>))"

datatype ChkpInput =
    CISnapshot gobytes
  | CIHashResult gobytes
  | CISignResult bytes
  | CISigVerified NodeID bool bytes
  | CIClientProgress ClientProgressPb
  | CICheckpoint NodeID CheckpointMsg

fun ChkpApplyEvent :: "ChkpEnv \<Rightarrow> ChkpParams \<Rightarrow> ChkpInput \<Rightarrow> ChkpState \<Rightarrow> ChkpState res" where
  "ChkpApplyEvent env p (CISnapshot d) s = UponSnapshot env d s"
| "ChkpApplyEvent env p (CIHashResult d) s = Inr (UponHashResult p d s)"
| "ChkpApplyEvent env p (CISignResult sig) s = UponChkpSignResult p sig s"
| "ChkpApplyEvent env p (CISigVerified n ok sig) s = UponChkpSigVerified p n ok sig s"
| "ChkpApplyEvent env p (CIClientProgress cp) s = UponClientProgress env cp s"
| "ChkpApplyEvent env p (CICheckpoint n msg) s = applyCheckpointReceived p n msg s"

section \<open>The protocol: reachable states\<close>

text \<open>
  The events a module instance can receive in a state: a hash result is the hash of data it asked to
  be hashed, its own signature is a valid signature of data it asked to be signed, and the result of a
  verification is that of a request. Snapshots, client progress and messages are arbitrary.
\<close>

fun chkp_env_ok :: "ChkpEnv \<Rightarrow> ChkpParams \<Rightarrow> ChkpState \<Rightarrow> ChkpInput \<Rightarrow> bool" where
  "chkp_env_ok env p s (CIHashResult d) \<longleftrightarrow>
     list_ex (\<lambda>e. case e of COHashRequest data \<Rightarrow> d = Some (hash env data) | _ \<Rightarrow> False) (chkp_out s)"
| "chkp_env_ok env p s (CISignResult sig) \<longleftrightarrow>
     list_ex (\<lambda>e. case e of COSignRequest data \<Rightarrow> Verifier env data sig (cp_OwnID p) | _ \<Rightarrow> False) (chkp_out s)"
| "chkp_env_ok env p s (CISigVerified n ok sig) \<longleftrightarrow>
     list_ex (\<lambda>e. case e of COVerifySig data sig' n' \<Rightarrow> sig' = sig \<and> n' = n \<and> (ok \<longrightarrow> Verifier env data sig n)
                        | _ \<Rightarrow> False) (chkp_out s)"
| "chkp_env_ok env p s _ \<longleftrightarrow> True"

inductive chkp_reachable :: "ChkpEnv \<Rightarrow> ChkpParams \<Rightarrow> ChkpState \<Rightarrow> bool" for env p where
  chkp_start: "chkp_reachable env p (ChkpNewModule p)"
| chkp_step: "chkp_reachable env p s \<Longrightarrow> chkp_env_ok env p s i \<Longrightarrow> ChkpApplyEvent env p i s = Inr s'
     \<Longrightarrow> chkp_reachable env p s'"

definition is_announcement :: "ChkpOut \<Rightarrow> bool" where
  "is_announcement e \<longleftrightarrow> (case e of COStableCheckpoint sn ss cert \<Rightarrow> True | _ \<Rightarrow> False)"

definition snapshot_ready :: "ChkpState \<Rightarrow> bool" where
  "snapshot_ready s \<longleftrightarrow> ss_AppData (StateSnapshot s) \<noteq> None \<and>
     (\<exists>ed. ss_EpochData (StateSnapshot s) = Some ed \<and> ed_ClientProgress ed \<noteq> None)"

definition snapshot_params :: "ChkpParams \<Rightarrow> StateSnapshot \<Rightarrow> bool" where
  "snapshot_params p ss \<longleftrightarrow> (\<exists>ed. ss_EpochData ss = Some ed \<and> ed_EpochConfig ed = Some (cp_EpochConfig p) \<and>
     ed_LeaderPolicy ed = cp_LeaderPolicyData p \<and> ed_PreviousMembership ed = Some (cp_Membership p))"

definition hash_inv :: "ChkpEnv \<Rightarrow> ChkpState \<Rightarrow> bool" where
  "hash_inv env s \<longleftrightarrow> (\<forall>h. StateSnapshotHash s = Some h \<longrightarrow> snapshot_ready s \<and>
     (\<exists>data. serializeSnapshotForHash env (StateSnapshot s) = Inr data \<and> h = hash env data))"

text \<open>A signature of this checkpoint: valid over the hash of the snapshot.\<close>

definition sig_ok :: "ChkpEnv \<Rightarrow> ChkpParams \<Rightarrow> ChkpState \<Rightarrow> NodeID \<Rightarrow> bytes \<Rightarrow> bool" where
  "sig_ok env p s n sig \<longleftrightarrow> StateSnapshotHash s \<noteq> None \<and> Verifier env (chkp_sig_data p s) sig n"

fun out_ok :: "ChkpEnv \<Rightarrow> ChkpParams \<Rightarrow> ChkpState \<Rightarrow> ChkpOut \<Rightarrow> bool" where
  "out_ok env p s (COHashRequest data) \<longleftrightarrow>
     snapshot_ready s \<and> serializeSnapshotForHash env (StateSnapshot s) = Inr data"
| "out_ok env p s (COSignRequest data) \<longleftrightarrow> StateSnapshotHash s \<noteq> None \<and> data = chkp_sig_data p s"
| "out_ok env p s (COVerifySig data sig n) \<longleftrightarrow> StateSnapshotHash s \<noteq> None \<and> data = chkp_sig_data p s"
| "out_ok env p s (COStableCheckpoint sn ss cert) \<longleftrightarrow>
     Announced s \<and> sn = ec_FirstSn (cp_EpochConfig p) \<and> ss = StateSnapshot s \<and> StateSnapshotHash s \<noteq> None \<and> gomap_ok cert \<and>
     HaveStrongQuorum (cp_Membership p) (GetKeys cert) = Inr True \<and> (\<forall>(n, sig) \<in> set cert. sig_ok env p s n sig)"
| "out_ok env p s (COEpochProgress n e) \<longleftrightarrow> n \<in> node_ids (cp_Membership p)"
| "out_ok env p s (COTimerRepeat d e msg ns) \<longleftrightarrow> True"

definition chkp_inv :: "ChkpEnv \<Rightarrow> ChkpParams \<Rightarrow> ChkpState \<Rightarrow> bool" where
  "chkp_inv env p s \<longleftrightarrow> snapshot_params p (StateSnapshot s) \<and> hash_inv env s \<and> gomap_ok (Signatures s) \<and>
     (\<forall>(n, sig) \<in> set (Signatures s). sig_ok env p s n sig) \<and>
     (\<forall>e \<in> set (chkp_out s). out_ok env p s e) \<and>
     length (filter is_announcement (chkp_out s)) = (if Announced s then 1 else 0)"

lemma chkp_invD:
  assumes "chkp_inv env p s"
  shows "snapshot_params p (StateSnapshot s)" "hash_inv env s" "gomap_ok (Signatures s)"
    "\<And>n sig. (n, sig) \<in> set (Signatures s) \<Longrightarrow> sig_ok env p s n sig"
    "\<And>e. e \<in> set (chkp_out s) \<Longrightarrow> out_ok env p s e"
    "length (filter is_announcement (chkp_out s)) = (if Announced s then 1 else 0)"
  using assms by (auto simp: chkp_inv_def)

lemma SnapshotReady_eq: "snapshot_params p (StateSnapshot s) \<Longrightarrow> SnapshotReady s = Inr (snapshot_ready s)"
  by (auto simp: SnapshotReady_def snapshot_params_def snapshot_ready_def)

text \<open>States that agree on the snapshot, its hash and the announcement flag.\<close>

definition same_core :: "ChkpState \<Rightarrow> ChkpState \<Rightarrow> bool" where
  "same_core s s' \<longleftrightarrow> StateSnapshot s' = StateSnapshot s \<and> StateSnapshotHash s' = StateSnapshotHash s \<and>
     Announced s' = Announced s"

lemma same_core_simps:
  assumes "same_core s s'"
  shows "snapshot_ready s' = snapshot_ready s" "hash_inv env s' = hash_inv env s" "chkp_sig_data p s' = chkp_sig_data p s"
    "sig_ok env p s' = sig_ok env p s"
  using assms by (auto simp: same_core_def snapshot_ready_def hash_inv_def chkp_sig_data_def sig_ok_def fun_eq_iff)

lemma same_core_out_ok:
  assumes "same_core s s'"
  shows "out_ok env p s' e = out_ok env p s e"
  using assms same_core_simps [OF assms] by (cases e) (auto simp: same_core_def)

lemma chkp_inv_core:
  assumes inv: "chkp_inv env p s" and core: "same_core s s'"
    and sigs: "gomap_ok (Signatures s')" "\<And>n sig. (n, sig) \<in> set (Signatures s') \<Longrightarrow> sig_ok env p s n sig"
    and out: "chkp_out s' = chkp_out s @ es" "\<And>e. e \<in> set es \<Longrightarrow> out_ok env p s e \<and> \<not> is_announcement e"
  shows "chkp_inv env p s'"
proof -
  have "filter is_announcement es = []" using out(2) by (simp add: filter_empty_conv)
  moreover have "StateSnapshot s' = StateSnapshot s" "Announced s' = Announced s" using core by (auto simp: same_core_def)
  ultimately show ?thesis
    using chkp_invD [OF inv] sigs out same_core_simps [OF core] same_core_out_ok [OF core]
    by (auto simp: chkp_inv_def)
qed

lemma chkp_emit_simps [simp]:
  "StateSnapshot (chkp_emit e s) = StateSnapshot s" "StateSnapshotHash (chkp_emit e s) = StateSnapshotHash s"
  "Signatures (chkp_emit e s) = Signatures s" "SigReceived (chkp_emit e s) = SigReceived s"
  "PendingMessages (chkp_emit e s) = PendingMessages s" "Announced (chkp_emit e s) = Announced s"
  "chkp_out (chkp_emit e s) = chkp_out s @ [e]"
  by (simp_all add: chkp_emit_def)

lemma chkp_inv_emit:
  assumes "chkp_inv env p s" "out_ok env p s e" "\<not> is_announcement e"
  shows "chkp_inv env p (chkp_emit e s)"
  by (rule chkp_inv_core [OF assms(1), where es = "[e]"])
     (use assms chkp_invD [OF assms(1)] in \<open>auto simp: same_core_def\<close>)

lemma chkp_inv_not_ready:
  assumes inv: "chkp_inv env p s" and nr: "\<not> snapshot_ready s"
  shows "StateSnapshotHash s = None" "Signatures s = []"
    "\<And>e. e \<in> set (chkp_out s) \<Longrightarrow> (\<exists>n ep. e = COEpochProgress n ep \<and> n \<in> node_ids (cp_Membership p)) \<or> (\<exists>d ep m ns. e = COTimerRepeat d ep m ns)"
proof -
  show h: "StateSnapshotHash s = None" using chkp_invD(2) [OF inv] nr by (cases "StateSnapshotHash s") (auto simp: hash_inv_def)
  show "Signatures s = []"
  proof (rule ccontr)
    assume "Signatures s \<noteq> []"
    then obtain n sig where "(n, sig) \<in> set (Signatures s)" by (cases "Signatures s") auto
    from chkp_invD(4) [OF inv this] show False by (simp add: sig_ok_def h)
  qed
  fix e assume "e \<in> set (chkp_out s)"
  from chkp_invD(5) [OF inv this] h nr
  show "(\<exists>n ep. e = COEpochProgress n ep \<and> n \<in> node_ids (cp_Membership p)) \<or> (\<exists>d ep m ns. e = COTimerRepeat d ep m ns)"
    by (cases e) auto
qed

lemma chkp_inv_snapshot:
  assumes inv: "chkp_inv env p s" and nr: "\<not> snapshot_ready s" and ss: "snapshot_params p ss"
  shows "chkp_inv env p (s\<lparr>StateSnapshot := ss\<rparr>)"
proof -
  note i = chkp_inv_not_ready [OF inv nr]
  have "out_ok env p (s\<lparr>StateSnapshot := ss\<rparr>) e" if "e \<in> set (chkp_out s)" for e
    using i(3) [OF that] by auto
  with i(1,2) chkp_invD(6) [OF inv] ss show ?thesis by (auto simp: chkp_inv_def hash_inv_def)
qed

lemma process_if_ready_inv:
  assumes "chkp_inv env p s" "process_if_ready env s = Inr s'"
  shows "chkp_inv env p s'"
  using assms chkp_inv_emit [OF assms(1)]
  by (auto simp: process_if_ready_def processStateSnapshot_def SnapshotReady_eq [OF chkp_invD(1) [OF assms(1)]]
      rbind_eq_Inr is_announcement_def split: if_splits)

lemmas snapshot_step_inv = process_if_ready_inv [OF chkp_inv_snapshot]

lemma UponSnapshot_inv:
  assumes inv: "chkp_inv env p s" and step: "UponSnapshot env d s = Inr s'"
  shows "chkp_inv env p s'"
proof (cases "ss_AppData (StateSnapshot s) = None")
  case True
  then have "\<not> snapshot_ready s" by (simp add: snapshot_ready_def)
  moreover have "snapshot_params p ((StateSnapshot s)\<lparr>ss_AppData := Some (case d of None \<Rightarrow> [] | Some d \<Rightarrow> d)\<rparr>)"
    using chkp_invD(1) [OF inv] by (simp add: snapshot_params_def)
  ultimately show ?thesis
    using step True by (intro snapshot_step_inv [OF inv, of "(StateSnapshot s)\<lparr>ss_AppData := Some (case d of None \<Rightarrow> [] | Some d \<Rightarrow> d)\<rparr>"])
      (simp_all add: UponSnapshot_def)
qed (use step inv in \<open>auto simp: UponSnapshot_def\<close>)

lemma UponClientProgress_inv:
  assumes inv: "chkp_inv env p s" and step: "UponClientProgress env cp s = Inr s'"
  shows "chkp_inv env p s'"
proof -
  from chkp_invD(1) [OF inv] obtain ed where ed: "ss_EpochData (StateSnapshot s) = Some ed"
      "ed_EpochConfig ed = Some (cp_EpochConfig p)" "ed_LeaderPolicy ed = cp_LeaderPolicyData p"
      "ed_PreviousMembership ed = Some (cp_Membership p)"
    by (auto simp: snapshot_params_def)
  show ?thesis
  proof (cases "ed_ClientProgress ed = None")
    case True
    then have "\<not> snapshot_ready s" by (simp add: snapshot_ready_def ed)
    moreover define ss where "ss = (StateSnapshot s)\<lparr>ss_EpochData := Some (ed\<lparr>ed_ClientProgress := Some cp\<rparr>)\<rparr>"
    moreover have "snapshot_params p ss" by (simp add: ss_def snapshot_params_def ed)
    ultimately show ?thesis
      using step True by (intro snapshot_step_inv [OF inv, of ss]) (simp_all add: UponClientProgress_def ed)
  qed (use step inv ed in \<open>auto simp: UponClientProgress_def\<close>)
qed

lemma chkp_env_hash:
  assumes "chkp_env_ok env p s (CIHashResult d)"
  obtains data where "COHashRequest data \<in> set (chkp_out s)" "d = Some (hash env data)"
  using assms by (auto simp: list_ex_iff elim!: bexE) (case_tac x; simp)

lemma chkp_env_sign:
  assumes "chkp_env_ok env p s (CISignResult sig)"
  obtains data where "COSignRequest data \<in> set (chkp_out s)" "Verifier env data sig (cp_OwnID p)"
  using assms by (auto simp: list_ex_iff elim!: bexE) (case_tac x; simp)

lemma chkp_env_verified:
  assumes "chkp_env_ok env p s (CISigVerified n True sig)"
  obtains data where "COVerifySig data sig n \<in> set (chkp_out s)" "Verifier env data sig n"
  using assms by (auto simp: list_ex_iff elim!: bexE) (case_tac x; simp)

lemma UponHashResult_inv:
  assumes inv: "chkp_inv env p s" and ok: "chkp_env_ok env p s (CIHashResult d)"
  shows "chkp_inv env p (UponHashResult p d s)"
proof -
  from ok obtain data where data: "COHashRequest data \<in> set (chkp_out s)" "d = Some (hash env data)"
    by (rule chkp_env_hash)
  from chkp_invD(5) [OF inv data(1)] have r: "snapshot_ready s" "serializeSnapshotForHash env (StateSnapshot s) = Inr data"
    by auto
  define s1 where "s1 = s\<lparr>StateSnapshotHash := d\<rparr>"
  have same: "StateSnapshotHash s = d" if "StateSnapshotHash s \<noteq> None"
    using that chkp_invD(2) [OF inv] r data by (auto simp: hash_inv_def)
  have sd: "chkp_sig_data p s1 = chkp_sig_data p s" if "StateSnapshotHash s \<noteq> None"
    using same [OF that] by (simp add: s1_def chkp_sig_data_def)
  have sig: "sig_ok env p s n sg \<Longrightarrow> sig_ok env p s1 n sg" for n sg
    using sd data(2) by (auto simp: sig_ok_def s1_def)
  have out: "out_ok env p s e \<Longrightarrow> out_ok env p s1 e" for e
    using sd sig data(2) by (cases e) (auto simp: s1_def snapshot_ready_def)
  have "hash_inv env s1" using r data(2) by (auto simp: hash_inv_def s1_def snapshot_ready_def)
  then have "chkp_inv env p s1"
    using chkp_invD [OF inv] sig out by (auto simp: chkp_inv_def s1_def)
  then have "chkp_inv env p (chkp_emit (COSignRequest (chkp_sig_data p s1)) s1)"
    by (rule chkp_inv_emit) (simp_all add: is_announcement_def s1_def data(2))
  then show ?thesis by (simp add: UponHashResult_def Let_def s1_def)
qed

lemma announce_if_stable_inv:
  assumes inv: "chkp_inv env p s" and step: "announce_if_stable p s = Inr s'" and sigs: "Signatures s \<noteq> []"
  shows "chkp_inv env p s'"
proof (cases "ChkpStable p s = Inr True \<and> \<not> Announced s")
  case True
  define c where "c = COStableCheckpoint (ec_FirstSn (cp_EpochConfig p)) (StateSnapshot s) (Signatures s)"
  have s': "s' = chkp_emit c (s\<lparr>Announced := True\<rparr>)"
    using True step by (simp add: announce_if_stable_def announceStable_def c_def)
  have no: "\<not> is_announcement e" if "e \<in> set (chkp_out s)" for e
    using chkp_invD(5) [OF inv that] True by (cases e) (auto simp: is_announcement_def)
  have h: "StateSnapshotHash s \<noteq> None"
    using sigs chkp_invD(4) [OF inv, of "fst (hd (Signatures s))" "snd (hd (Signatures s))"] by (simp add: sig_ok_def)
  have q: "HaveStrongQuorum (cp_Membership p) (GetKeys (Signatures s)) = Inr True"
    using True SnapshotReady_eq [OF chkp_invD(1) [OF inv]] by (auto simp: ChkpStable_def split: if_splits)
  have sig: "sig_ok env p s' = sig_ok env p s" "chkp_sig_data p s' = chkp_sig_data p s"
    "snapshot_ready s' = snapshot_ready s" "hash_inv env s' = hash_inv env s"
    by (auto simp: s' sig_ok_def chkp_sig_data_def snapshot_ready_def hash_inv_def fun_eq_iff)
  have out: "out_ok env p s' e" if "e \<in> set (chkp_out s)" for e
    using chkp_invD(5) [OF inv that] no [OF that] sig by (cases e) (auto simp: s' is_announcement_def)
  have "out_ok env p s' c" "is_announcement c"
    using h q chkp_invD(3,4) [OF inv] sig by (auto simp: s' c_def is_announcement_def)
  with out no chkp_invD [OF inv] sig show ?thesis
    by (auto simp: chkp_inv_def s' filter_empty_conv)
qed (use inv step in \<open>auto simp: announce_if_stable_def announceStable_def rbind_eq_Inr split: if_splits\<close>)

lemma applyCheckpointReceived_inv:
  assumes inv: "chkp_inv env p s" and step: "applyCheckpointReceived p n msg s = Inr s'"
  shows "chkp_inv env p s'" "Signatures s' = Signatures s"
proof -
  define s1 where "s1 = chkp_emit (COEpochProgress n (cm_Epoch msg)) s"
  have inv1: "chkp_inv env p s1" if "mhas (Nodes (cp_Membership p)) n"
    unfolding s1_def by (rule chkp_inv_emit [OF inv]) (use that mhas_iff [of "Nodes (cp_Membership p)" n] in \<open>auto simp: node_ids_def is_announcement_def\<close>)
  have s': "s' = s \<or> mhas (Nodes (cp_Membership p)) n \<and> (s' = s1 \<or> (\<exists>pend. s' = s1\<lparr>PendingMessages := pend\<rparr>) \<or>
      StateSnapshotHash s \<noteq> None \<and>
      s' = chkp_emit (COVerifySig (chkp_sig_data p s1) (cm_Signature msg) n) (s1\<lparr>SigReceived := n # SigReceived s1\<rparr>))"
    using step unfolding applyCheckpointReceived_def Let_def s1_def [symmetric]
    by (auto simp: s1_def rbind_eq_Inr split: if_splits option.splits)
  then show "Signatures s' = Signatures s" by (auto simp: s1_def)
  have core: "same_core s1 (s1\<lparr>PendingMessages := pend\<rparr>)" "same_core s1 (s1\<lparr>SigReceived := ns\<rparr>)" for pend ns
    by (simp_all add: same_core_def)
  have pend: "chkp_inv env p (s1\<lparr>PendingMessages := pend\<rparr>)" if "mhas (Nodes (cp_Membership p)) n" for pend
    by (rule chkp_inv_core [OF inv1 [OF that] core(1), where es = "[]"]) (use chkp_invD [OF inv1 [OF that]] in auto)
  have recv: "chkp_inv env p (s1\<lparr>SigReceived := ns\<rparr>)" if "mhas (Nodes (cp_Membership p)) n" for ns
    by (rule chkp_inv_core [OF inv1 [OF that] core(2), where es = "[]"]) (use chkp_invD [OF inv1 [OF that]] in auto)
  have ver: "chkp_inv env p (chkp_emit (COVerifySig (chkp_sig_data p s1) sg n) (s1\<lparr>SigReceived := ns\<rparr>))"
    if "mhas (Nodes (cp_Membership p)) n" "StateSnapshotHash s \<noteq> None" for ns sg
    by (rule chkp_inv_emit [OF recv [OF that(1)]]) (use that in \<open>auto simp: s1_def chkp_sig_data_def is_announcement_def\<close>)
  from s' show "chkp_inv env p s'" using inv inv1 pend ver by blast
qed

lemma apply_pending_inv:
  "chkp_inv env p s \<Longrightarrow> apply_pending p ms s = Inr s' \<Longrightarrow> chkp_inv env p s' \<and> Signatures s' = Signatures s"
proof (induction p ms s arbitrary: s' rule: apply_pending.induct)
  case (2 p n msg rest s)
  from 2(3) obtain s1 where s1: "applyCheckpointReceived p n msg s = Inr s1" "apply_pending p rest s1 = Inr s'"
    by (auto simp: rbind_eq_Inr)
  from 2(1) [OF applyCheckpointReceived_inv(1) [OF 2(2) s1(1)] s1(2)] applyCheckpointReceived_inv(2) [OF 2(2) s1(1)]
  show ?case by simp
qed simp

lemma chkp_inv_add_sig:
  assumes inv: "chkp_inv env p s" and sig: "sig_ok env p s n sig"
  shows "chkp_inv env p (s\<lparr>Signatures := AList.update n sig (Signatures s), SigReceived := ns\<rparr>)"
proof (rule chkp_inv_core [OF inv, where es = "[]"])
  fix n' sig'
  assume "(n', sig') \<in> set (Signatures (s\<lparr>Signatures := AList.update n sig (Signatures s), SigReceived := ns\<rparr>))"
  then have "(n', sig') = (n, sig) \<or> (n', sig') \<in> set (Signatures s)"
    using set_mupd_old [OF chkp_invD(3) [OF inv], of "(n', sig')"] by auto
  then show "sig_ok env p s n' sig'" using sig chkp_invD(4) [OF inv] by auto
qed (use chkp_invD(3) [OF inv] in \<open>auto simp: same_core_def\<close>)

lemma UponChkpSignResult_inv:
  assumes inv: "chkp_inv env p s" and ok: "chkp_env_ok env p s (CISignResult sig)"
    and step: "UponChkpSignResult p sig s = Inr s'"
  shows "chkp_inv env p s'"
proof -
  from ok obtain data where "COSignRequest data \<in> set (chkp_out s)" "Verifier env data sig (cp_OwnID p)"
    by (rule chkp_env_sign)
  then have sig: "sig_ok env p s (cp_OwnID p) sig" using chkp_invD(5) [OF inv] by (fastforce simp: sig_ok_def)
  define s1 where "s1 = s\<lparr>Signatures := AList.update (cp_OwnID p) sig (Signatures s),
     SigReceived := List.insert (cp_OwnID p) (SigReceived s)\<rparr>"
  have inv1: "chkp_inv env p s1" unfolding s1_def by (rule chkp_inv_add_sig [OF inv sig])
  have ne: "Signatures s1 \<noteq> []" by (simp add: s1_def)
  from step obtain s2 d ep m ns s3 where s2: "announce_if_stable p s1 = Inr s2"
    and s3: "apply_pending p (case PendingMessages s2 of None \<Rightarrow> [] | Some ms \<Rightarrow> ms) (chkp_emit (COTimerRepeat d ep m ns) s2) = Inr s3"
    and s': "s' = s3\<lparr>PendingMessages := None\<rparr>"
    unfolding UponChkpSignResult_def Let_def s1_def [symmetric] by (auto simp: rbind_eq_Inr)
  have "chkp_inv env p (chkp_emit (COTimerRepeat d ep m ns) s2)"
    by (rule chkp_inv_emit [OF announce_if_stable_inv [OF inv1 s2 ne]]) (simp_all add: is_announcement_def)
  from apply_pending_inv [OF this s3] have inv3: "chkp_inv env p s3" by blast
  show ?thesis unfolding s'
    by (rule chkp_inv_core [OF inv3, where es = "[]"]) (use chkp_invD [OF inv3] in \<open>auto simp: same_core_def\<close>)
qed

lemma UponChkpSigVerified_inv:
  assumes inv: "chkp_inv env p s" and ok: "chkp_env_ok env p s (CISigVerified n b sig)"
    and step: "UponChkpSigVerified p n b sig s = Inr s'"
  shows "chkp_inv env p s'"
proof (cases b)
  case True
  with ok have "chkp_env_ok env p s (CISigVerified n True sig)" by simp
  then obtain data where "COVerifySig data sig n \<in> set (chkp_out s)" "Verifier env data sig n"
    by (rule chkp_env_verified)
  then have sig: "sig_ok env p s n sig" using chkp_invD(5) [OF inv] by (fastforce simp: sig_ok_def)
  have "chkp_inv env p (s\<lparr>Signatures := AList.update n sig (Signatures s)\<rparr>)"
    using chkp_inv_add_sig [OF inv sig, of "SigReceived s"] by simp
  with step True show ?thesis by (auto simp: UponChkpSigVerified_def intro: announce_if_stable_inv)
qed (use inv step in \<open>simp add: UponChkpSigVerified_def\<close>)

lemma ChkpNewModule_inv: "chkp_inv env p (ChkpNewModule p)"
  by (auto simp: chkp_inv_def ChkpNewModule_def snapshot_params_def hash_inv_def)

lemma ChkpApplyEvent_inv:
  assumes inv: "chkp_inv env p s" and ok: "chkp_env_ok env p s i" and step: "ChkpApplyEvent env p i s = Inr s'"
  shows "chkp_inv env p s'"
proof (cases i)
  case (CISnapshot d)
  with step show ?thesis by (intro UponSnapshot_inv [OF inv]) simp
next
  case (CIHashResult d)
  with step ok show ?thesis using UponHashResult_inv [OF inv, of d] by simp
next
  case (CISignResult sig)
  with step ok show ?thesis by (intro UponChkpSignResult_inv [OF inv, of sig]) simp_all
next
  case (CISigVerified n b sig)
  with step ok show ?thesis by (intro UponChkpSigVerified_inv [OF inv, of n b sig]) simp_all
next
  case (CIClientProgress cp)
  with step show ?thesis by (intro UponClientProgress_inv [OF inv]) simp
next
  case (CICheckpoint n msg)
  with step show ?thesis by (intro applyCheckpointReceived_inv(1) [OF inv]) simp
qed

lemma chkp_reachable_inv: "chkp_reachable env p s \<Longrightarrow> chkp_inv env p s"
  by (induction rule: chkp_reachable.induct) (auto intro: ChkpNewModule_inv ChkpApplyEvent_inv)

subsection \<open>What an announced checkpoint is\<close>

lemma announced_out_ok:
  assumes "chkp_reachable env p s" "COStableCheckpoint sn ss cert \<in> set (chkp_out s)"
  shows "out_ok env p s (COStableCheckpoint sn ss cert)"
  by (rule chkp_invD(5) [OF chkp_reachable_inv [OF assms(1)] assms(2)])

lemma announced_verifies:
  assumes r: "chkp_reachable env p s" and out: "COStableCheckpoint sn ss cert \<in> set (chkp_out s)"
    and m: "membership_ok (cp_Membership p)"
  shows "VerifyCert env \<lparr>sc_Sn = sn, sc_Snapshot = Some ss, sc_Cert = Some cert\<rparr> (cp_Membership p) = Inr ()"
proof -
  note inv = chkp_reachable_inv [OF r]
  from announced_out_ok [OF r out] have o: "sn = ec_FirstSn (cp_EpochConfig p)" "ss = StateSnapshot s"
      "HaveStrongQuorum (cp_Membership p) (GetKeys cert) = Inr True"
      "\<And>n sig. (n, sig) \<in> set cert \<Longrightarrow> sig_ok env p s n sig" and h: "StateSnapshotHash s \<noteq> None"
    by auto
  from h chkp_invD(2) [OF inv] obtain data where data: "serializeSnapshotForHash env ss = Inr data"
      "StateSnapshotHash s = Some (hash env data)"
    by (auto simp: hash_inv_def o)
  have e: "sc_Epoch \<lparr>sc_Sn = sn, sc_Snapshot = Some ss, sc_Cert = Some cert\<rparr> = Inr (ec_EpochNr (cp_EpochConfig p))"
    using chkp_invD(1) [OF inv] by (auto simp: sc_Epoch_def sc_EpochConfig_def sc_EpochData_def snapshot_params_def o)
  show ?thesis
    by (rule VerifyCert_complete [OF m _ _ data(1) e])
       (use o data in \<open>auto simp: sc_CertMap_def sig_ok_def chkp_sig_data_def bval_def\<close>)
qed

text \<open>A stable checkpoint is announced: no reachable state has a quorum of signatures and no announcement.\<close>

definition announced_inv :: "ChkpParams \<Rightarrow> ChkpState \<Rightarrow> bool" where
  "announced_inv p s \<longleftrightarrow> (ChkpStable p s = Inr True \<longrightarrow> Announced s)"

lemma ChkpStable_no_signatures:
  assumes "chkp_inv env p s" "membership_ok (cp_Membership p)" "Signatures s = []"
  shows "ChkpStable p s \<noteq> Inr True"
proof -
  have "0 < strong_threshold (cp_Membership p)" using max_faulty_weight_bounds [OF assms(2)]
    unfolding strong_threshold_def by linarith
  then have "HaveStrongQuorum (cp_Membership p) [] = Inr False"
    using assms(2) by (simp add: HaveStrongQuorum_ok membership_ok_def weight_sum_def)
  with assms show ?thesis by (auto simp: ChkpStable_def GetKeys_def rbind_eq_Inr split: if_splits)
qed

lemma ChkpStable_same:
  "StateSnapshot s' = StateSnapshot s \<Longrightarrow> Signatures s' = Signatures s \<Longrightarrow> ChkpStable p s' = ChkpStable p s"
  by (simp only: ChkpStable_def SnapshotReady_def)

lemma announced_inv_same:
  "announced_inv p s \<Longrightarrow> StateSnapshot s' = StateSnapshot s \<Longrightarrow> Signatures s' = Signatures s \<Longrightarrow> Announced s' = Announced s
     \<Longrightarrow> announced_inv p s'"
  using ChkpStable_same [of s' s p] by (simp add: announced_inv_def)

lemma announce_if_stable_announced: "announce_if_stable p s = Inr s' \<Longrightarrow> announced_inv p s'"
  by (cases "ChkpStable p s") (auto simp: announce_if_stable_def announceStable_def announced_inv_def split: if_splits)

lemma applyCheckpointReceived_announced:
  assumes "announced_inv p s" "applyCheckpointReceived p n msg s = Inr s'"
  shows "announced_inv p s'"
  using assms(2)
  by (intro announced_inv_same [OF assms(1)])
     (auto simp: applyCheckpointReceived_def Let_def rbind_eq_Inr split: if_splits option.splits)

lemma apply_pending_announced:
  "announced_inv p s \<Longrightarrow> apply_pending p ms s = Inr s' \<Longrightarrow> announced_inv p s'"
proof (induction p ms s arbitrary: s' rule: apply_pending.induct)
  case (2 p n msg rest s)
  from 2(3) obtain s1 where s1: "applyCheckpointReceived p n msg s = Inr s1" "apply_pending p rest s1 = Inr s'"
    by (auto simp: rbind_eq_Inr)
  show ?case by (rule 2(1) [OF applyCheckpointReceived_announced [OF 2(2) s1(1)] s1(2)])
qed simp

lemma UponChkpSignResult_announced:
  assumes "UponChkpSignResult p sig s = Inr s'"
  shows "announced_inv p s'"
proof -
  from assms obtain s1 s2 e ms s3 where s2: "announce_if_stable p s1 = Inr s2"
    and s3: "apply_pending p ms (chkp_emit e s2) = Inr s3" and s': "s' = s3\<lparr>PendingMessages := None\<rparr>"
    unfolding UponChkpSignResult_def Let_def by (auto simp: rbind_eq_Inr)
  have "announced_inv p (chkp_emit e s2)" by (rule announced_inv_same [OF announce_if_stable_announced [OF s2]]) simp_all
  from apply_pending_announced [OF this s3] show ?thesis by (rule announced_inv_same) (simp_all add: s')
qed

lemma process_if_ready_same:
  assumes "process_if_ready env s = Inr s'"
  shows "Signatures s' = Signatures s"
  using assms by (auto simp: process_if_ready_def processStateSnapshot_def rbind_eq_Inr split: if_splits)

lemma snapshot_event_announced:
  assumes inv: "chkp_inv env p s" and m: "membership_ok (cp_Membership p)" and a: "announced_inv p s"
    and i: "i = CISnapshot d \<or> i = CIClientProgress cp" and step: "ChkpApplyEvent env p i s = Inr s'"
  shows "announced_inv p s'"
proof (cases "snapshot_ready s")
  case True
  then have "s' = s" using i step by (auto simp: UponSnapshot_def UponClientProgress_def snapshot_ready_def)
  with a show ?thesis by simp
next
  case False
  have ok: "chkp_env_ok env p s i" using i by auto
  have "Signatures s' = Signatures s"
    using i step by (auto simp: UponSnapshot_def UponClientProgress_def rbind_eq_Inr Let_def
        dest!: process_if_ready_same split: if_splits)
  with chkp_inv_not_ready(2) [OF inv False] have "Signatures s' = []" by simp
  from ChkpStable_no_signatures [OF ChkpApplyEvent_inv [OF inv ok step] m this] show ?thesis by (simp add: announced_inv_def)
qed

lemma ChkpApplyEvent_announced:
  assumes inv: "chkp_inv env p s" and m: "membership_ok (cp_Membership p)" and a: "announced_inv p s"
    and step: "ChkpApplyEvent env p i s = Inr s'"
  shows "announced_inv p s'"
proof (cases i)
  case (CIHashResult d)
  with step show ?thesis by (intro announced_inv_same [OF a]) (auto simp: UponHashResult_def Let_def)
next
  case (CISigVerified n b sig)
  with step a show ?thesis by (auto simp: UponChkpSigVerified_def intro: announce_if_stable_announced split: if_splits)
next
  case (CICheckpoint n msg)
  with step show ?thesis by (intro applyCheckpointReceived_announced [OF a]) simp
next
  case (CISignResult sig)
  with step show ?thesis by (auto intro: UponChkpSignResult_announced)
qed (use snapshot_event_announced [OF inv m a _ step] in auto)

lemma chkp_reachable_announced:
  assumes "chkp_reachable env p s" "membership_ok (cp_Membership p)"
  shows "announced_inv p s"
  using assms
proof (induction rule: chkp_reachable.induct)
  case chkp_start
  then show ?case
    using ChkpStable_no_signatures [OF ChkpNewModule_inv] by (simp add: announced_inv_def ChkpNewModule_def)
qed (auto intro: ChkpApplyEvent_announced chkp_reachable_inv)

section \<open>An example run\<close>

fun chkp_exec :: "ChkpEnv \<Rightarrow> ChkpParams \<Rightarrow> ChkpInput list \<Rightarrow> ChkpState \<Rightarrow> ChkpState option" where
  "chkp_exec env p [] s = Some s"
| "chkp_exec env p (i # is) s =
     (if chkp_env_ok env p s i
      then case ChkpApplyEvent env p i s of Inl e \<Rightarrow> None | Inr s' \<Rightarrow> chkp_exec env p is s'
      else None)"

lemma chkp_exec_reachable:
  "chkp_reachable env p s \<Longrightarrow> chkp_exec env p is s = Some s' \<Longrightarrow> chkp_reachable env p s'"
  by (induction env p "is" s rule: chkp_exec.induct) (auto split: if_splits sum.splits intro: chkp_step)

definition ex_chkp_env :: ChkpEnv where
  "ex_chkp_env = \<lparr>memb_Serialize = (\<lambda>m. Inr (concat (map str_bytes (GetSortedKeys (Nodes m))))), HashImpl = (\<lambda>bs. bs),
     Verifier = (\<lambda>data sig n. sig = str_bytes n)\<rparr>"

definition ex_chkp_params :: ChkpParams where
  "ex_chkp_params = \<lparr>cp_OwnID = ''a'', cp_Membership = ex_memb,
     cp_EpochConfig = \<lparr>ec_EpochNr = 2, ec_FirstSn = 8, ec_Length = 8, ec_Memberships = Some [ex_memb, ex_memb]\<rparr>,
     cp_LeaderPolicyData = Some [1], cp_ResendPeriod = 1\<rparr>"

definition ex_chkp_data :: "bytes list" where
  "ex_chkp_data = (case serializeSnapshotForHash ex_chkp_env
     \<lparr>ss_AppData = Some [42], ss_EpochData = Some \<lparr>ed_EpochConfig = Some (cp_EpochConfig ex_chkp_params), ed_ClientProgress = Some [],
        ed_LeaderPolicy = Some [1], ed_PreviousMembership = Some ex_memb\<rparr>\<rparr> of Inr d \<Rightarrow> d | Inl e \<Rightarrow> [])"

definition ex_chkp_msg :: "NodeID \<Rightarrow> CheckpointMsg" where
  "ex_chkp_msg n = \<lparr>cm_Epoch = 2, cm_Sn = 8, cm_SnapshotHash = Some (hash ex_chkp_env ex_chkp_data), cm_Signature = str_bytes n\<rparr>"

text \<open>One message arrives early and is put aside; two signatures of others and the own one suffice.\<close>

definition ex_chkp_inputs :: "ChkpInput list" where
  "ex_chkp_inputs =
     [CISnapshot (Some [42]), CICheckpoint ''b'' (ex_chkp_msg ''b''), CIClientProgress [],
      CIHashResult (Some (hash ex_chkp_env ex_chkp_data)), CISignResult (str_bytes ''a''),
      CICheckpoint ''c'' (ex_chkp_msg ''c''), CISigVerified ''b'' True (str_bytes ''b''),
      CISigVerified ''c'' True (str_bytes ''c''), CICheckpoint ''d'' (ex_chkp_msg ''d'')]"

definition ex_chkp_state :: ChkpState where
  "ex_chkp_state = (case chkp_exec ex_chkp_env ex_chkp_params ex_chkp_inputs (ChkpNewModule ex_chkp_params) of
     Some s \<Rightarrow> s | None \<Rightarrow> ChkpNewModule ex_chkp_params)"

lemma ex_chkp_exec: "chkp_exec ex_chkp_env ex_chkp_params ex_chkp_inputs (ChkpNewModule ex_chkp_params) = Some ex_chkp_state"
proof -
  have "chkp_exec ex_chkp_env ex_chkp_params ex_chkp_inputs (ChkpNewModule ex_chkp_params) \<noteq> None" by code_simp
  then show ?thesis by (auto simp: ex_chkp_state_def)
qed

lemma ex_chkp_reachable: "chkp_reachable ex_chkp_env ex_chkp_params ex_chkp_state"
  by (rule chkp_exec_reachable [OF chkp_start ex_chkp_exec])

lemma ex_chkp_announced:
  "COStableCheckpoint 8 (StateSnapshot ex_chkp_state)
     [(''a'', str_bytes ''a''), (''b'', str_bytes ''b''), (''c'', str_bytes ''c'')] \<in> set (chkp_out ex_chkp_state)"
  by code_simp

section \<open>Properties\<close>

text \<open>
  C5: Every stable checkpoint announced by an instance of the protocol is certified: its
  certificate is a strong quorum of the membership, the snapshot is complete, and the certificate
  passes \<open>VerifyCert\<close> at any node that knows the membership.
\<close>

theorem announced_checkpoint_certified:
  assumes "chkp_reachable env p s" "membership_ok (cp_Membership p)"
    and "COStableCheckpoint sn ss cert \<in> set (chkp_out s)"
  shows "HaveStrongQuorum (cp_Membership p) (GetKeys cert) = Inr True \<and> ss_AppData ss \<noteq> None \<and>
     (\<exists>ed. ss_EpochData ss = Some ed \<and> ed_ClientProgress ed \<noteq> None) \<and>
     VerifyCert env \<lparr>sc_Sn = sn, sc_Snapshot = Some ss, sc_Cert = Some cert\<rparr> (cp_Membership p) = Inr ()"
proof -
  note o = announced_out_ok [OF assms(1,3)]
  then have "snapshot_ready s" using chkp_invD(2) [OF chkp_reachable_inv [OF assms(1)]] by (auto simp: hash_inv_def)
  with o announced_verifies [OF assms(1,3,2)] show ?thesis by (auto simp: snapshot_ready_def)
qed

theorem announced_checkpoint_certified_witness:
  "VerifyCert ex_chkp_env \<lparr>sc_Sn = 8, sc_Snapshot = Some (StateSnapshot ex_chkp_state),
     sc_Cert = Some [(''a'', str_bytes ''a''), (''b'', str_bytes ''b''), (''c'', str_bytes ''c'')]\<rparr> ex_memb = Inr ()"
  using announced_checkpoint_certified [OF ex_chkp_reachable _ ex_chkp_announced] ex_membership_ok
  by (simp add: ex_chkp_params_def)

text \<open>
  C6: An instance announces a stable checkpoint at most once, and has announced it in every
  state in which the snapshot is ready and the valid signatures form a strong quorum.
\<close>

theorem checkpoint_announced_once:
  assumes "chkp_reachable env p s" "membership_ok (cp_Membership p)"
  shows "length (filter is_announcement (chkp_out s)) \<le> 1 \<and>
     (ChkpStable p s = Inr True \<longrightarrow> length (filter is_announcement (chkp_out s)) = 1)"
  using chkp_invD(6) [OF chkp_reachable_inv [OF assms(1)]] chkp_reachable_announced [OF assms]
  by (auto simp: announced_inv_def)

theorem checkpoint_announced_once_witness:
  "ChkpStable ex_chkp_params ex_chkp_state = Inr True \<and> length (filter is_announcement (chkp_out ex_chkp_state)) = 1"
proof
  show "ChkpStable ex_chkp_params ex_chkp_state = Inr True" by code_simp
  then show "length (filter is_announcement (chkp_out ex_chkp_state)) = 1"
    using checkpoint_announced_once [OF ex_chkp_reachable] ex_membership_ok by (simp add: ex_chkp_params_def)
qed

text \<open>
  C7: A certificate accepted by \<open>VerifyCert\<close> holds a valid signature, over exactly the epoch,
  sequence number and snapshot hash of the checkpoint, of a member that is not faulty.
\<close>

theorem verified_cert_has_correct_signer:
  assumes "VerifyCert env sc m = Inr ()" "membership_ok m" "tolerable m F" "gomap_ok (sc_CertMap sc)"
  shows "\<exists>n sig ss data epoch. n \<notin> F \<and> n \<in> node_ids m \<and> (n, sig) \<in> set (sc_CertMap sc) \<and>
     sc_Snapshot sc = Some ss \<and> serializeSnapshotForHash env ss = Inr data \<and> sc_Epoch sc = Inr epoch \<and>
     Verifier env (serializeCheckpointForSig epoch (sc_Sn sc) (hash env data)) sig n"
  by (rule VerifyCert_correct_signer [OF assms])

definition ex_sc :: StableCheckpoint where
  "ex_sc = \<lparr>sc_Sn = 8, sc_Snapshot = Some (StateSnapshot ex_chkp_state), sc_Cert = Some [(''a'', str_bytes ''a''), (''d'', str_bytes ''d'')]\<rparr>"

theorem verified_cert_has_correct_signer_witness:
  "\<exists>n sig ss data epoch. n \<notin> {''d''} \<and> n \<in> node_ids ex_memb \<and> (n, sig) \<in> set (sc_CertMap ex_sc) \<and>
     sc_Snapshot ex_sc = Some ss \<and> serializeSnapshotForHash ex_chkp_env ss = Inr data \<and> sc_Epoch ex_sc = Inr epoch \<and>
     Verifier ex_chkp_env (serializeCheckpointForSig epoch (sc_Sn ex_sc) (hash ex_chkp_env data)) sig n"
  by (rule verified_cert_has_correct_signer [OF _ ex_membership_ok ex_tolerable]) code_simp+

text \<open>
  C33: A certificate naming a node outside the membership crashes \<open>VerifyCert\<close>, in spite of the
  membership check of its loop over the signatures: the quorum check before it dereferences the missing
  node.
\<close>

theorem nonmember_cert_panics:
  assumes "n \<in> fst ` set (sc_CertMap sc)" "n \<notin> node_ids m"
  shows "is_panic (VerifyCert env sc m)"
  by (rule VerifyCert_nonmember_panics [OF assms])

theorem nonmember_cert_panics_witness:
  "is_panic (VerifyCert ex_chkp_env (AttachCert ex_sc [(''z'', [])]) ex_memb)"
  by (rule nonmember_cert_panics [of "''z''"]) (simp_all add: AttachCert_def sc_CertMap_def ex_node_ids)

definition with_progress :: "ClientProgressPb \<Rightarrow> StableCheckpoint \<Rightarrow> StableCheckpoint" where
  "with_progress cp sc = sc\<lparr>sc_Snapshot := map_option (\<lambda>ss. ss\<lparr>ss_EpochData :=
     map_option (\<lambda>ed. ed\<lparr>ed_ClientProgress := Some cp\<rparr>) (ss_EpochData ss)\<rparr>) (sc_Snapshot sc)\<rparr>"

lemma serialize_progress_cong:
  assumes "concat (serializeClientProgressForHash cp) = concat (serializeClientProgressForHash cp')"
  shows "map_sum id concat (serializeSnapshotForHash env (ss\<lparr>ss_EpochData := Some (ed\<lparr>ed_ClientProgress := Some cp\<rparr>)\<rparr>)) =
     map_sum id concat (serializeSnapshotForHash env (ss\<lparr>ss_EpochData := Some (ed\<lparr>ed_ClientProgress := Some cp'\<rparr>)\<rparr>))"
proof (cases "ed_EpochConfig ed")
  case (Some ec)
  show ?thesis
  proof (cases "serializeEpochConfigForHash env ec")
    case (Inr d)
    with Some assms show ?thesis
      by (cases "ed_PreviousMembership ed"; cases "memb_Serialize env (the (ed_PreviousMembership ed))")
         (simp_all add: serializeSnapshotForHash_def serializeEpochDataForHash_def deref_def Let_def)
  qed (use Some in \<open>simp add: serializeSnapshotForHash_def serializeEpochDataForHash_def\<close>)
qed (simp add: serializeSnapshotForHash_def serializeEpochDataForHash_def deref_def)

lemma with_progress_simps [simp]:
  "sc_CertMap (with_progress cp sc) = sc_CertMap sc" "sc_Sn (with_progress cp sc) = sc_Sn sc"
  "sc_Epoch (with_progress cp sc) = sc_Epoch sc"
proof -
  show "sc_Epoch (with_progress cp sc) = sc_Epoch sc"
    by (cases "sc_Snapshot sc"; cases "ss_EpochData (the (sc_Snapshot sc))")
       (simp_all add: with_progress_def sc_Epoch_def sc_EpochConfig_def sc_EpochData_def deref_def)
qed (simp_all add: sc_CertMap_def with_progress_def)

lemma with_progress_hash_cong:
  assumes "concat (serializeClientProgressForHash cp) = concat (serializeClientProgressForHash cp')"
  shows "rbind (deref (sc_Snapshot (with_progress cp sc))) (\<lambda>ss. rbind (serializeSnapshotForHash env ss) (\<lambda>d. f (hash env d))) =
     rbind (deref (sc_Snapshot (with_progress cp' sc))) (\<lambda>ss. rbind (serializeSnapshotForHash env ss) (\<lambda>d. f (hash env d)))"
proof (cases "sc_Snapshot sc")
  case ss: (Some ss)
  show ?thesis
  proof (cases "ss_EpochData ss")
    case (Some ed)
    let ?s = "\<lambda>cp. serializeSnapshotForHash env (ss\<lparr>ss_EpochData := Some (ed\<lparr>ed_ClientProgress := Some cp\<rparr>)\<rparr>)"
    have "map_sum id concat (?s cp) = map_sum id concat (?s cp')" by (rule serialize_progress_cong [OF assms])
    with ss Some show ?thesis
      by (cases "?s cp"; cases "?s cp'") (simp_all add: with_progress_def hash_def)
  qed (simp add: with_progress_def ss)
qed (simp add: with_progress_def)

lemma VerifyCert_progress_cong:
  assumes "concat (serializeClientProgressForHash cp) = concat (serializeClientProgressForHash cp')"
  shows "VerifyCert env (with_progress cp sc) m = VerifyCert env (with_progress cp' sc) m"
  unfolding VerifyCert_def with_progress_simps
  using with_progress_hash_cong [OF assms, of sc env "\<lambda>h. rbind (sc_Epoch sc) (\<lambda>epoch. check_signatures env
    (serializeCheckpointForSig epoch (sc_Sn sc) h) m (sc_CertMap sc))"] by presburger

text \<open>
  C29: The signed hash does not bind the client progress. The serialisation of a snapshot is
  hashed as a concatenation without delimiters, so there are two client progress values, one of which
  has forgotten that a transaction was delivered, that are interchangeable in any checkpoint: the
  certificate of one is accepted for the other.
\<close>

theorem client_progress_not_bound:
  "\<exists>cp cp' c txNo. ClientProgress_Contains (ClientProgress_LoadPb cp) c txNo \<and>
     \<not> ClientProgress_Contains (ClientProgress_LoadPb cp') c txNo \<and>
     (\<forall>env sc m. VerifyCert env (with_progress cp sc) m = VerifyCert env (with_progress cp' sc) m)"
proof -
  let ?cp = "[(''a'', \<lparr>LowWm = 1, Delivered = []\<rparr>), (''b'', \<lparr>LowWm = 2, Delivered = []\<rparr>)]"
  let ?cp' = "[(''a'' @ CHR 0x01 # replicate 7 (CHR 0x00) @ ''b'', \<lparr>LowWm = 2, Delivered = []\<rparr>)]"
  have "concat (serializeClientProgressForHash ?cp) = concat (serializeClientProgressForHash ?cp')" by code_simp
  then have "\<forall>env sc m. VerifyCert env (with_progress ?cp sc) m = VerifyCert env (with_progress ?cp' sc) m"
    by (intro allI VerifyCert_progress_cong)
  moreover have "ClientProgress_Contains (ClientProgress_LoadPb ?cp) ''a'' 0"
    "\<not> ClientProgress_Contains (ClientProgress_LoadPb ?cp') ''a'' 0" by code_simp+
  ultimately show ?thesis by blast
qed

lemma positive_offset:
  assumes "0 < chkpMembershipOffset epoch epochNr" "unat epochNr < 2 ^ 62"
  shows "int (unat epoch) = int (unat epochNr) + 1 + chkpMembershipOffset epoch epochNr"
proof -
  define w where "w = epoch - 1 - epochNr"
  have pos: "0 < sint w" using assms(1) by (simp add: w_def chkpMembershipOffset_def)
  have w: "unat w < 2 ^ 63"
  proof (rule ccontr)
    assume "\<not> unat w < 2 ^ 63"
    then have "sint w < 0" using sint_large [of w] uint_lt2p [of w] by simp
    with pos show False by simp
  qed
  have s: "sint w = int (unat w)" by (rule sint_small [OF w])
  have "epoch = w + (1 + epochNr)" by (simp add: w_def)
  moreover have "unat (1 + epochNr) = 1 + unat epochNr"
    using assms(2) by (simp add: unat_word_ariths take_bit_eq_mod)
  moreover have "unat (w + (1 + epochNr)) = unat w + (1 + unat epochNr)"
    using w assms(2) calculation by (simp add: unat_word_ariths take_bit_eq_mod)
  ultimately show ?thesis using s by (simp add: chkpMembershipOffset_def w_def)
qed



end
