(* ===== verification/IssConfig.thy ===== *)
theory IssConfig
  imports PbftOrderer Checkpoint
begin

text \<open>
  The configuration of ISS (\<open>pkg/iss/config\<close>), the initial state snapshot, and the construction of
  orderer instances from it (\<open>pkg/orderers/factory.go\<close>). The main lemma says that the initial
  checkpoint derived from any configuration that passes \<open>CheckParams\<close> passes the verification that an
  ISS instance performs on its starting checkpoint.
\<close>

section \<open>Parameters\<close>

text \<open>Durations are signed 64-bit integers; products wrap around.\<close>

definition int64 :: "int \<Rightarrow> int" where
  "int64 i = sint (of_int i :: uint64)"

record IssParams =
  ip_InitialMembership :: Membership
  ip_ConfigOffset :: int
  ip_SegmentLength :: int
  ip_EpochLength :: int
  ip_MaxProposeDelay :: int
  ip_MsgBufCapacity :: int
  ip_RetainedEpochs :: int
  ip_CatchUpTimerPeriod :: int
  ip_CheckpointResendPeriod :: int
  ip_LeaderSelectionPolicy :: string
  ip_PBFTDoneResendPeriod :: int
  ip_PBFTCatchUpDelay :: int
  ip_PBFTViewChangeSNTimeout :: int
  ip_PBFTViewChangeSegmentTimeout :: int
  ip_PBFTViewChangeResendPeriod :: int

definition CheckParams :: "IssParams \<Rightarrow> unit res" where
  "CheckParams c =
     rbind (Membership_Valid (ip_InitialMembership c)) (\<lambda>_.
       if ip_ConfigOffset c < 1 then Inl (Error ''config offset must be at least 1'')
       else if ip_SegmentLength c < 0 then Inl (Error ''negative SegmentLength'')
       else if ip_EpochLength c < 0 then Inl (Error ''negative EpochLength'')
       else if (ip_EpochLength c \<noteq> 0 \<and> ip_SegmentLength c \<noteq> 0) \<or> (ip_EpochLength c = 0 \<and> ip_SegmentLength c = 0)
       then Inl (Error ''conflicting EpochLength and SegmentLength'')
       else if ip_MaxProposeDelay c < 0 then Inl (Error ''negative MaxProposeDelay'')
       else if ip_MsgBufCapacity c < 0 then Inl (Error ''negative MsgBufCapacity'')
       else if ip_CatchUpTimerPeriod c \<le> 0 then Inl (Error ''non-positive CatchUpTimerPeriod'')
       else Inr ())"

definition AdjustSpeed :: "IssParams \<Rightarrow> int \<Rightarrow> IssParams" where
  "AdjustSpeed mp maxProposeDelay =
     mp\<lparr>ip_MaxProposeDelay := maxProposeDelay,
        ip_CatchUpTimerPeriod := maxProposeDelay,
        ip_PBFTDoneResendPeriod := maxProposeDelay,
        ip_PBFTCatchUpDelay := maxProposeDelay,
        ip_CheckpointResendPeriod := maxProposeDelay,
        ip_PBFTViewChangeSNTimeout := int64 (4 * maxProposeDelay),
        ip_PBFTViewChangeSegmentTimeout := int64 (2 * ip_SegmentLength mp * maxProposeDelay),
        ip_PBFTViewChangeResendPeriod := maxProposeDelay\<rparr>"

text \<open>\<open>time.Second\<close> in nanoseconds.\<close>

definition time_Second :: int where
  "time_Second = 1000000000"

definition DefaultParams :: "Membership \<Rightarrow> IssParams" where
  "DefaultParams initialMembership = AdjustSpeed
     \<lparr>ip_InitialMembership = initialMembership, ip_ConfigOffset = 2, ip_SegmentLength = 4, ip_EpochLength = 0,
      ip_MaxProposeDelay = 0, ip_MsgBufCapacity = 32 * 1024 * 1024, ip_RetainedEpochs = 1, ip_CatchUpTimerPeriod = 0,
      ip_CheckpointResendPeriod = 0, ip_LeaderSelectionPolicy = ''simple'', ip_PBFTDoneResendPeriod = 0,
      ip_PBFTCatchUpDelay = 0, ip_PBFTViewChangeSNTimeout = 0, ip_PBFTViewChangeSegmentTimeout = 0,
      ip_PBFTViewChangeResendPeriod = 0\<rparr> time_Second"

section \<open>The initial snapshot\<close>

definition InitialStateSnapshot :: "(LeaderPolicy \<Rightarrow> bytes res) \<Rightarrow> gobytes \<Rightarrow> IssParams \<Rightarrow> StateSnapshot res" where
  "InitialStateSnapshot enc appState params =
     rbind (Repeat (ip_InitialMembership params) (ip_ConfigOffset params + 1)) (\<lambda>memberships.
      let leaderPolicyData =
            (if ip_LeaderSelectionPolicy params = ''simple''
             then LeaderPolicy_Bytes enc (NewSimpleLeaderPolicy (ip_InitialMembership params))
             else if ip_LeaderSelectionPolicy params = ''blacklist''
             then LeaderPolicy_Bytes enc (NewBlackListLeaderPolicy (ip_InitialMembership params))
             else Inl (Error ''unknown leader selection policy type''))
      in rbind leaderPolicyData (\<lambda>data. Inr
           \<lparr>ss_AppData = appState,
            ss_EpochData = Some
              \<lparr>ed_EpochConfig = Some
                 \<lparr>ec_EpochNr = 0, ec_FirstSn = 0,
                  ec_Length = of_int (ip_SegmentLength params * int (length (Nodes (ip_InitialMembership params)))),
                  ec_Memberships = Some memberships\<rparr>,
               ed_ClientProgress = Some (ClientProgress_Pb NewClientProgress),
               ed_LeaderPolicy = Some data,
               ed_PreviousMembership = Some \<lparr>Nodes = []\<rparr>\<rparr>\<rparr>))"

section \<open>Construction of orderers\<close>

definition newOrdererConfig :: "IssParams \<Rightarrow> NodeID list \<Rightarrow> EpochNr \<Rightarrow> PBFTConfig" where
  "newOrdererConfig issParams membership epochNr =
     \<lparr>cfg_Membership = membership,
      cfg_MaxProposeDelay = of_int (ip_MaxProposeDelay issParams),
      cfg_DoneResendPeriod = of_int (ip_PBFTDoneResendPeriod issParams),
      cfg_CatchUpDelay = of_int (ip_PBFTCatchUpDelay issParams),
      cfg_MsgBufCapacity = ip_MsgBufCapacity issParams,
      cfg_ViewChangeSNTimeout = of_int (ip_PBFTViewChangeSNTimeout issParams),
      cfg_ViewChangeSegmentTimeout = of_int (ip_PBFTViewChangeSegmentTimeout issParams),
      cfg_ViewChangeResendPeriod = of_int (ip_PBFTViewChangeResendPeriod issParams),
      cfg_EpochNr = epochNr\<rparr>"

text \<open>
  The function the orderer factory calls for a new instance: its configuration and initial state. An
  orderer for checkpoints, recognised by its proposal validator, proposes without delay.
\<close>

definition ordererFactory ::
  "IssParams \<Rightarrow> NodeID \<Rightarrow> (PbftMessage \<Rightarrow> nat) \<Rightarrow> ModuleID \<Rightarrow> Segment \<Rightarrow> EpochNr \<Rightarrow> ModuleID \<Rightarrow> PbftParams \<times> PbftState" where
  "ordererFactory issParams ownID msgSize submoduleID segment epoch ppvID =
     (let ordererConfig = newOrdererConfig issParams (NodeIDs segment) epoch;
          ordererConfig = (if ppvID = ModuleID_Then ''pprepvalidatorchkp'' (Sprintf_uint epoch)
                           then ordererConfig\<lparr>cfg_MaxProposeDelay := 0\<rparr> else ordererConfig);
          params = \<lparr>OwnID = ownID, Config = ordererConfig, Self = submoduleID, proto_Size = msgSize\<rparr>
      in (params, NewOrdererModule segment params))"

section \<open>Lemmas\<close>

lemma CheckParams_ok:
  assumes "CheckParams c = Inr ()"
  shows "Membership_Valid (ip_InitialMembership c) = Inr ()" "1 \<le> ip_ConfigOffset c"
    "0 \<le> ip_SegmentLength c" "0 \<le> ip_EpochLength c" "ip_SegmentLength c = 0 \<longleftrightarrow> ip_EpochLength c \<noteq> 0"
    "0 \<le> ip_MsgBufCapacity c" "0 < ip_CatchUpTimerPeriod c"
  using assms by (auto simp: CheckParams_def rbind_eq_Inr split: if_splits)

lemma valid_memberships_replicate: "Membership_Valid m = Inr () \<Longrightarrow> valid_memberships (replicate n m) = Inr ()"
  by (induction n) auto

lemma Repeat_replicate: "0 \<le> n \<Longrightarrow> Repeat x n = Inr (replicate (nat n) x)"
  by (simp add: Repeat_def)

text \<open>Every entry consistent with what has been seen: nothing changes once all nodes have been seen.\<close>

lemma consistent_nodes_seen:
  "\<forall>(n, node) \<in> set ns. map_of seen n = Some node \<Longrightarrow> consistent_nodes seen ns = Inr seen"
  by (induction ns) auto

lemma consistent_nodes_fresh:
  assumes "gomap_ok ns" "\<And>n node node'. (n, node) \<in> set ns \<Longrightarrow> map_of seen n = Some node' \<Longrightarrow> node' = node"
  shows "\<exists>seen'. consistent_nodes seen ns = Inr seen' \<and> (\<forall>(n, node) \<in> set ns. map_of seen' n = Some node) \<and>
     (\<forall>n. n \<notin> fst ` set ns \<longrightarrow> map_of seen' n = map_of seen n)"
  using assms
proof (induction seen ns rule: consistent_nodes.induct)
  case (2 seen n node rest)
  show ?case
  proof (cases "map_of seen n")
    case None
    have "\<exists>seen'. consistent_nodes (AList.update n node seen) rest = Inr seen' \<and>
        (\<forall>(n, node) \<in> set rest. map_of seen' n = Some node) \<and>
        (\<forall>k. k \<notin> fst ` set rest \<longrightarrow> map_of seen' k = map_of (AList.update n node seen) k)"
    proof (rule 2(1) [OF None])
      fix k nd nd'
      assume k: "(k, nd) \<in> set rest" "map_of (AList.update n node seen) k = Some nd'"
      then have "k \<noteq> n" using 2(3) by force
      with k 2(4) [of k nd nd'] show "nd' = nd" by simp
    qed (use 2(3) in simp)
    with None 2(3) show ?thesis by (auto simp: image_iff)
  next
    case (Some node')
    with 2(4) [of n node node'] have "node' = node" by simp
    moreover have "\<exists>seen'. consistent_nodes seen rest = Inr seen' \<and> (\<forall>(n, node) \<in> set rest. map_of seen' n = Some node) \<and>
        (\<forall>k. k \<notin> fst ` set rest \<longrightarrow> map_of seen' k = map_of seen k)"
    proof (rule 2(2) [OF Some])
      fix k nd nd'
      assume "(k, nd) \<in> set rest" "map_of seen k = Some nd'"
      then show "nd' = nd" using 2(4) [of k nd nd'] by simp
    qed (use 2(3) calculation in auto)
    ultimately show ?thesis using Some 2(3) by (auto simp: image_iff)
  qed
qed simp

lemma consistent_memberships_replicate:
  assumes "gomap_ok (Nodes m)"
  shows "consistent_memberships [] (replicate n m) = Inr ()"
proof (cases n)
  case (Suc k)
  obtain seen where s: "consistent_nodes [] (Nodes m) = Inr seen" "\<forall>(n, node) \<in> set (Nodes m). map_of seen n = Some node"
    using consistent_nodes_fresh [OF assms, of "[]"] by auto
  have "consistent_memberships seen (replicate k m) = Inr ()"
    by (induction k) (use s(2) in \<open>auto simp: consistent_nodes_seen\<close>)
  with s(1) Suc show ?thesis by simp
qed simp

lemma genesis_verifies:
  assumes c: "CheckParams c = Inr ()" and m: "gomap_ok (Nodes (ip_InitialMembership c))"
    and ss: "InitialStateSnapshot enc (Some app) c = Inr ss"
  shows "sc_Verify env (Genesis ss) (ip_ConfigOffset c) m' = Inr ()"
proof -
  let ?ms = "replicate (nat (ip_ConfigOffset c + 1)) (ip_InitialMembership c)"
  note ok = CheckParams_ok [OF c]
  from ss obtain data len where s: "ss = \<lparr>ss_AppData = Some app, ss_EpochData = Some
       \<lparr>ed_EpochConfig = Some \<lparr>ec_EpochNr = 0, ec_FirstSn = 0, ec_Length = len, ec_Memberships = Some ?ms\<rparr>,
        ed_ClientProgress = Some (ClientProgress_Pb NewClientProgress), ed_LeaderPolicy = Some data,
        ed_PreviousMembership = Some \<lparr>Nodes = []\<rparr>\<rparr>\<rparr>"
    using ok(2) by (auto simp: InitialStateSnapshot_def Let_def rbind_eq_Inr Repeat_replicate)
  have acc: "sc_Epoch (Genesis ss) = Inr 0" "sc_Memberships (Genesis ss) = Inr (Some ?ms)"
      "sc_PreviousMembership (Genesis ss) = Inr (Some \<lparr>Nodes = []\<rparr>)"
    by (simp_all add: s Genesis_def sc_Epoch_def sc_Memberships_def sc_EpochConfig_def sc_EpochData_def sc_PreviousMembership_def)
  have "SyntacticCheck (Genesis ss) (ip_ConfigOffset c) = Inr ()"
    using ok(1,2) valid_memberships_replicate [OF ok(1)]
    by (simp add: s Genesis_def SyntacticCheck_def)
  moreover have "verifyMembershipConsistency (Genesis ss) m' = Inr ()"
    using consistent_memberships_replicate [OF m] by (simp add: verifyMembershipConsistency_def acc)
  ultimately show ?thesis by (simp add: sc_Verify_def acc)
qed

section \<open>Properties\<close>





end
