(* ===== verification/Iss.thy ===== *)
theory Iss
  imports IssConfig
begin

text \<open>
  The ISS module (\<open>pkg/iss/iss.go\<close>): epochs, the commit log and its in-order delivery, the transition
  between epochs with the membership pipeline and the leader policy, agreement on common checkpoints,
  and state transfer.

  Protobuf and CBOR encodings are parameters, bundled in a record \<open>IssEnv\<close>. The leader policy is one
  mutable object shared by the module and the current epoch; the model keeps it once, in \<open>iss_LeaderPolicy\<close>,
  as the epoch's reference to it is read only while the two coincide. Handlers have the form
  \<open>state \<Rightarrow> state res\<close>, with the emitted events appended to \<open>iss_out\<close>.
\<close>

section \<open>Data\<close>

text \<open>Availability certificates (\<open>pkg/pb/availabilitypb\<close>).\<close>

record MscCert =
  msc_BatchId :: bytes
  msc_Signers :: "NodeID list"
  msc_Signatures :: "bytes list"

datatype Cert = CertMscs "MscCert list"

record CommitLogEntry =
  cle_Sn :: SeqNr
  cle_CertData :: bytes
  cle_Digest :: gobytes
  cle_Aborted :: bool
  cle_Suspect :: NodeID

record epochInfo =
  ei_nr :: EpochNr
  ei_firstSN :: SeqNr
  ei_Membership :: Membership
  ei_Segments :: "Segment list"

definition newEpochInfo :: "EpochNr \<Rightarrow> SeqNr \<Rightarrow> Membership \<Rightarrow> epochInfo" where
  "newEpochInfo nr firstSN m = \<lparr>ei_nr = nr, ei_firstSN = firstSN, ei_Membership = m, ei_Segments = []\<rparr>"

definition epoch_Len :: "epochInfo \<Rightarrow> nat" where
  "epoch_Len e = sum_list (map Segment_Len (ei_Segments e))"

record IssModuleConfig =
  mc_Self :: ModuleID
  mc_App :: ModuleID
  mc_Availability :: ModuleID
  mc_BatchDB :: ModuleID
  mc_Checkpoint :: ModuleID
  mc_ChkpValidator :: ModuleID
  mc_Net :: ModuleID
  mc_Ordering :: ModuleID
  mc_PPrepValidator :: ModuleID
  mc_PPrepValidatorChkp :: ModuleID
  mc_Timer :: ModuleID

text \<open>The contexts of requests to other modules.\<close>

record verifyCertContext =
  vc_sn :: SeqNr
  vc_data :: bytes
  vc_aborted :: bool
  vc_leader :: NodeID

datatype IssOut =
    IORestoreState StableCheckpoint
  | IONewEpoch EpochNr
  | IONewAvailability ModuleID EpochNr Membership uint64
  | IOComputeCert ModuleID
  | IONewOrderer ModuleID Segment ModuleID EpochNr ModuleID
  | IONewPPV ModuleID Membership EpochNr
  | IONewCheckpoint ModuleID ChkpParams EpochNr
  | IOSnapshotRequest ModuleID
  | IOVerifyCert ModuleID Cert verifyCertContext
  | IODeliverCert SeqNr Cert bool
  | IOStableCheckpoint SeqNr StateSnapshot "Certificate option"
  | IOSendCheckpoint StableCheckpoint "NodeID list"
  | IOValidateCheckpoint StableCheckpoint EpochNr "Membership list"
  | IOGarbageCollect ModuleID RetentionIndex
  | IOPushTimer int RetentionIndex

record IssEnv =
  ie_chkp :: ChkpEnv
  UnmarshalCert :: "bytes \<Rightarrow> Cert res"
  SerializeChkp :: "StableCheckpoint \<Rightarrow> bytes res"
  DeserializeChkp :: "bytes \<Rightarrow> StableCheckpoint res"
  encPolicy :: "LeaderPolicy \<Rightarrow> bytes res"
  decSimple :: "bytes \<Rightarrow> NodeID list res"
  decBlacklist :: "bytes \<Rightarrow> BlacklistLeaderPolicy res"

text \<open>What does not change after construction: own identifier, module configuration, parameters.\<close>

record IssConf =
  ic_ownID :: NodeID
  ic_mc :: IssModuleConfig
  ic_Params :: IssParams

record IssState =
  iss_epoch :: "epochInfo option"
  iss_epochs :: "(EpochNr, epochInfo) gomap"
  iss_nodeEpochMap :: "(NodeID, EpochNr) gomap"
  iss_memberships :: "Membership list"
  iss_nextNewMembership :: "Membership option"
  iss_commitLog :: "(SeqNr, CommitLogEntry) gomap"
  iss_nextDeliveredSN :: SeqNr
  iss_newEpochSN :: SeqNr
  iss_lastStableCheckpoint :: StableCheckpoint
  iss_lastPendingCheckpointSN :: SeqNr
  iss_LeaderPolicy :: LeaderPolicy
  iss_out :: "IssOut list"

definition iss_emit :: "IssOut \<Rightarrow> IssState \<Rightarrow> IssState" where
  "iss_emit e s = s\<lparr>iss_out := iss_out s @ [e]\<rparr>"

text \<open>The current epoch, nil before the Init event.\<close>

definition cur_epoch :: "IssState \<Rightarrow> epochInfo res" where
  "cur_epoch s = deref (iss_epoch s)"

definition sub_module :: "ModuleID \<Rightarrow> uint64 \<Rightarrow> ModuleID" where
  "sub_module mid n = ModuleID_Then mid (Sprintf_uint n)"

definition IssNew :: "IssEnv \<Rightarrow> IssConf \<Rightarrow> StableCheckpoint \<Rightarrow> IssState res" where
  "IssNew env c startingChkp =
     rbind (CheckParams (ic_Params c)) (\<lambda>_.
     rbind (sc_EpochData startingChkp) (\<lambda>ed.
     rbind (LeaderPolicyFromBytes (decSimple env) (decBlacklist env) (bval (ed_LeaderPolicy ed))) (\<lambda>leaderPolicy.
     rbind (sc_Verify (ie_chkp env) startingChkp (ip_ConfigOffset (ic_Params c)) (ip_InitialMembership (ic_Params c))) (\<lambda>_.
     rbind (sc_Memberships startingChkp) (\<lambda>ms. rbind (deref ms) (\<lambda>ms.
       Inr \<lparr>iss_epoch = None, iss_epochs = [], iss_nodeEpochMap = [], iss_memberships = ms,
            iss_nextNewMembership = None, iss_commitLog = [], iss_nextDeliveredSN = sc_Sn startingChkp,
            iss_newEpochSN = sc_Sn startingChkp, iss_lastStableCheckpoint = startingChkp,
            iss_lastPendingCheckpointSN = 0, iss_LeaderPolicy = leaderPolicy, iss_out = []\<rparr>))))))"

section \<open>Starting an epoch\<close>

text \<open>
  \<open>freeProposals\<close>: the sequence numbers of a segment, all with a nil proposal. The loop variables are
  the number of remaining iterations and the next sequence number.
\<close>

fun freeProposals_loop :: "nat \<Rightarrow> SeqNr \<Rightarrow> SeqNr \<Rightarrow> (SeqNr, gobytes) gomap \<Rightarrow> (SeqNr, gobytes) gomap" where
  "freeProposals_loop 0 nextSn step seqNrs = seqNrs"
| "freeProposals_loop (Suc k) nextSn step seqNrs =
     freeProposals_loop k (nextSn + step) step (AList.update nextSn None seqNrs)"

definition freeProposals :: "SeqNr \<Rightarrow> SeqNr \<Rightarrow> int \<Rightarrow> (SeqNr, gobytes) gomap" where
  "freeProposals start step len = freeProposals_loop (nat len) start step []"

definition initAvailability :: "IssConf \<Rightarrow> IssState \<Rightarrow> IssState res" where
  "initAvailability c s =
     rbind (cur_epoch s) (\<lambda>e. rbind (index (iss_memberships s) 0) (\<lambda>m.
       let availabilityID = sub_module (mc_Availability (ic_mc c)) (ei_nr e)
       in Inr (iss_emit (IOComputeCert availabilityID)
            (iss_emit (IONewAvailability availabilityID (ei_nr e) m (of_int (ip_SegmentLength (ic_Params c)))) s))))"

text \<open>One iteration of the loop of \<open>initOrderers\<close>: the orderer of the \<open>i\<close>-th leader's segment.\<close>

definition add_segment :: "IssConf \<Rightarrow> nat \<Rightarrow> epochInfo \<Rightarrow> Segment \<Rightarrow> IssState \<Rightarrow> IssState" where
  "add_segment c i e seg s =
     (let s = s\<lparr>iss_newEpochSN := iss_newEpochSN s + of_nat (Segment_Len seg)\<rparr>;
          s = iss_emit (IONewOrderer (ModuleID_Then (sub_module (mc_Ordering (ic_mc c)) (ei_nr e)) (nat_String i)) seg
                (sub_module (mc_Availability (ic_mc c)) (ei_nr e)) (ei_nr e) (mc_PPrepValidator (ic_mc c))) s;
          e = e\<lparr>ei_Segments := ei_Segments e @ [seg]\<rparr>
      in s\<lparr>iss_epoch := Some e, iss_epochs := AList.update (ei_nr e) e (iss_epochs s)\<rparr>)"

fun initOrderers_loop :: "IssConf \<Rightarrow> nat \<Rightarrow> nat \<Rightarrow> NodeID list \<Rightarrow> IssState \<Rightarrow> IssState res" where
  "initOrderers_loop c n i [] s = Inr s"
| "initOrderers_loop c n i (leader # ls) s =
     rbind (cur_epoch s) (\<lambda>e.
     rbind (NewSegment leader (ei_Membership e)
              (freeProposals (iss_nextDeliveredSN s + of_nat i) (of_nat n) (ip_SegmentLength (ic_Params c)))) (\<lambda>seg.
       initOrderers_loop c n (Suc i) ls (add_segment c i e seg s)))"

definition initOrderers :: "IssConf \<Rightarrow> IssState \<Rightarrow> IssState res" where
  "initOrderers c s =
     rbind (Leaders (iss_LeaderPolicy s)) (\<lambda>leaders. initOrderers_loop c (length leaders) 0 leaders s)"

definition startEpoch :: "IssConf \<Rightarrow> EpochNr \<Rightarrow> IssState \<Rightarrow> IssState res" where
  "startEpoch c epochNr s =
     rbind (index (iss_memberships s) 0) (\<lambda>m.
       let epoch = newEpochInfo epochNr (iss_newEpochSN s) m;
           s = s\<lparr>iss_epochs := AList.update epochNr epoch (iss_epochs s), iss_epoch := Some epoch\<rparr>;
           s = iss_emit (IONewEpoch epochNr) s
       in rbind (initAvailability c s) (initOrderers c))"

section \<open>Delivering\<close>

definition hasEpochCheckpoint :: "IssState \<Rightarrow> bool res" where
  "hasEpochCheckpoint s =
     rbind (cur_epoch s) (\<lambda>e. Inr (sc_Sn (iss_lastStableCheckpoint s) = ei_firstSN e))"

definition epochFinished :: "IssState \<Rightarrow> bool res" where
  "epochFinished s =
     (if iss_nextDeliveredSN s \<noteq> iss_newEpochSN s then Inr False
      else rbind (hasEpochCheckpoint s) (\<lambda>b. Inr (b \<and> iss_nextNewMembership s \<noteq> None)))"

text \<open>
  \<open>advanceEpoch\<close>. It is called only when a new membership is known; a nil membership entering the
  pipeline would be dereferenced later.
\<close>

definition advanceEpoch :: "IssEnv \<Rightarrow> IssConf \<Rightarrow> IssState \<Rightarrow> IssState res" where
  "advanceEpoch env c s =
     rbind (cur_epoch s) (\<lambda>e.
     rbind (index (iss_memberships s) 0) (\<lambda>oldMembership.
     rbind (deref (iss_nextNewMembership s)) (\<lambda>next.
       let newEpochNr = ei_nr e + 1;
           s = s\<lparr>iss_memberships := tl (iss_memberships s) @ [next], iss_nextNewMembership := None\<rparr>
       in rbind (index (iss_memberships s) 0) (\<lambda>m.
            let s = s\<lparr>iss_LeaderPolicy := Reconfigure (iss_LeaderPolicy s) m\<rparr>
            in rbind (LeaderPolicy_Bytes (encPolicy env) (iss_LeaderPolicy s)) (\<lambda>leaderPolicyData.
               rbind (startEpoch c newEpochNr s) (\<lambda>s. rbind (cur_epoch s) (\<lambda>e.
                 let chkpModuleID = sub_module (mc_Checkpoint (ic_mc c)) newEpochNr;
                     s = iss_emit (IONewCheckpoint chkpModuleID
                           \<lparr>cp_OwnID = ic_ownID c, cp_Membership = oldMembership,
                            cp_EpochConfig = \<lparr>ec_EpochNr = ei_nr e, ec_FirstSn = ei_firstSN e, ec_Length = of_nat (epoch_Len e),
                              ec_Memberships = Some (iss_memberships s)\<rparr>,
                            cp_LeaderPolicyData = Some leaderPolicyData, cp_ResendPeriod = time_Second\<rparr> newEpochNr) s
                 in Inr (iss_emit (IOSnapshotRequest chkpModuleID) s))))))))"

text \<open>
  One iteration of the delivery loop: the certificate to deliver and the leader policy after it; an
  aborted entry delivers an empty certificate and raises a suspicion.
\<close>

definition deliver_entry :: "IssEnv \<Rightarrow> IssState \<Rightarrow> CommitLogEntry \<Rightarrow> (Cert \<times> LeaderPolicy) res" where
  "deliver_entry env s logEntry =
     (if cle_Aborted logEntry
      then rbind (cur_epoch s) (\<lambda>e. Inr (CertMscs [], Suspect (iss_LeaderPolicy s) (ei_nr e) (cle_Suspect logEntry)))
      else case UnmarshalCert env (cle_CertData logEntry) of
             Inl e \<Rightarrow> Inl (Error ''cannot unmarshal availability certificate'')
           | Inr cert \<Rightarrow> Inr (cert, iss_LeaderPolicy s))"

definition delivered_state :: "CommitLogEntry \<Rightarrow> Cert \<Rightarrow> LeaderPolicy \<Rightarrow> IssState \<Rightarrow> IssState" where
  "delivered_state logEntry cert pol s =
     (iss_emit (IODeliverCert (iss_nextDeliveredSN s) cert (cle_Aborted logEntry)) s)
       \<lparr>iss_LeaderPolicy := pol, iss_commitLog := AList.delete (iss_nextDeliveredSN s) (iss_commitLog s),
        iss_nextDeliveredSN := iss_nextDeliveredSN s + 1\<rparr>"

function deliver_loop :: "IssEnv \<Rightarrow> IssState \<Rightarrow> IssState res" where
  "deliver_loop env s =
     (case map_of (iss_commitLog s) (iss_nextDeliveredSN s) of
        None \<Rightarrow> Inr s
      | Some logEntry \<Rightarrow>
          rbind (deliver_entry env s logEntry) (\<lambda>d. deliver_loop env (delivered_state logEntry (fst d) (snd d) s)))"
  by pat_completeness auto
termination
proof (relation "measure (\<lambda>(_, s). length (iss_commitLog s))", goal_cases)
  case (2 env s logEntry d)
  then have "iss_nextDeliveredSN s \<in> fst ` set (iss_commitLog s)"
    using mhas_iff [of "iss_commitLog s" "iss_nextDeliveredSN s"] by simp
  from length_mdel_less [OF this] show ?case by (simp add: delivered_state_def)
qed simp

declare deliver_loop.simps [simp del]

definition processCommitted :: "IssEnv \<Rightarrow> IssConf \<Rightarrow> IssState \<Rightarrow> IssState res" where
  "processCommitted env c s =
     rbind (hasEpochCheckpoint s) (\<lambda>has.
       if \<not> has then Inr s
       else rbind (deliver_loop env s) (\<lambda>s.
            rbind (epochFinished s) (\<lambda>fin. if fin then advanceEpoch env c s else Inr s)))"

definition serializeLogEntryForHashing :: "CommitLogEntry \<Rightarrow> bytes list" where
  "serializeLogEntryForHashing entry =
     [Uint64ToBytes (cle_Sn entry), str_bytes (cle_Suspect entry), [if cle_Aborted entry then 1 else 0], cle_CertData entry]"

definition deliverCert :: "IssEnv \<Rightarrow> IssConf \<Rightarrow> SeqNr \<Rightarrow> bytes \<Rightarrow> bool \<Rightarrow> NodeID \<Rightarrow> IssState \<Rightarrow> IssState res" where
  "deliverCert env c sn data aborted leader s =
     (let logEntry = \<lparr>cle_Sn = sn, cle_CertData = data, cle_Digest = None, cle_Aborted = aborted, cle_Suspect = leader\<rparr>;
          digest = hash (ie_chkp env) (serializeLogEntryForHashing logEntry);
          logEntry = logEntry\<lparr>cle_Digest := Some digest\<rparr>
      in processCommitted env c (s\<lparr>iss_commitLog := AList.update (cle_Sn logEntry) logEntry (iss_commitLog s)\<rparr>))"

definition verifyCert :: "IssEnv \<Rightarrow> IssConf \<Rightarrow> SeqNr \<Rightarrow> bytes \<Rightarrow> bool \<Rightarrow> NodeID \<Rightarrow> IssState \<Rightarrow> IssState res" where
  "verifyCert env c sn data aborted leader s =
     rbind (cur_epoch s) (\<lambda>e.
       case UnmarshalCert env data of
         Inl err \<Rightarrow> deliverCert env c sn [] True leader
                      (s\<lparr>iss_LeaderPolicy := Suspect (iss_LeaderPolicy s) (ei_nr e) leader\<rparr>)
       | Inr cert \<Rightarrow> Inr (iss_emit (IOVerifyCert (sub_module (mc_Availability (ic_mc c)) (ei_nr e)) cert
                            \<lparr>vc_sn = sn, vc_data = data, vc_aborted = aborted, vc_leader = leader\<rparr>) s))"

section \<open>Checkpoints\<close>

definition gc_all :: "ModuleID list \<Rightarrow> RetentionIndex \<Rightarrow> IssState \<Rightarrow> IssState" where
  "gc_all mids ri s = fold (\<lambda>mid. iss_emit (IOGarbageCollect mid ri)) mids s"

definition deliverCommonCheckpoint :: "IssEnv \<Rightarrow> IssConf \<Rightarrow> bytes \<Rightarrow> IssState \<Rightarrow> IssState res" where
  "deliverCommonCheckpoint env c chkpData s =
     (case DeserializeChkp env chkpData of
        Inl e \<Rightarrow> Inl (Error ''could not deserialize common checkpoint'')
      | Inr chkp \<Rightarrow>
          if sc_Sn chkp \<le> sc_Sn (iss_lastStableCheckpoint s) then Inr s
          else rbind (cur_epoch s) (\<lambda>_. rbind (sc_Epoch chkp) (\<lambda>chkpEpoch.
               rbind (sc_Epoch (iss_lastStableCheckpoint s)) (\<lambda>_.
               rbind (deref (sc_Snapshot chkp)) (\<lambda>snapshot.
                 let s = s\<lparr>iss_lastStableCheckpoint := chkp\<rparr>;
                     s = iss_emit (IOStableCheckpoint (sc_Sn chkp) snapshot (sc_Cert chkp)) s
                 in rbind (processCommitted env c s) (\<lambda>s.
                      let pruneIndex = int64 (sint chkpEpoch - ip_RetainedEpochs (ic_Params c)); ri = of_int pruneIndex
                      in if pruneIndex > 0
                         then Inr (iss_emit (IOPushTimer (ip_CatchUpTimerPeriod (ic_Params c)) ri)
                                ((gc_all [mc_Timer (ic_mc c), mc_Checkpoint (ic_mc c), mc_Availability (ic_mc c),
                                          mc_Ordering (ic_mc c), mc_PPrepValidatorChkp (ic_mc c), mc_BatchDB (ic_mc c)] ri s)
                                 \<lparr>iss_epochs := filter (\<lambda>(epoch, _). \<not> epoch < ri) (iss_epochs s)\<rparr>))
                         else Inr s))))))"

definition UponStableCheckpoint :: "IssEnv \<Rightarrow> IssConf \<Rightarrow> SeqNr \<Rightarrow> StateSnapshot \<Rightarrow> Certificate \<Rightarrow> IssState \<Rightarrow> IssState res" where
  "UponStableCheckpoint env c sn snapshot cert s =
     (if sn \<le> iss_lastPendingCheckpointSN s then Inr s
      else let s = s\<lparr>iss_lastPendingCheckpointSN := sn\<rparr> in
        rbind (deref (ss_EpochData snapshot)) (\<lambda>ed.
        rbind (deref (ed_EpochConfig ed)) (\<lambda>ec.
        rbind (cur_epoch s) (\<lambda>_. rbind (sc_Epoch (iss_lastStableCheckpoint s)) (\<lambda>_.
        rbind (deref (ed_PreviousMembership ed)) (\<lambda>membership.
          let epoch = ec_EpochNr ec; n = int (length (Nodes membership))
          in if n = 0 then Inl (Panic ''integer divide by zero'')
             else rbind (index (GetSortedKeys (Nodes membership)) (go_rem (sint epoch) n)) (\<lambda>leader.
                  rbind (SerializeChkp env \<lparr>sc_Sn = sn, sc_Snapshot = Some snapshot, sc_Cert = Some cert\<rparr>) (\<lambda>chkpData.
                  rbind (NewSegment leader membership [(0, Some chkpData)]) (\<lambda>seg.
                    let ppvId = sub_module (mc_PPrepValidatorChkp (ic_mc c)) epoch;
                        s = iss_emit (IONewPPV ppvId (seg_Membership seg) epoch) s
                    in Inr (iss_emit (IONewOrderer
                         (ModuleID_Then (sub_module (mc_Ordering (ic_mc c)) epoch) ''chkp'') seg [] epoch ppvId) s))))))))))"

definition UponPushCheckpoint :: "IssConf \<Rightarrow> IssState \<Rightarrow> IssState res" where
  "UponPushCheckpoint c s =
     rbind (sc_Epoch (iss_lastStableCheckpoint s)) (\<lambda>epoch.
     rbind (sc_Memberships (iss_lastStableCheckpoint s)) (\<lambda>ms. rbind (deref ms) (\<lambda>ms. rbind (index ms 0) (\<lambda>m.
       let delayed = filter (\<lambda>n. epoch > (case map_of (iss_nodeEpochMap s) n of None \<Rightarrow> 0 | Some e \<Rightarrow> e) +
                       of_int (ip_RetainedEpochs (ic_Params c))) (map fst (Nodes m))
       in Inr (iss_emit (IOSendCheckpoint (iss_lastStableCheckpoint s) delayed) s)))))"

definition UponStableCheckpointReceived :: "StableCheckpoint \<Rightarrow> IssState \<Rightarrow> IssState res" where
  "UponStableCheckpointReceived chkp s =
     rbind (sc_Epoch chkp) (\<lambda>chkpEpoch. rbind (cur_epoch s) (\<lambda>e.
       if chkpMembershipOffset chkpEpoch (ei_nr e) \<le> 0 then Inr s
       else Inr (iss_emit (IOValidateCheckpoint chkp (ei_nr e) (iss_memberships s)) s)))"

definition UponCheckpointValidated :: "IssEnv \<Rightarrow> IssConf \<Rightarrow> bool \<Rightarrow> StableCheckpoint \<Rightarrow> IssState \<Rightarrow> IssState res" where
  "UponCheckpointValidated env c ok chkp s =
     (if \<not> ok then Inr s
      else rbind (sc_Epoch chkp) (\<lambda>chkpEpoch. rbind (cur_epoch s) (\<lambda>e.
        if chkpMembershipOffset chkpEpoch (ei_nr e) \<le> 0 then Inr s
        else rbind (sc_EpochData chkp) (\<lambda>ed.
          case LeaderPolicyFromBytes (decSimple env) (decBlacklist env) (bval (ed_LeaderPolicy ed)) of
            Inl err \<Rightarrow> Inr s
          | Inr policy \<Rightarrow>
              rbind (Leaders policy) (\<lambda>_. rbind (sc_Memberships chkp) (\<lambda>ms. rbind (deref ms) (\<lambda>ms.
              rbind (deref (sc_Snapshot chkp)) (\<lambda>snapshot.
                let s = s\<lparr>iss_LeaderPolicy := policy, iss_epochs := [], iss_commitLog := [],
                          iss_nextDeliveredSN := sc_Sn chkp, iss_newEpochSN := sc_Sn chkp,
                          iss_memberships := ms, iss_nextNewMembership := None, iss_lastStableCheckpoint := chkp\<rparr>;
                    s = iss_emit (IORestoreState chkp) s
                in rbind (startEpoch c chkpEpoch s) (\<lambda>s.
                     let s = iss_emit (IOStableCheckpoint (sc_Sn chkp) snapshot (sc_Cert chkp)) s
                     in Inr (gc_all [mc_Timer (ic_mc c), mc_Checkpoint (ic_mc c), mc_Availability (ic_mc c), mc_Ordering (ic_mc c)]
                          chkpEpoch s))))))))))"

section \<open>Events\<close>

definition UponIssInit :: "IssConf \<Rightarrow> IssState \<Rightarrow> IssState res" where
  "UponIssInit c s =
     rbind (sc_Epoch (iss_lastStableCheckpoint s)) (\<lambda>epochNr.
       startEpoch c epochNr (iss_emit (IORestoreState (iss_lastStableCheckpoint s)) s))"

definition UponSBDeliver ::
  "IssEnv \<Rightarrow> IssConf \<Rightarrow> SeqNr \<Rightarrow> bytes \<Rightarrow> bool \<Rightarrow> NodeID \<Rightarrow> ModuleID \<Rightarrow> IssState \<Rightarrow> IssState res" where
  "UponSBDeliver env c sn data aborted leader instanceId s =
     (if ModuleID_Sub (ModuleID_Sub instanceId) = ''chkp'' then deliverCommonCheckpoint env c data s
      else if aborted then deliverCert env c sn data aborted leader s
      else verifyCert env c sn data aborted leader s)"

definition UponCertVerified :: "IssEnv \<Rightarrow> IssConf \<Rightarrow> bool \<Rightarrow> verifyCertContext \<Rightarrow> IssState \<Rightarrow> IssState res" where
  "UponCertVerified env c valid ctx s =
     (if \<not> valid
      then rbind (cur_epoch s) (\<lambda>e.
             deliverCert env c (vc_sn ctx) [] True (vc_leader ctx)
               (s\<lparr>iss_LeaderPolicy := Suspect (iss_LeaderPolicy s) (ei_nr e) (vc_leader ctx)\<rparr>))
      else deliverCert env c (vc_sn ctx) (vc_data ctx) (vc_aborted ctx) (vc_leader ctx) s)"

definition UponNewConfig :: "IssEnv \<Rightarrow> IssConf \<Rightarrow> EpochNr \<Rightarrow> Membership \<Rightarrow> IssState \<Rightarrow> IssState res" where
  "UponNewConfig env c epochNr membership s =
     rbind (cur_epoch s) (\<lambda>e.
       if epochNr < ei_nr e then Inr s
       else if iss_nextNewMembership s \<noteq> None then Inl (Error ''already have a new membership'')
       else let s = s\<lparr>iss_nextNewMembership := Some membership\<rparr>
            in rbind (epochFinished s) (\<lambda>fin. if fin then advanceEpoch env c s else Inr s))"

definition UponEpochProgress :: "NodeID \<Rightarrow> EpochNr \<Rightarrow> IssState \<Rightarrow> IssState" where
  "UponEpochProgress nodeID epochNr s =
     (if (case map_of (iss_nodeEpochMap s) nodeID of None \<Rightarrow> 0 | Some e \<Rightarrow> e) < epochNr
      then s\<lparr>iss_nodeEpochMap := AList.update nodeID epochNr (iss_nodeEpochMap s)\<rparr> else s)"

datatype IssInput =
    IIInit
  | IISBDeliver SeqNr bytes bool NodeID ModuleID
  | IICertVerified bool verifyCertContext
  | IINewConfig EpochNr Membership
  | IIEpochProgress NodeID EpochNr
  | IIStableCheckpoint SeqNr StateSnapshot Certificate
  | IIPushCheckpoint
  | IIStableCheckpointReceived StableCheckpoint
  | IICheckpointValidated bool StableCheckpoint

fun IssApplyEvent :: "IssEnv \<Rightarrow> IssConf \<Rightarrow> IssInput \<Rightarrow> IssState \<Rightarrow> IssState res" where
  "IssApplyEvent env c IIInit s = UponIssInit c s"
| "IssApplyEvent env c (IISBDeliver sn data aborted leader inst) s = UponSBDeliver env c sn data aborted leader inst s"
| "IssApplyEvent env c (IICertVerified valid ctx) s = UponCertVerified env c valid ctx s"
| "IssApplyEvent env c (IINewConfig epochNr membership) s = UponNewConfig env c epochNr membership s"
| "IssApplyEvent env c (IIEpochProgress n e) s = Inr (UponEpochProgress n e s)"
| "IssApplyEvent env c (IIStableCheckpoint sn snapshot cert) s = UponStableCheckpoint env c sn snapshot cert s"
| "IssApplyEvent env c IIPushCheckpoint s = UponPushCheckpoint c s"
| "IssApplyEvent env c (IIStableCheckpointReceived chkp) s = UponStableCheckpointReceived chkp s"
| "IssApplyEvent env c (IICheckpointValidated ok chkp) s = UponCheckpointValidated env c ok chkp s"

end
