(* ===== verification/IssSafety.thy ===== *)
theory IssSafety
  imports Iss
begin

text \<open>
  What ISS promises to the application, as an automaton over the events ISS emits: certificates are
  delivered in the order of their sequence numbers without gaps, an epoch starts only when all of the
  previous one has been delivered, and nothing of an epoch is delivered before the checkpoint at its
  start. The state of ISS is related to a state of the automaton by an abstraction function, and every
  handler is simulated by a run of the automaton.

  Further invariants: only certificates that the availability module confirmed are delivered as valid,
  the membership pipeline keeps its length, and the segments of an epoch partition its sequence numbers.
\<close>

section \<open>The application's view\<close>

record AppView =
  av_next :: SeqNr
  av_first :: SeqNr
  av_end :: SeqNr
  av_epoch :: EpochNr
  av_chkp :: SeqNr
  av_restored :: bool

fun app_step :: "IssOut \<Rightarrow> AppView \<Rightarrow> AppView option" where
  "app_step (IORestoreState chkp) v =
     (case sc_Epoch chkp of
        Inl e \<Rightarrow> None
      | Inr e \<Rightarrow> Some \<lparr>av_next = sc_Sn chkp, av_first = sc_Sn chkp, av_end = sc_Sn chkp, av_epoch = e,
                      av_chkp = sc_Sn chkp, av_restored = True\<rparr>)"
| "app_step (IONewEpoch e) v =
     (if av_restored v
      then if e = av_epoch v then Some (v\<lparr>av_restored := False\<rparr>) else None
      else if e = av_epoch v + 1 \<and> av_next v = av_end v \<and> av_chkp v = av_first v
      then Some (v\<lparr>av_epoch := e, av_first := av_next v\<rparr>) else None)"
| "app_step (IONewOrderer mid seg avail e ppv) v =
     Some (if avail = [] then v else v\<lparr>av_end := av_end v + of_nat (Segment_Len seg)\<rparr>)"
| "app_step (IOStableCheckpoint sn ss cert) v =
     (if av_chkp v \<le> sn then Some (v\<lparr>av_chkp := sn\<rparr>) else None)"
| "app_step (IODeliverCert sn cert aborted) v =
     (if sn = av_next v \<and> av_chkp v = av_first v \<and> \<not> av_restored v then Some (v\<lparr>av_next := sn + 1\<rparr>) else None)"
| "app_step _ v = Some v"

fun app_run :: "IssOut list \<Rightarrow> AppView \<Rightarrow> AppView option" where
  "app_run [] v = Some v"
| "app_run (e # es) v = (case app_step e v of None \<Rightarrow> None | Some v' \<Rightarrow> app_run es v')"

definition app_init :: AppView where
  "app_init = \<lparr>av_next = 0, av_first = 0, av_end = 0, av_epoch = 0, av_chkp = 0, av_restored = False\<rparr>"

definition abs_iss :: "IssState \<Rightarrow> AppView" where
  "abs_iss s =
     (case iss_epoch s of
        None \<Rightarrow> app_init
      | Some e \<Rightarrow> \<lparr>av_next = iss_nextDeliveredSN s, av_first = ei_firstSN e, av_end = iss_newEpochSN s,
                   av_epoch = ei_nr e, av_chkp = sc_Sn (iss_lastStableCheckpoint s), av_restored = False\<rparr>)"

definition app_accepts :: "IssState \<Rightarrow> AppView \<Rightarrow> bool" where
  "app_accepts s v \<longleftrightarrow> app_run (iss_out s) app_init = Some v"

definition iss_sim :: "IssState \<Rightarrow> bool" where
  "iss_sim s \<longleftrightarrow> app_accepts s (abs_iss s)"

lemma app_run_append: "app_run (es @ es') v = (case app_run es v of None \<Rightarrow> None | Some v' \<Rightarrow> app_run es' v')"
  by (induction es arbitrary: v) (auto split: option.splits)

lemma iss_emit_simps [simp]:
  "iss_epoch (iss_emit e s) = iss_epoch s" "iss_epochs (iss_emit e s) = iss_epochs s"
  "iss_nodeEpochMap (iss_emit e s) = iss_nodeEpochMap s" "iss_memberships (iss_emit e s) = iss_memberships s"
  "iss_nextNewMembership (iss_emit e s) = iss_nextNewMembership s" "iss_commitLog (iss_emit e s) = iss_commitLog s"
  "iss_nextDeliveredSN (iss_emit e s) = iss_nextDeliveredSN s" "iss_newEpochSN (iss_emit e s) = iss_newEpochSN s"
  "iss_lastStableCheckpoint (iss_emit e s) = iss_lastStableCheckpoint s"
  "iss_lastPendingCheckpointSN (iss_emit e s) = iss_lastPendingCheckpointSN s"
  "iss_LeaderPolicy (iss_emit e s) = iss_LeaderPolicy s" "iss_out (iss_emit e s) = iss_out s @ [e]"
  by (simp_all add: iss_emit_def)

lemma accepts_emit: "app_accepts s v \<Longrightarrow> app_step e v = Some v' \<Longrightarrow> app_accepts (iss_emit e s) v'"
  by (simp add: app_accepts_def app_run_append)

lemma abs_emit [simp]: "abs_iss (iss_emit e s) = abs_iss s"
  by (simp add: abs_iss_def split: option.splits)

lemma abs_next [simp]:
  "iss_epoch s = Some e \<Longrightarrow> abs_iss s = \<lparr>av_next = iss_nextDeliveredSN s, av_first = ei_firstSN e, av_end = iss_newEpochSN s,
     av_epoch = ei_nr e, av_chkp = sc_Sn (iss_lastStableCheckpoint s), av_restored = False\<rparr>"
  by (simp add: abs_iss_def)

lemma iss_sim_emit: "iss_sim s \<Longrightarrow> app_step e (abs_iss s) = Some (abs_iss s) \<Longrightarrow> iss_sim (iss_emit e s)"
  by (simp add: iss_sim_def accepts_emit)

lemma cur_epoch_Inr [simp]: "cur_epoch s = Inr e \<longleftrightarrow> iss_epoch s = Some e"
  by (simp add: cur_epoch_def)

lemma sub_module_nonempty [simp]: "sub_module mid n \<noteq> []"
  by (simp add: sub_module_def ModuleID_Then_def)

section \<open>Starting an epoch\<close>

lemma add_segment_simps [simp]:
  "iss_epoch (add_segment c i e seg s) = Some (e\<lparr>ei_Segments := ei_Segments e @ [seg]\<rparr>)"
  "iss_nextDeliveredSN (add_segment c i e seg s) = iss_nextDeliveredSN s"
  "iss_newEpochSN (add_segment c i e seg s) = iss_newEpochSN s + of_nat (Segment_Len seg)"
  "iss_lastStableCheckpoint (add_segment c i e seg s) = iss_lastStableCheckpoint s"
  "iss_memberships (add_segment c i e seg s) = iss_memberships s"
  "iss_nextNewMembership (add_segment c i e seg s) = iss_nextNewMembership s"
  "iss_commitLog (add_segment c i e seg s) = iss_commitLog s"
  by (simp_all add: add_segment_def Let_def)

lemma add_segment_sim:
  assumes "iss_sim s" "iss_epoch s = Some e"
  shows "iss_sim (add_segment c i e seg s)"
  using assms by (simp add: iss_sim_def app_accepts_def app_run_append) (simp add: add_segment_def Let_def app_run_append)

lemma initOrderers_loop_sim:
  assumes "initOrderers_loop c n i ls s = Inr s'" "iss_sim s" "iss_epoch s = Some e"
  shows "iss_sim s' \<and>
     (\<exists>e'. iss_epoch s' = Some e' \<and> ei_nr e' = ei_nr e \<and> ei_firstSN e' = ei_firstSN e \<and> ei_Membership e' = ei_Membership e) \<and>
     iss_nextDeliveredSN s' = iss_nextDeliveredSN s \<and> iss_lastStableCheckpoint s' = iss_lastStableCheckpoint s \<and>
     iss_memberships s' = iss_memberships s \<and> iss_nextNewMembership s' = iss_nextNewMembership s \<and>
     iss_commitLog s' = iss_commitLog s"
  using assms
proof (induction ls arbitrary: i s e)
  case (Cons leader ls)
  from Cons(2,4) obtain seg where seg: "initOrderers_loop c n (Suc i) ls (add_segment c i e seg s) = Inr s'"
    by (auto simp: rbind_eq_Inr)
  show ?case using Cons.IH [OF seg add_segment_sim [OF Cons(3,4)]] by simp
qed simp

lemma initAvailability_eq:
  assumes "initAvailability c s = Inr s'"
  shows "\<exists>id e m n. s' = iss_emit (IOComputeCert id) (iss_emit (IONewAvailability id e m n) s)"
  using assms by (auto simp: initAvailability_def Let_def rbind_eq_Inr)

text \<open>
  Starting an epoch from a state in which the application expects it: after a restoration, or at the
  end of the previous epoch.
\<close>

lemma startEpoch_sim:
  assumes step: "startEpoch c nr s = Inr s'" and acc: "app_accepts s v"
    and v: "av_next v = iss_nextDeliveredSN s" "av_end v = iss_newEpochSN s" "iss_nextDeliveredSN s = iss_newEpochSN s"
      "av_chkp v = sc_Sn (iss_lastStableCheckpoint s)"
    and ok: "if av_restored v then nr = av_epoch v \<and> av_first v = av_next v
      else nr = av_epoch v + 1 \<and> av_chkp v = av_first v"
  shows "iss_sim s'" "\<exists>e. iss_epoch s' = Some e \<and> ei_nr e = nr \<and> ei_firstSN e = iss_newEpochSN s"
    "iss_nextDeliveredSN s' = iss_nextDeliveredSN s" "iss_lastStableCheckpoint s' = iss_lastStableCheckpoint s"
    "iss_memberships s' = iss_memberships s" "iss_nextNewMembership s' = iss_nextNewMembership s"
    "iss_commitLog s' = iss_commitLog s"
proof -
  from step obtain m where m: "index (iss_memberships s) 0 = Inr m" by (auto simp: startEpoch_def rbind_eq_Inr)
  define e where "e = newEpochInfo nr (iss_newEpochSN s) m"
  define s1 where "s1 = iss_emit (IONewEpoch nr) (s\<lparr>iss_epochs := AList.update nr e (iss_epochs s), iss_epoch := Some e\<rparr>)"
  have e: "ei_nr e = nr" "ei_firstSN e = iss_newEpochSN s" "ei_Membership e = m" by (simp_all add: e_def newEpochInfo_def)
  have step1: "app_step (IONewEpoch nr) v = Some (abs_iss s1)"
    using v ok by (cases v) (auto simp: s1_def e split: if_splits)
  have "app_accepts (s\<lparr>iss_epochs := AList.update nr e (iss_epochs s), iss_epoch := Some e\<rparr>) v"
    using acc by (simp add: app_accepts_def)
  from accepts_emit [OF this step1] have sim1: "iss_sim s1" by (simp add: iss_sim_def s1_def)
  have e1: "iss_epoch s1 = Some e" by (simp add: s1_def)
  have "rbind (initAvailability c s1) (initOrderers c) = Inr s'"
    using step m by (simp add: startEpoch_def s1_def e_def Let_def)
  then obtain s2 where s2: "initAvailability c s1 = Inr s2" and s': "initOrderers c s2 = Inr s'"
    by (auto simp: rbind_eq_Inr)
  from initAvailability_eq [OF s2] obtain id ep m' n where
      s2': "s2 = iss_emit (IOComputeCert id) (iss_emit (IONewAvailability id ep m' n) s1)" by blast
  have sim2: "iss_sim s2" unfolding s2' by (intro iss_sim_emit sim1) simp_all
  have e2: "iss_epoch s2 = Some e" by (simp add: s2' e1)
  from s' obtain ls where "initOrderers_loop c (length ls) 0 ls s2 = Inr s'" by (auto simp: initOrderers_def rbind_eq_Inr)
  from initOrderers_loop_sim [OF this sim2 e2]
  show "iss_sim s'" "\<exists>e. iss_epoch s' = Some e \<and> ei_nr e = nr \<and> ei_firstSN e = iss_newEpochSN s"
    "iss_nextDeliveredSN s' = iss_nextDeliveredSN s" "iss_lastStableCheckpoint s' = iss_lastStableCheckpoint s"
    "iss_memberships s' = iss_memberships s" "iss_nextNewMembership s' = iss_nextNewMembership s"
    "iss_commitLog s' = iss_commitLog s"
    by (auto simp: s2' s1_def e)
qed

section \<open>Delivering and advancing\<close>

lemma iss_sim_same:
  "iss_sim s \<Longrightarrow> iss_out s' = iss_out s \<Longrightarrow> iss_epoch s' = iss_epoch s \<Longrightarrow> iss_nextDeliveredSN s' = iss_nextDeliveredSN s
     \<Longrightarrow> iss_newEpochSN s' = iss_newEpochSN s \<Longrightarrow> iss_lastStableCheckpoint s' = iss_lastStableCheckpoint s \<Longrightarrow> iss_sim s'"
  by (simp only: iss_sim_def app_accepts_def abs_iss_def)

lemma delivered_state_simps [simp]:
  "iss_epoch (delivered_state le cert pol s) = iss_epoch s"
  "iss_newEpochSN (delivered_state le cert pol s) = iss_newEpochSN s"
  "iss_lastStableCheckpoint (delivered_state le cert pol s) = iss_lastStableCheckpoint s"
  "iss_memberships (delivered_state le cert pol s) = iss_memberships s"
  "iss_nextNewMembership (delivered_state le cert pol s) = iss_nextNewMembership s"
  "iss_nextDeliveredSN (delivered_state le cert pol s) = iss_nextDeliveredSN s + 1"
  "iss_commitLog (delivered_state le cert pol s) = AList.delete (iss_nextDeliveredSN s) (iss_commitLog s)"
  "iss_out (delivered_state le cert pol s) = iss_out s @ [IODeliverCert (iss_nextDeliveredSN s) cert (cle_Aborted le)]"
  by (simp_all add: delivered_state_def)

text \<open>The loop leaves the epoch alone and stops at the first sequence number without an entry.\<close>

lemma deliver_loop_frame:
  assumes "deliver_loop env s = Inr s'"
  shows "iss_epoch s' = iss_epoch s \<and> iss_newEpochSN s' = iss_newEpochSN s \<and>
    iss_lastStableCheckpoint s' = iss_lastStableCheckpoint s \<and> iss_memberships s' = iss_memberships s \<and>
    iss_nextNewMembership s' = iss_nextNewMembership s \<and> set (iss_commitLog s') \<subseteq> set (iss_commitLog s) \<and>
    map_of (iss_commitLog s') (iss_nextDeliveredSN s') = None"
  using assms
proof (induction env s rule: deliver_loop.induct)
  case (1 env s)
  show ?case
  proof (cases "map_of (iss_commitLog s) (iss_nextDeliveredSN s)")
    case None
    then show ?thesis using 1(2) by (simp add: deliver_loop.simps)
  next
    case (Some le)
    with 1(2) obtain d where d: "deliver_entry env s le = Inr d"
        "deliver_loop env (delivered_state le (fst d) (snd d) s) = Inr s'"
      by (auto simp: deliver_loop.simps [of env s] rbind_eq_Inr)
    have "set (AList.delete (iss_nextDeliveredSN s) (iss_commitLog s)) \<subseteq> set (iss_commitLog s)"
      by (rule mdel_subset)
    with 1(1) [OF Some d(2)] show ?thesis by auto
  qed
qed

lemma deliver_loop_sim:
  assumes "deliver_loop env s = Inr s'" "iss_sim s" "hasEpochCheckpoint s = Inr True"
  shows "iss_sim s'"
  using assms
proof (induction env s rule: deliver_loop.induct)
  case (1 env s)
  from 1(4) obtain e where e: "iss_epoch s = Some e" "sc_Sn (iss_lastStableCheckpoint s) = ei_firstSN e"
    by (auto simp: hasEpochCheckpoint_def rbind_eq_Inr)
  show ?case
  proof (cases "map_of (iss_commitLog s) (iss_nextDeliveredSN s)")
    case None
    then show ?thesis using 1(2,3) by (simp add: deliver_loop.simps)
  next
    case (Some le)
    with 1(2) obtain d where d: "deliver_entry env s le = Inr d"
        "deliver_loop env (delivered_state le (fst d) (snd d) s) = Inr s'"
      by (auto simp: deliver_loop.simps [of env s] rbind_eq_Inr)
    have "iss_sim (delivered_state le (fst d) (snd d) s)"
      using 1(3) e by (simp add: iss_sim_def app_accepts_def app_run_append)
    moreover have "hasEpochCheckpoint (delivered_state le (fst d) (snd d) s) = Inr True"
      using 1(4) by (simp add: hasEpochCheckpoint_def cur_epoch_def)
    ultimately show ?thesis by (rule 1(1) [OF Some d(2)])
  qed
qed

lemma epochFinished_True:
  assumes "epochFinished s = Inr True"
  shows "iss_nextDeliveredSN s = iss_newEpochSN s" "iss_nextNewMembership s \<noteq> None"
    "\<exists>e. iss_epoch s = Some e \<and> sc_Sn (iss_lastStableCheckpoint s) = ei_firstSN e"
  using assms by (auto simp: epochFinished_def hasEpochCheckpoint_def rbind_eq_Inr split: if_splits)

lemma advanceEpoch_cases:
  assumes "advanceEpoch env c s = Inr s'" "iss_epoch s = Some e"
  shows "\<exists>new pol s1 id p. iss_nextNewMembership s = Some new \<and> iss_memberships s \<noteq> [] \<and>
    startEpoch c (ei_nr e + 1) (s\<lparr>iss_memberships := tl (iss_memberships s) @ [new], iss_nextNewMembership := None,
       iss_LeaderPolicy := pol\<rparr>) = Inr s1 \<and>
    s' = iss_emit (IOSnapshotRequest id) (iss_emit (IONewCheckpoint id p (ei_nr e + 1)) s1) \<and>
    ec_Memberships (cp_EpochConfig p) = Some (iss_memberships s1) \<and>
    pol = Reconfigure (iss_LeaderPolicy s) (hd (tl (iss_memberships s) @ [new]))"
proof -
  from assms obtain old new where 1: "index (iss_memberships s) 0 = Inr old" "iss_nextNewMembership s = Some new"
    by (auto simp: advanceEpoch_def Let_def rbind_eq_Inr)
  let ?ms = "tl (iss_memberships s) @ [new]"
  let ?pol = "Reconfigure (iss_LeaderPolicy s) (hd ?ms)"
  let ?s = "s\<lparr>iss_memberships := ?ms, iss_nextNewMembership := None, iss_LeaderPolicy := ?pol\<rparr>"
  have m: "index ?ms 0 = Inr (hd ?ms)" by (cases "tl (iss_memberships s)") (simp_all add: index_def)
  have ne: "iss_memberships s \<noteq> []" using 1(1) by (auto simp: index_def split: if_splits)
  from assms(1) obtain data where data: "LeaderPolicy_Bytes (encPolicy env) ?pol = Inr data"
    using assms(2) 1 m by (auto simp: advanceEpoch_def Let_def rbind_eq_Inr cur_epoch_def)
  from assms(1) obtain s1 where s1: "startEpoch c (ei_nr e + 1) ?s = Inr s1"
    using assms(2) 1 m data by (auto simp: advanceEpoch_def Let_def rbind_eq_Inr cur_epoch_def)
  from assms(1) obtain e1 where e1: "iss_epoch s1 = Some e1"
    using assms(2) 1 m data s1 by (auto simp: advanceEpoch_def Let_def rbind_eq_Inr cur_epoch_def)
  have "\<exists>id p. s' = iss_emit (IOSnapshotRequest id) (iss_emit (IONewCheckpoint id p (ei_nr e + 1)) s1) \<and>
      ec_Memberships (cp_EpochConfig p) = Some (iss_memberships s1)"
    using assms 1 m data s1 e1 by (force simp: advanceEpoch_def Let_def cur_epoch_def)
  with 1 ne s1 show ?thesis by blast
qed

lemma advanceEpoch_sim:
  assumes "advanceEpoch env c s = Inr s'" "iss_sim s" "epochFinished s = Inr True"
  shows "iss_sim s'"
proof -
  note fin = epochFinished_True [OF assms(3)]
  from fin(3) obtain e where e: "iss_epoch s = Some e" "sc_Sn (iss_lastStableCheckpoint s) = ei_firstSN e" by blast
  from advanceEpoch_cases [OF assms(1) e(1)] obtain new pol s1 id p where
      s1: "startEpoch c (ei_nr e + 1) (s\<lparr>iss_memberships := tl (iss_memberships s) @ [new], iss_nextNewMembership := None,
        iss_LeaderPolicy := pol\<rparr>) = Inr s1"
      and s': "s' = iss_emit (IOSnapshotRequest id) (iss_emit (IONewCheckpoint id p (ei_nr e + 1)) s1)" by blast
  have "app_accepts (s\<lparr>iss_memberships := tl (iss_memberships s) @ [new], iss_nextNewMembership := None,
        iss_LeaderPolicy := pol\<rparr>) (abs_iss s)"
    using assms(2) by (simp add: iss_sim_def app_accepts_def)
  from startEpoch_sim(1) [OF s1 this] have "iss_sim s1" using e fin by simp
  then show ?thesis unfolding s' by (intro iss_sim_emit) simp_all
qed

lemma processCommitted_sim:
  assumes "processCommitted env c s = Inr s'" "iss_sim s"
  shows "iss_sim s'"
proof -
  from assms(1) obtain has where has: "hasEpochCheckpoint s = Inr has" by (auto simp: processCommitted_def rbind_eq_Inr)
  show ?thesis
  proof (cases has)
    case True
    with has assms(1) obtain s1 where s1: "deliver_loop env s = Inr s1"
        "rbind (epochFinished s1) (\<lambda>fin. if fin then advanceEpoch env c s1 else Inr s1) = Inr s'"
      by (auto simp: processCommitted_def rbind_eq_Inr)
    have sim1: "iss_sim s1" using deliver_loop_sim [OF s1(1) assms(2)] has True by simp
    from s1(2) obtain fin where fin: "epochFinished s1 = Inr fin" by (auto simp: rbind_eq_Inr)
    with s1(2) sim1 advanceEpoch_sim [of env c s1 s'] show ?thesis by (cases fin) auto
  qed (use has assms in \<open>simp add: processCommitted_def\<close>)
qed

lemma deliverCert_sim:
  assumes "deliverCert env c sn data aborted leader s = Inr s'" "iss_sim s"
  shows "iss_sim s'"
proof -
  from assms(1) obtain le where le: "processCommitted env c (s\<lparr>iss_commitLog := le\<rparr>) = Inr s'"
    by (auto simp: deliverCert_def Let_def)
  have "iss_sim (s\<lparr>iss_commitLog := le\<rparr>)"
    by (rule iss_sim_same [OF assms(2)]) simp_all
  from processCommitted_sim [OF le this] show ?thesis .
qed

lemma policy_sim: "iss_sim s \<Longrightarrow> iss_sim (s\<lparr>iss_LeaderPolicy := pol\<rparr>)"
  by (erule iss_sim_same) simp_all

lemma verifyCert_sim:
  assumes "verifyCert env c sn data aborted leader s = Inr s'" "iss_sim s"
  shows "iss_sim s'"
proof -
  from assms(1) obtain e where e: "iss_epoch s = Some e" by (auto simp: verifyCert_def rbind_eq_Inr)
  show ?thesis
  proof (cases "UnmarshalCert env data")
    case (Inl err)
    with assms(1) e have "deliverCert env c sn [] True leader (s\<lparr>iss_LeaderPolicy := Suspect (iss_LeaderPolicy s) (ei_nr e) leader\<rparr>) = Inr s'"
      by (simp add: verifyCert_def cur_epoch_def)
    from deliverCert_sim [OF this policy_sim [OF assms(2)]] show ?thesis .
  next
    case (Inr cert)
    with assms(1) e obtain mid ctx where "s' = iss_emit (IOVerifyCert mid cert ctx) s"
      by (auto simp: verifyCert_def cur_epoch_def)
    with iss_sim_emit [OF assms(2)] show ?thesis by simp
  qed
qed

section \<open>Checkpoints\<close>

lemma gc_all_out: "iss_out (gc_all mids ri s) = iss_out s @ map (\<lambda>mid. IOGarbageCollect mid ri) mids"
  unfolding gc_all_def by (induction mids arbitrary: s) auto

lemma gc_all_same [simp]:
  "iss_epoch (gc_all mids ri s) = iss_epoch s" "iss_nextDeliveredSN (gc_all mids ri s) = iss_nextDeliveredSN s"
  "iss_newEpochSN (gc_all mids ri s) = iss_newEpochSN s"
  "iss_lastStableCheckpoint (gc_all mids ri s) = iss_lastStableCheckpoint s"
  "iss_memberships (gc_all mids ri s) = iss_memberships s" "iss_commitLog (gc_all mids ri s) = iss_commitLog s"
  unfolding gc_all_def by (induction mids arbitrary: s) auto

lemma gc_all_abs [simp]: "abs_iss (gc_all mids ri s) = abs_iss s"
  by (simp add: abs_iss_def split: option.splits)

lemma app_run_gc: "app_run (map (\<lambda>mid. IOGarbageCollect mid ri) mids) v = Some v"
  by (induction mids) auto

lemma gc_all_sim: "iss_sim s \<Longrightarrow> iss_sim (gc_all mids ri s)"
  by (simp add: iss_sim_def app_accepts_def gc_all_out app_run_append app_run_gc)

lemma deliverCommonCheckpoint_sim:
  assumes "deliverCommonCheckpoint env c data s = Inr s'" "iss_sim s"
  shows "iss_sim s'"
proof -
  from assms(1) obtain chkp where chkp: "DeserializeChkp env data = Inr chkp"
    by (auto simp: deliverCommonCheckpoint_def split: sum.splits)
  show ?thesis
  proof (cases "sc_Sn chkp \<le> sc_Sn (iss_lastStableCheckpoint s)")
    case False
    let ?s = "\<lambda>snapshot. iss_emit (IOStableCheckpoint (sc_Sn chkp) snapshot (sc_Cert chkp)) (s\<lparr>iss_lastStableCheckpoint := chkp\<rparr>)"
    obtain e ce snapshot s1 where e: "iss_epoch s = Some e" and ce: "sc_Epoch chkp = Inr ce"
        and s1: "processCommitted env c (?s snapshot) = Inr s1" and sn: "sc_Snapshot chkp = Some snapshot"
      using assms(1) chkp False by (auto simp: deliverCommonCheckpoint_def Let_def rbind_eq_Inr)
    have s': "s' = s1 \<or> (\<exists>p ri mids eps. s' = iss_emit (IOPushTimer p ri) ((gc_all mids ri s1)\<lparr>iss_epochs := eps\<rparr>))"
      using assms(1) chkp False e ce s1 sn
      by (auto simp: deliverCommonCheckpoint_def Let_def rbind_eq_Inr cur_epoch_def split: if_splits)
    have "iss_sim (iss_emit (IOStableCheckpoint (sc_Sn chkp) snapshot (sc_Cert chkp)) (s\<lparr>iss_lastStableCheckpoint := chkp\<rparr>))"
      using assms(2) False e by (simp add: iss_sim_def app_accepts_def app_run_append)
    from processCommitted_sim [OF s1 this] have sim1: "iss_sim s1" .
    have "iss_sim ((gc_all mids ri s1)\<lparr>iss_epochs := eps\<rparr>)" for mids ri eps
      by (rule iss_sim_same [OF gc_all_sim [OF sim1]]) simp_all
    with s' sim1 iss_sim_emit show ?thesis by auto
  qed (use assms chkp in \<open>simp add: deliverCommonCheckpoint_def\<close>)
qed

lemma UponStableCheckpoint_eq:
  assumes "UponStableCheckpoint env c sn snapshot cert s = Inr s'"
  shows "s' = s \<or> (\<exists>id m e mid seg ppv. s' =
    iss_emit (IONewOrderer mid seg [] e ppv) (iss_emit (IONewPPV id m e) (s\<lparr>iss_lastPendingCheckpointSN := sn\<rparr>)))"
proof (cases "sn \<le> iss_lastPendingCheckpointSN s")
  case False
  with assms show ?thesis
    by (clarsimp simp: UponStableCheckpoint_def Let_def rbind_eq_Inr split: if_splits) blast
qed (use assms in \<open>simp add: UponStableCheckpoint_def\<close>)

lemma UponStableCheckpoint_sim:
  assumes "UponStableCheckpoint env c sn snapshot cert s = Inr s'" "iss_sim s"
  shows "iss_sim s'"
proof -
  have "iss_sim (s\<lparr>iss_lastPendingCheckpointSN := sn\<rparr>)" by (rule iss_sim_same [OF assms(2)]) simp_all
  then have "iss_sim (iss_emit (IONewOrderer mid seg [] e ppv) (iss_emit (IONewPPV id m e) (s\<lparr>iss_lastPendingCheckpointSN := sn\<rparr>)))"
    for mid seg e ppv id m by (intro iss_sim_emit) simp_all
  with UponStableCheckpoint_eq [OF assms(1)] assms(2) show ?thesis by blast
qed

lemma UponPushCheckpoint_sim:
  assumes "UponPushCheckpoint c s = Inr s'" "iss_sim s"
  shows "iss_sim s'"
  using assms by (auto simp: UponPushCheckpoint_def Let_def rbind_eq_Inr intro: iss_sim_emit)

lemma UponStableCheckpointReceived_sim:
  assumes "UponStableCheckpointReceived chkp s = Inr s'" "iss_sim s"
  shows "iss_sim s'"
  using assms by (auto simp: UponStableCheckpointReceived_def rbind_eq_Inr intro: iss_sim_emit split: if_splits)

lemma restore_accepts:
  assumes "app_accepts s v" "sc_Epoch chkp = Inr e"
  shows "app_accepts (iss_emit (IORestoreState chkp) s) \<lparr>av_next = sc_Sn chkp, av_first = sc_Sn chkp, av_end = sc_Sn chkp,
     av_epoch = e, av_chkp = sc_Sn chkp, av_restored = True\<rparr>"
  by (rule accepts_emit [OF assms(1)]) (simp add: assms(2))

text \<open>The state after installing a checkpoint, before its epoch is started.\<close>

definition install_checkpoint :: "StableCheckpoint \<Rightarrow> LeaderPolicy \<Rightarrow> Membership list \<Rightarrow> IssState \<Rightarrow> IssState" where
  "install_checkpoint chkp policy ms s =
     iss_emit (IORestoreState chkp)
       (s\<lparr>iss_LeaderPolicy := policy, iss_epochs := [], iss_commitLog := [],
          iss_nextDeliveredSN := sc_Sn chkp, iss_newEpochSN := sc_Sn chkp,
          iss_memberships := ms, iss_nextNewMembership := None, iss_lastStableCheckpoint := chkp\<rparr>)"

lemma UponCheckpointValidated_eq:
  assumes "UponCheckpointValidated env c ok chkp s = Inr s'"
  shows "s' = s \<or> (ok \<and> (\<exists>e policy ms snapshot s1 mids. sc_Epoch chkp = Inr e \<and> sc_Memberships chkp = Inr (Some ms) \<and>
     startEpoch c e (install_checkpoint chkp policy ms s) = Inr s1 \<and>
     s' = gc_all mids e (iss_emit (IOStableCheckpoint (sc_Sn chkp) snapshot (sc_Cert chkp)) s1)))"
proof (cases "s' = s")
  case False
  with assms have ok: "ok" by (auto simp: UponCheckpointValidated_def split: if_splits)
  from assms ok obtain e ei ed where e: "sc_Epoch chkp = Inr e" "iss_epoch s = Some ei" "sc_EpochData chkp = Inr ed"
    using False by (auto simp: UponCheckpointValidated_def rbind_eq_Inr split: if_splits)
  obtain policy where pol: "LeaderPolicyFromBytes (decSimple env) (decBlacklist env) (bval (ed_LeaderPolicy ed)) = Inr policy"
    using assms False ok e
    by (cases "LeaderPolicyFromBytes (decSimple env) (decBlacklist env) (bval (ed_LeaderPolicy ed))")
       (auto simp: UponCheckpointValidated_def cur_epoch_def split: if_splits)
  from assms ok e pol obtain ms snapshot s1 where r: "sc_Memberships chkp = Inr (Some ms)" "sc_Snapshot chkp = Some snapshot"
      "startEpoch c e (install_checkpoint chkp policy ms s) = Inr s1"
    using False by (auto simp: UponCheckpointValidated_def cur_epoch_def rbind_eq_Inr Let_def install_checkpoint_def split: if_splits)
  have "s' = gc_all [mc_Timer (ic_mc c), mc_Checkpoint (ic_mc c), mc_Availability (ic_mc c), mc_Ordering (ic_mc c)] e
      (iss_emit (IOStableCheckpoint (sc_Sn chkp) snapshot (sc_Cert chkp)) s1)"
    using assms ok e pol r False
    by (auto simp: UponCheckpointValidated_def cur_epoch_def rbind_eq_Inr Let_def install_checkpoint_def split: if_splits)
  with ok e(1) r show ?thesis by blast
qed simp

lemma UponCheckpointValidated_sim:
  assumes "UponCheckpointValidated env c ok chkp s = Inr s'" "iss_sim s"
  shows "iss_sim s'"
  using UponCheckpointValidated_eq [OF assms(1)]
proof (elim disjE conjE exE)
  fix e policy ms snapshot s1 mids
  assume a: "sc_Epoch chkp = Inr e" "startEpoch c e (install_checkpoint chkp policy ms s) = Inr s1"
    "s' = gc_all mids e (iss_emit (IOStableCheckpoint (sc_Sn chkp) snapshot (sc_Cert chkp)) s1)"
  have "app_accepts (s\<lparr>iss_LeaderPolicy := policy, iss_epochs := [], iss_commitLog := [],
      iss_nextDeliveredSN := sc_Sn chkp, iss_newEpochSN := sc_Sn chkp,
      iss_memberships := ms, iss_nextNewMembership := None, iss_lastStableCheckpoint := chkp\<rparr>) (abs_iss s)"
    using assms(2) by (simp add: iss_sim_def app_accepts_def)
  from startEpoch_sim [OF a(2) restore_accepts [OF this a(1), folded install_checkpoint_def]]
  have sim1: "iss_sim s1" "iss_lastStableCheckpoint s1 = chkp" "\<exists>e1. iss_epoch s1 = Some e1" by (auto simp: install_checkpoint_def)
  then have "iss_sim (iss_emit (IOStableCheckpoint (sc_Sn chkp) snapshot (sc_Cert chkp)) s1)"
    by (intro iss_sim_emit) auto
  with a(3) show ?thesis by (simp add: gc_all_sim)
qed (use assms(2) in simp)

lemma UponNewConfig_sim:
  assumes "UponNewConfig env c epochNr m s = Inr s'" "iss_sim s"
  shows "iss_sim s'"
proof -
  have sim: "iss_sim (s\<lparr>iss_nextNewMembership := Some m\<rparr>)" by (rule iss_sim_same [OF assms(2)]) simp_all
  from assms(1) obtain e where e: "cur_epoch s = Inr e" by (cases "cur_epoch s") (simp_all add: UponNewConfig_def)
  show ?thesis
  proof (cases "epochNr < ei_nr e")
    case False
    let ?s = "s\<lparr>iss_nextNewMembership := Some m\<rparr>"
    have fin: "rbind (epochFinished ?s) (\<lambda>fin. if fin then advanceEpoch env c ?s else Inr ?s) = Inr s'"
      using assms(1) e False by (simp add: UponNewConfig_def Let_def split: if_splits)
    then obtain b where "epochFinished ?s = Inr b" by (cases "epochFinished ?s") simp_all
    with fin sim advanceEpoch_sim [OF _ sim] show ?thesis by (cases b) auto
  qed (use assms e in \<open>simp add: UponNewConfig_def\<close>)
qed

section \<open>Reachable states\<close>

text \<open>
  The environment of an ISS instance: the Init event comes once, a verification result answers a
  request (and \<open>valid_cert\<close> says which certificates the availability module confirms), and a validated
  checkpoint passed the syntactic check that both validators perform. Everything else is arbitrary.
\<close>

fun iss_env_ok :: "(Cert \<Rightarrow> bool) \<Rightarrow> IssConf \<Rightarrow> IssState \<Rightarrow> IssInput \<Rightarrow> bool" where
  "iss_env_ok valid_cert c s IIInit \<longleftrightarrow> iss_epoch s = None"
| "iss_env_ok valid_cert c s (IICertVerified valid ctx) \<longleftrightarrow>
     (\<exists>mid cert. IOVerifyCert mid cert ctx \<in> set (iss_out s) \<and> (valid \<longrightarrow> valid_cert cert))"
| "iss_env_ok valid_cert c s (IICheckpointValidated ok chkp) \<longleftrightarrow>
     (ok \<longrightarrow> SyntacticCheck chkp (ip_ConfigOffset (ic_Params c)) = Inr ())"
| "iss_env_ok valid_cert c s _ \<longleftrightarrow> True"

inductive iss_reachable :: "IssEnv \<Rightarrow> IssConf \<Rightarrow> (Cert \<Rightarrow> bool) \<Rightarrow> IssState \<Rightarrow> bool" for env c valid_cert where
  iss_start: "IssNew env c chkp = Inr s \<Longrightarrow> iss_reachable env c valid_cert s"
| iss_step: "iss_reachable env c valid_cert s \<Longrightarrow> iss_env_ok valid_cert c s i \<Longrightarrow> IssApplyEvent env c i s = Inr s'
     \<Longrightarrow> iss_reachable env c valid_cert s'"

text \<open>Before the Init event nothing has been delivered and the log position is that of the checkpoint.\<close>

definition pre_init :: "IssState \<Rightarrow> bool" where
  "pre_init s \<longleftrightarrow> (iss_epoch s = None \<longrightarrow>
     iss_nextDeliveredSN s = sc_Sn (iss_lastStableCheckpoint s) \<and> iss_newEpochSN s = sc_Sn (iss_lastStableCheckpoint s))"

lemma UponIssInit_sim:
  assumes "UponIssInit c s = Inr s'" "iss_sim s" "iss_epoch s = None" "pre_init s"
  shows "iss_sim s'" "iss_epoch s' \<noteq> None"
proof -
  from assms(1) obtain e where e: "sc_Epoch (iss_lastStableCheckpoint s) = Inr e"
    "startEpoch c e (iss_emit (IORestoreState (iss_lastStableCheckpoint s)) s) = Inr s'"
    by (auto simp: UponIssInit_def rbind_eq_Inr)
  have "app_accepts s (abs_iss s)" using assms(2) by (simp add: iss_sim_def)
  from startEpoch_sim(1,2) [OF e(2) restore_accepts [OF this e(1)]] assms(3,4)
  show "iss_sim s'" "iss_epoch s' \<noteq> None" by (auto simp: pre_init_def)
qed

lemma IssApplyEvent_sim:
  assumes "iss_sim s" "iss_epoch s \<noteq> None" "iss_env_ok valid_cert c s i" "IssApplyEvent env c i s = Inr s'"
  shows "iss_sim s'"
proof (cases i)
  case (IISBDeliver sn data aborted leader inst)
  with assms show ?thesis
    by (auto simp: UponSBDeliver_def intro: deliverCommonCheckpoint_sim deliverCert_sim verifyCert_sim split: if_splits)
next
  case (IICertVerified valid ctx)
  show ?thesis
  proof (cases valid)
    case True
    with IICertVerified assms(4) deliverCert_sim [OF _ assms(1)] show ?thesis by (simp add: UponCertVerified_def)
  next
    case False
    with IICertVerified assms(4) deliverCert_sim [OF _ policy_sim [OF assms(1)]] show ?thesis
      by (cases "cur_epoch s") (simp_all add: UponCertVerified_def)
  qed
next
  case (IIEpochProgress n e)
  have "iss_sim (s\<lparr>iss_nodeEpochMap := m\<rparr>)" for m by (rule iss_sim_same [OF assms(1)]) simp_all
  with IIEpochProgress assms show ?thesis by (auto simp: UponEpochProgress_def)
qed (use assms UponNewConfig_sim UponStableCheckpoint_sim UponPushCheckpoint_sim UponStableCheckpointReceived_sim
      UponCheckpointValidated_sim in auto)

text \<open>Events before Init either have no visible effect, or fail.\<close>

lemma IssApplyEvent_before_init:
  assumes "iss_epoch s = None" "IssApplyEvent env c i s = Inr s'" "i \<noteq> IIInit"
  shows "iss_epoch s' = None \<and> iss_nextDeliveredSN s' = iss_nextDeliveredSN s \<and> iss_newEpochSN s' = iss_newEpochSN s \<and>
    iss_lastStableCheckpoint s' = iss_lastStableCheckpoint s \<and> (iss_sim s \<longrightarrow> iss_sim s') \<and>
    iss_memberships s' = iss_memberships s \<and> iss_commitLog s' = iss_commitLog s \<and>
    (\<exists>chkp ns. iss_out s' = iss_out s \<or> iss_out s' = iss_out s @ [IOSendCheckpoint chkp ns])"
proof -
  have cur: "cur_epoch s = Inl (Panic ''nil pointer dereference'')"
    using assms(1) by (simp add: cur_epoch_def deref_def)
  have hec: "hasEpochCheckpoint s1 = Inl (Panic ''nil pointer dereference'')" if "iss_epoch s1 = None" for s1
    using that by (simp add: hasEpochCheckpoint_def cur_epoch_def deref_def)
  have sim: "iss_sim s1" if "iss_sim s" "iss_out s1 = iss_out s" "iss_epoch s1 = None" for s1
    using that assms(1) by (simp add: iss_sim_def app_accepts_def abs_iss_def)
  show ?thesis
  proof (cases i)
    case (IISBDeliver sn data aborted leader inst)
    with assms show ?thesis
      by (auto simp: UponSBDeliver_def deliverCommonCheckpoint_def deliverCert_def processCommitted_def Let_def hec verifyCert_def cur
          split: if_splits sum.splits)
  next
    case (IICertVerified valid ctx)
    with assms show ?thesis
      by (auto simp: UponCertVerified_def deliverCert_def processCommitted_def Let_def hec cur split: if_splits)
  next
    case (IIEpochProgress n e)
    with assms sim show ?thesis by (auto simp: UponEpochProgress_def)
  next
    case IIPushCheckpoint
    with assms show ?thesis
      by (auto simp: UponPushCheckpoint_def Let_def rbind_eq_Inr iss_sim_def app_accepts_def app_run_append)
  qed (use assms cur in \<open>auto simp: UponNewConfig_def UponStableCheckpoint_def UponStableCheckpointReceived_def
        UponCheckpointValidated_def Let_def rbind_eq_Inr split: if_splits\<close>)
qed

lemma startEpoch_epoch:
  assumes "startEpoch c nr s = Inr s'"
  shows "iss_epoch s' \<noteq> None"
proof -
  have loop: "initOrderers_loop c n k ls t = Inr t' \<Longrightarrow> iss_epoch t \<noteq> None \<Longrightarrow> iss_epoch t' \<noteq> None" for n k ls t t'
    by (induction ls arbitrary: k t) (auto simp: rbind_eq_Inr)
  from assms show ?thesis
    by (auto simp: startEpoch_def initAvailability_def initOrderers_def Let_def rbind_eq_Inr dest!: loop)
qed

lemma advanceEpoch_epoch:
  assumes "advanceEpoch env c s = Inr s'"
  shows "iss_epoch s' \<noteq> None"
proof -
  from assms obtain e where e: "iss_epoch s = Some e" by (cases "cur_epoch s") (auto simp: advanceEpoch_def)
  from advanceEpoch_cases [OF assms e] obtain nr s0 s1 id p n where "startEpoch c nr s0 = Inr s1"
      "s' = iss_emit (IOSnapshotRequest id) (iss_emit (IONewCheckpoint id p n) s1)" by blast
  with startEpoch_epoch show ?thesis by auto
qed

lemma processCommitted_epoch:
  assumes "processCommitted env c s = Inr s'"
  shows "iss_epoch s' \<noteq> None"
proof -
  from assms obtain has where has: "hasEpochCheckpoint s = Inr has"
    by (cases "hasEpochCheckpoint s") (simp_all add: processCommitted_def)
  then have ne: "iss_epoch s \<noteq> None" by (auto simp: hasEpochCheckpoint_def rbind_eq_Inr)
  show ?thesis
  proof (cases has)
    case True
    with has assms obtain s1 where s1: "deliver_loop env s = Inr s1"
        "rbind (epochFinished s1) (\<lambda>fin. if fin then advanceEpoch env c s1 else Inr s1) = Inr s'"
      by (cases "deliver_loop env s") (simp_all add: processCommitted_def)
    then obtain fin where "epochFinished s1 = Inr fin" by (cases "epochFinished s1") simp_all
    with s1 ne deliver_loop_frame [OF s1(1)] advanceEpoch_epoch show ?thesis by (cases fin) auto
  qed (use ne has assms in \<open>simp add: processCommitted_def\<close>)
qed

lemma deliverCert_epoch: "deliverCert env c sn data aborted leader s = Inr s' \<Longrightarrow> iss_epoch s' \<noteq> None"
  by (auto simp: deliverCert_def Let_def dest: processCommitted_epoch)

lemma IssApplyEvent_epoch:
  assumes "iss_epoch s \<noteq> None" "IssApplyEvent env c i s = Inr s'"
  shows "iss_epoch s' \<noteq> None"
proof (cases i)
  case IIInit
  with assms show ?thesis by (cases "sc_Epoch (iss_lastStableCheckpoint s)") (auto simp: UponIssInit_def dest: startEpoch_epoch)
next
  case (IISBDeliver sn data aborted leader inst)
  have v: "iss_epoch s' \<noteq> None" if "verifyCert env c sn data aborted leader s = Inr s'"
    using that assms(1) by (cases "cur_epoch s"; cases "UnmarshalCert env data") (auto simp: verifyCert_def dest: deliverCert_epoch)
  have d: "iss_epoch s' \<noteq> None" if "deliverCommonCheckpoint env c data s = Inr s'"
    using that assms(1)
    by (auto simp: deliverCommonCheckpoint_def Let_def rbind_eq_Inr dest: processCommitted_epoch split: sum.splits if_splits)
  from IISBDeliver assms v d show ?thesis by (auto simp: UponSBDeliver_def dest: deliverCert_epoch split: if_splits)
next
  case (IICertVerified valid ctx)
  with assms show ?thesis
    by (auto simp: UponCertVerified_def rbind_eq_Inr dest: deliverCert_epoch split: if_splits)
next
  case (IINewConfig epochNr m)
  with assms show ?thesis
    by (auto simp: UponNewConfig_def Let_def rbind_eq_Inr dest: advanceEpoch_epoch split: if_splits)
next
  case (IIStableCheckpoint sn snapshot cert)
  with UponStableCheckpoint_eq [of env c sn snapshot cert s s'] assms show ?thesis by auto
next
  case (IICheckpointValidated ok chkp)
  with assms UponCheckpointValidated_eq [of env c ok chkp s s'] show ?thesis by (auto dest: startEpoch_epoch)
qed (use assms in \<open>auto simp: UponEpochProgress_def UponPushCheckpoint_def UponStableCheckpointReceived_def Let_def rbind_eq_Inr
      split: if_splits\<close>)

lemma IssNew_eq:
  assumes "IssNew env c chkp = Inr s"
  shows "iss_epoch s = None" "iss_out s = []" "iss_commitLog s = []" "iss_nextDeliveredSN s = sc_Sn chkp"
    "iss_newEpochSN s = sc_Sn chkp" "iss_lastStableCheckpoint s = chkp"
    "SyntacticCheck chkp (ip_ConfigOffset (ic_Params c)) = Inr ()" "sc_Memberships chkp = Inr (Some (iss_memberships s))"
proof -
  from assms obtain u where "sc_Verify (ie_chkp env) chkp (ip_ConfigOffset (ic_Params c)) (ip_InitialMembership (ic_Params c)) = Inr u"
    by (auto simp: IssNew_def rbind_eq_Inr)
  then show "SyntacticCheck chkp (ip_ConfigOffset (ic_Params c)) = Inr ()"
    by (cases "SyntacticCheck chkp (ip_ConfigOffset (ic_Params c))") (simp_all add: sc_Verify_def)
qed (use assms in \<open>auto simp: IssNew_def rbind_eq_Inr\<close>)

lemma iss_reachable_sim: "iss_reachable env c valid_cert s \<Longrightarrow> iss_sim s \<and> pre_init s"
proof (induction rule: iss_reachable.induct)
  case (iss_start chkp s)
  from IssNew_eq [OF this] show ?case by (simp add: iss_sim_def app_accepts_def abs_iss_def pre_init_def)
next
  case (iss_step s i s')
  show ?case
  proof (cases "iss_epoch s")
    case None
    show ?thesis
    proof (cases "i = IIInit")
      case True
      with iss_step UponIssInit_sim [of c s s'] None show ?thesis by (auto simp: pre_init_def)
    next
      case False
      from IssApplyEvent_before_init [OF None iss_step(3) False] iss_step(4) None show ?thesis by (simp add: pre_init_def)
    qed
  next
    case (Some e)
    then have ne: "iss_epoch s \<noteq> None" by simp
    from IssApplyEvent_sim [OF _ ne iss_step(2,3)] IssApplyEvent_epoch [OF ne iss_step(3)] iss_step(4)
    show ?thesis by (auto simp: pre_init_def)
  qed
qed

section \<open>Verified certificates and the membership pipeline\<close>

text \<open>
  A second invariant, over the history of emitted events: entries of the commit log that are not
  aborted carry certificates confirmed by the availability module, requests for verification are never
  for aborted entries, and the pipeline of memberships, also in the checkpoints requested, has
  \<open>ConfigOffset + 1\<close> elements.
\<close>

fun iss_out_ok :: "IssEnv \<Rightarrow> IssConf \<Rightarrow> (Cert \<Rightarrow> bool) \<Rightarrow> IssOut \<Rightarrow> bool" where
  "iss_out_ok env c valid_cert (IODeliverCert sn cert aborted) \<longleftrightarrow> (if aborted then cert = CertMscs [] else valid_cert cert)"
| "iss_out_ok env c valid_cert (IOVerifyCert mid cert ctx) \<longleftrightarrow> \<not> vc_aborted ctx \<and> UnmarshalCert env (vc_data ctx) = Inr cert"
| "iss_out_ok env c valid_cert (IONewCheckpoint mid p e) \<longleftrightarrow>
     (\<exists>ms. ec_Memberships (cp_EpochConfig p) = Some ms \<and> int (length ms) = ip_ConfigOffset (ic_Params c) + 1)"
| "iss_out_ok env c valid_cert _ \<longleftrightarrow> True"

definition entry_ok :: "IssEnv \<Rightarrow> (Cert \<Rightarrow> bool) \<Rightarrow> CommitLogEntry \<Rightarrow> bool" where
  "entry_ok env valid_cert le \<longleftrightarrow> (cle_Aborted le \<or> (\<exists>cert. UnmarshalCert env (cle_CertData le) = Inr cert \<and> valid_cert cert))"

definition iss_inv :: "IssEnv \<Rightarrow> IssConf \<Rightarrow> (Cert \<Rightarrow> bool) \<Rightarrow> IssState \<Rightarrow> bool" where
  "iss_inv env c valid_cert s \<longleftrightarrow> int (length (iss_memberships s)) = ip_ConfigOffset (ic_Params c) + 1 \<and>
     (\<forall>(sn, le) \<in> set (iss_commitLog s). entry_ok env valid_cert le) \<and>
     (\<forall>e \<in> set (iss_out s). iss_out_ok env c valid_cert e)"

lemma iss_inv_emit: "iss_inv env c vc s \<Longrightarrow> iss_out_ok env c vc e \<Longrightarrow> iss_inv env c vc (iss_emit e s)"
  by (auto simp: iss_inv_def)

lemma iss_inv_same:
  "iss_inv env c vc s \<Longrightarrow> iss_out s' = iss_out s \<Longrightarrow> iss_memberships s' = iss_memberships s \<Longrightarrow> iss_commitLog s' = iss_commitLog s
     \<Longrightarrow> iss_inv env c vc s'"
  by (simp add: iss_inv_def)

lemma add_segment_out:
  "\<exists>mid avail e' ppv. iss_out (add_segment c i e seg s) = iss_out s @ [IONewOrderer mid seg avail e' ppv]"
  by (simp add: add_segment_def Let_def)

lemma initOrderers_loop_inv:
  assumes "initOrderers_loop c n i ls s = Inr s'" "iss_inv env c vc s"
  shows "iss_inv env c vc s'"
  using assms
proof (induction ls arbitrary: i s)
  case (Cons leader ls)
  from Cons(2) obtain e seg where seg: "initOrderers_loop c n (Suc i) ls (add_segment c i e seg s) = Inr s'"
    by (auto simp: rbind_eq_Inr)
  from add_segment_out [of c i e seg s] Cons(3) have "iss_inv env c vc (add_segment c i e seg s)"
    by (auto simp: iss_inv_def)
  from Cons.IH [OF seg this] show ?case .
qed simp

lemma startEpoch_inv:
  assumes "startEpoch c nr s = Inr s'" "iss_inv env c vc s"
  shows "iss_inv env c vc s'"
proof -
  from assms(1) obtain m where m: "index (iss_memberships s) 0 = Inr m"
    by (cases "index (iss_memberships s) 0") (simp_all add: startEpoch_def)
  define s1 where "s1 = iss_emit (IONewEpoch nr) (s\<lparr>iss_epochs := AList.update nr (newEpochInfo nr (iss_newEpochSN s) m) (iss_epochs s),
     iss_epoch := Some (newEpochInfo nr (iss_newEpochSN s) m)\<rparr>)"
  have "iss_inv env c vc s1" unfolding s1_def
    by (rule iss_inv_emit, rule iss_inv_same [OF assms(2)]) simp_all
  moreover have "rbind (initAvailability c s1) (initOrderers c) = Inr s'"
    using assms(1) m by (simp add: startEpoch_def s1_def Let_def)
  then obtain s2 where s2: "initAvailability c s1 = Inr s2" "initOrderers c s2 = Inr s'"
    by (cases "initAvailability c s1") simp_all
  ultimately have "iss_inv env c vc s2"
    using initAvailability_eq [OF s2(1)] by (auto intro!: iss_inv_emit)
  with s2(2) show ?thesis by (auto simp: initOrderers_def rbind_eq_Inr dest: initOrderers_loop_inv)
qed

lemma deliver_loop_inv:
  assumes "deliver_loop env s = Inr s'" "iss_inv env c vc s"
  shows "iss_inv env c vc s'"
  using assms
proof (induction env s rule: deliver_loop.induct)
  case (1 env s)
  show ?case
  proof (cases "map_of (iss_commitLog s) (iss_nextDeliveredSN s)")
    case None
    then show ?thesis using 1(2,3) by (simp add: deliver_loop.simps)
  next
    case (Some le)
    with 1(2) obtain d where d: "deliver_entry env s le = Inr d"
        "deliver_loop env (delivered_state le (fst d) (snd d) s) = Inr s'"
      by (auto simp: deliver_loop.simps [of env s] rbind_eq_Inr)
    have "entry_ok env vc le" using 1(3) map_of_SomeD [OF Some] by (auto simp: iss_inv_def)
    then have "iss_out_ok env c vc (IODeliverCert (iss_nextDeliveredSN s) (fst d) (cle_Aborted le))"
      using d(1) by (auto simp: deliver_entry_def entry_ok_def rbind_eq_Inr split: if_splits)
    then have "iss_inv env c vc (delivered_state le (fst d) (snd d) s)"
      using 1(3) mdel_subset [of "iss_nextDeliveredSN s" "iss_commitLog s"] by (auto simp: iss_inv_def)
    then show ?thesis by (rule 1(1) [OF Some d(2)])
  qed
qed

lemma advanceEpoch_inv:
  assumes "advanceEpoch env c s = Inr s'" "iss_inv env c vc s"
  shows "iss_inv env c vc s'"
proof -
  from assms(1) obtain e where e: "iss_epoch s = Some e" by (cases "cur_epoch s") (auto simp: advanceEpoch_def)
  from advanceEpoch_cases [OF assms(1) e] obtain new pol s1 id p where ne: "iss_memberships s \<noteq> []"
      and s1: "startEpoch c (ei_nr e + 1) (s\<lparr>iss_memberships := tl (iss_memberships s) @ [new], iss_nextNewMembership := None,
        iss_LeaderPolicy := pol\<rparr>) = Inr s1"
      and s': "s' = iss_emit (IOSnapshotRequest id) (iss_emit (IONewCheckpoint id p (ei_nr e + 1)) s1)"
      and p: "ec_Memberships (cp_EpochConfig p) = Some (iss_memberships s1)" by blast
  have "iss_inv env c vc (s\<lparr>iss_memberships := tl (iss_memberships s) @ [new], iss_nextNewMembership := None, iss_LeaderPolicy := pol\<rparr>)"
    using assms(2) ne by (cases "iss_memberships s") (auto simp: iss_inv_def)
  from startEpoch_inv [OF s1 this] have inv1: "iss_inv env c vc s1" .
  then have "int (length (iss_memberships s1)) = ip_ConfigOffset (ic_Params c) + 1" by (simp add: iss_inv_def)
  with inv1 p show ?thesis unfolding s' by (intro iss_inv_emit) simp_all
qed

lemma finish_inv:
  assumes "rbind (epochFinished s) (\<lambda>fin. if fin then advanceEpoch env c s else Inr s) = Inr s'" "iss_inv env c vc s"
  shows "iss_inv env c vc s'"
  using assms advanceEpoch_inv [OF _ assms(2)] by (cases "epochFinished s") (auto split: if_splits)

lemma processCommitted_inv:
  assumes "processCommitted env c s = Inr s'" "iss_inv env c vc s"
  shows "iss_inv env c vc s'"
proof -
  from assms(1) obtain has where has: "hasEpochCheckpoint s = Inr has"
    by (cases "hasEpochCheckpoint s") (simp_all add: processCommitted_def)
  show ?thesis
  proof (cases has)
    case True
    with has assms(1) obtain s1 where s1: "deliver_loop env s = Inr s1"
        "rbind (epochFinished s1) (\<lambda>fin. if fin then advanceEpoch env c s1 else Inr s1) = Inr s'"
      by (cases "deliver_loop env s") (simp_all add: processCommitted_def)
    show ?thesis by (rule finish_inv [OF s1(2) deliver_loop_inv [OF s1(1) assms(2)]])
  qed (use has assms in \<open>simp add: processCommitted_def\<close>)
qed

lemma deliverCert_inv:
  assumes "deliverCert env c sn data aborted leader s = Inr s'" "iss_inv env c vc s"
    and "aborted \<or> (\<exists>cert. UnmarshalCert env data = Inr cert \<and> vc cert)"
  shows "iss_inv env c vc s'"
proof -
  define le where "le = \<lparr>cle_Sn = sn, cle_CertData = data, cle_Digest = Some (hash (ie_chkp env) (serializeLogEntryForHashing
     \<lparr>cle_Sn = sn, cle_CertData = data, cle_Digest = None, cle_Aborted = aborted, cle_Suspect = leader\<rparr>)),
     cle_Aborted = aborted, cle_Suspect = leader\<rparr>"
  have step: "processCommitted env c (s\<lparr>iss_commitLog := AList.update sn le (iss_commitLog s)\<rparr>) = Inr s'"
    using assms(1) by (simp add: deliverCert_def Let_def le_def)
  have "entry_ok env vc le" using assms(3) by (simp add: entry_ok_def le_def)
  then have "iss_inv env c vc (s\<lparr>iss_commitLog := AList.update sn le (iss_commitLog s)\<rparr>)"
    using assms(2) mupd_subset [of sn le "iss_commitLog s"] by (auto simp: iss_inv_def)
  from processCommitted_inv [OF step this] show ?thesis .
qed

lemma deliverCommonCheckpoint_inv:
  assumes "deliverCommonCheckpoint env c data s = Inr s'" "iss_inv env c vc s"
  shows "iss_inv env c vc s'"
proof -
  from assms(1) obtain chkp where chkp: "DeserializeChkp env data = Inr chkp"
    by (auto simp: deliverCommonCheckpoint_def split: sum.splits)
  show ?thesis
  proof (cases "sc_Sn chkp \<le> sc_Sn (iss_lastStableCheckpoint s)")
    case False
    let ?s = "\<lambda>snapshot. iss_emit (IOStableCheckpoint (sc_Sn chkp) snapshot (sc_Cert chkp)) (s\<lparr>iss_lastStableCheckpoint := chkp\<rparr>)"
    obtain e ce snapshot s1 where e: "iss_epoch s = Some e" and ce: "sc_Epoch chkp = Inr ce"
        and s1: "processCommitted env c (?s snapshot) = Inr s1" and sn: "sc_Snapshot chkp = Some snapshot"
      using assms(1) chkp False by (auto simp: deliverCommonCheckpoint_def Let_def rbind_eq_Inr)
    have s': "s' = s1 \<or> (\<exists>p ri mids eps. s' = iss_emit (IOPushTimer p ri) ((gc_all mids ri s1)\<lparr>iss_epochs := eps\<rparr>))"
      using assms(1) chkp False e ce s1 sn
      by (auto simp: deliverCommonCheckpoint_def Let_def rbind_eq_Inr cur_epoch_def split: if_splits)
    have "iss_inv env c vc (?s snapshot)"
      by (rule iss_inv_emit, rule iss_inv_same [OF assms(2)]) simp_all
    from processCommitted_inv [OF s1 this] have inv1: "iss_inv env c vc s1" .
    then have "iss_inv env c vc (iss_emit (IOPushTimer p ri) ((gc_all mids ri s1)\<lparr>iss_epochs := eps\<rparr>))" for p ri mids eps
      by (auto simp: iss_inv_def gc_all_out)
    with s' inv1 show ?thesis by auto
  qed (use assms chkp in \<open>simp add: deliverCommonCheckpoint_def\<close>)
qed

lemma UponSBDeliver_inv:
  assumes "UponSBDeliver env c sn data aborted leader inst s = Inr s'" "iss_inv env c vc s"
  shows "iss_inv env c vc s'"
proof -
  have v: "iss_inv env c vc s'" if "verifyCert env c sn data False leader s = Inr s'"
  proof -
    from that obtain e where e: "iss_epoch s = Some e" by (cases "cur_epoch s") (auto simp: verifyCert_def)
    show ?thesis
    proof (cases "UnmarshalCert env data")
      case (Inl err)
      with that e deliverCert_inv [of env c sn "[]" True leader _ s' vc] iss_inv_same [OF assms(2)]
      show ?thesis by (simp add: verifyCert_def cur_epoch_def)
    next
      case (Inr cert)
      with that e assms(2) show ?thesis by (auto simp: verifyCert_def cur_epoch_def intro!: iss_inv_emit)
    qed
  qed
  have d: "iss_inv env c vc s'" if "deliverCert env c sn data True leader s = Inr s'"
    by (rule deliverCert_inv [OF that assms(2)]) simp
  show ?thesis
    using assms v d deliverCommonCheckpoint_inv [OF _ assms(2)] by (auto simp: UponSBDeliver_def split: if_splits)
qed

lemma SyntacticCheck_memberships:
  assumes "SyntacticCheck sc off = Inr ()" "sc_Memberships sc = Inr (Some ms)"
  shows "int (length ms) = off + 1"
  using assms
  by (auto simp: SyntacticCheck_def sc_Memberships_def sc_EpochConfig_def sc_EpochData_def rbind_eq_Inr
      split: option.splits if_splits)

lemma IssApplyEvent_inv:
  assumes inv: "iss_inv env c vc s" and env: "iss_env_ok vc c s i" and step: "IssApplyEvent env c i s = Inr s'"
  shows "iss_inv env c vc s'"
proof (cases i)
  case IIInit
  with step inv show ?thesis
    by (auto simp: UponIssInit_def rbind_eq_Inr intro!: startEpoch_inv [of c _ _ s'] iss_inv_emit)
next
  case (IISBDeliver sn data aborted leader inst)
  with step UponSBDeliver_inv [OF _ inv] show ?thesis by simp
next
  case (IICertVerified valid ctx)
  with env obtain mid cert where req: "IOVerifyCert mid cert ctx \<in> set (iss_out s)" "valid \<longrightarrow> vc cert" by auto
  then have "UnmarshalCert env (vc_data ctx) = Inr cert" using inv by (auto simp: iss_inv_def)
  moreover have "iss_inv env c vc (s\<lparr>iss_LeaderPolicy := p\<rparr>)" for p by (rule iss_inv_same [OF inv]) simp_all
  ultimately show ?thesis using IICertVerified step req(2) inv
    by (auto simp: UponCertVerified_def rbind_eq_Inr intro: deliverCert_inv split: if_splits)
next
  case (IINewConfig epochNr m)
  have "iss_inv env c vc (s\<lparr>iss_nextNewMembership := Some m\<rparr>)" by (rule iss_inv_same [OF inv]) simp_all
  with IINewConfig step inv finish_inv [of "s\<lparr>iss_nextNewMembership := Some m\<rparr>" env c s' vc] show ?thesis
    by (cases "cur_epoch s") (auto simp: UponNewConfig_def Let_def split: if_splits)
next
  case (IIEpochProgress n e)
  with step inv show ?thesis by (auto simp: UponEpochProgress_def iss_inv_def split: if_splits)
next
  case (IIStableCheckpoint sn snapshot cert)
  have "iss_inv env c vc (s\<lparr>iss_lastPendingCheckpointSN := sn\<rparr>)" by (rule iss_inv_same [OF inv]) simp_all
  with IIStableCheckpoint step UponStableCheckpoint_eq [of env c sn snapshot cert s s'] inv show ?thesis
    by (auto intro!: iss_inv_emit)
next
  case IIPushCheckpoint
  with step inv show ?thesis by (auto simp: UponPushCheckpoint_def Let_def rbind_eq_Inr intro!: iss_inv_emit)
next
  case (IIStableCheckpointReceived chkp)
  with step inv show ?thesis by (auto simp: UponStableCheckpointReceived_def rbind_eq_Inr intro!: iss_inv_emit split: if_splits)
next
  case (IICheckpointValidated ok chkp)
  with step UponCheckpointValidated_eq [of env c ok chkp s s']
  consider "s' = s" | e policy ms snapshot s1 mids where "ok" "sc_Memberships chkp = Inr (Some ms)"
     "startEpoch c e (install_checkpoint chkp policy ms s) = Inr s1"
     "s' = gc_all mids e (iss_emit (IOStableCheckpoint (sc_Sn chkp) snapshot (sc_Cert chkp)) s1)" by auto
  then show ?thesis
  proof cases
    case 2
    with env IICheckpointValidated have "int (length ms) = ip_ConfigOffset (ic_Params c) + 1"
      by (auto dest: SyntacticCheck_memberships)
    then have "iss_inv env c vc (install_checkpoint chkp policy ms s)"
      using inv by (auto simp: iss_inv_def install_checkpoint_def)
    from startEpoch_inv [OF 2(3) this] show ?thesis by (auto simp: 2(4) iss_inv_def gc_all_out)
  qed (use inv in simp)
qed

lemma iss_reachable_inv: "iss_reachable env c vc s \<Longrightarrow> iss_inv env c vc s"
proof (induction rule: iss_reachable.induct)
  case (iss_start chkp s)
  note n = IssNew_eq [OF this]
  from SyntacticCheck_memberships [OF n(7,8)] n(2,3) show ?case by (simp add: iss_inv_def)
qed (rule IssApplyEvent_inv)

end
