(* ===== verification/IssSegments.thy ===== *)
theory IssSegments
  imports Iss
begin

text \<open>
  The segments of an epoch: \<open>initOrderers\<close> hands the sequence numbers of an epoch to its leaders round
  robin, and the segments it creates are disjoint and together make up the block of consecutive sequence
  numbers that \<open>newEpochSN\<close> advances over.
\<close>

section \<open>Round-robin blocks of sequence numbers\<close>

definition seg_SNs :: "Segment \<Rightarrow> SeqNr set" where
  "seg_SNs seg = fst ` set (seg_Proposals seg)"

definition sn_block :: "SeqNr \<Rightarrow> nat \<Rightarrow> SeqNr set" where
  "sn_block start len = (\<lambda>x. start + of_nat x) ` {..<len}"

definition sn_stride :: "SeqNr \<Rightarrow> nat \<Rightarrow> nat \<Rightarrow> nat \<Rightarrow> SeqNr set" where
  "sn_stride start n k i = (\<lambda>j. start + of_nat (i + j * n)) ` {..<k}"

lemma sn_inj: "m \<le> 2 ^ 64 \<Longrightarrow> inj_on (\<lambda>x. start + of_nat x :: SeqNr) {..<m}"
  by (auto simp: inj_on_def of_nat_u64_inj)

lemma stride_bound:
  fixes i j n k :: nat
  assumes "i < n" "j < k"
  shows "i + j * n < n * k"
proof -
  have "i + j * n < n + j * n" using assms by simp
  also have "\<dots> = Suc j * n" by simp
  also have "\<dots> \<le> k * n" using assms by (intro mult_le_mono1) simp
  finally show ?thesis by (simp add: mult.commute)
qed

lemma stride_union: "(\<Union>i<n. sn_stride start n k i) = sn_block start (n * k)"
proof
  show "(\<Union>i<n. sn_stride start n k i) \<subseteq> sn_block start (n * k)"
    unfolding sn_stride_def sn_block_def using stride_bound by blast
  show "sn_block start (n * k) \<subseteq> (\<Union>i<n. sn_stride start n k i)"
  proof
    fix sn assume "sn \<in> sn_block start (n * k)"
    then obtain x where x: "x < n * k" "sn = start + of_nat x" by (auto simp: sn_block_def)
    then have "0 < n" by (cases n) simp_all
    then have "x mod n < n" by simp
    have "x div n < k" using x(1) by (simp add: less_mult_imp_div_less mult.commute)
    moreover have "sn = start + of_nat (x mod n + (x div n) * n)" unfolding x(2) by (subst mod_div_mult_eq) (rule refl)
    ultimately have "sn \<in> sn_stride start n k (x mod n)" unfolding sn_stride_def by blast
    with \<open>x mod n < n\<close> show "sn \<in> (\<Union>i<n. sn_stride start n k i)" by blast
  qed
qed

lemma stride_disjoint:
  assumes "n * k \<le> 2 ^ 64" "i < n" "i' < n" "i \<noteq> i'"
  shows "sn_stride start n k i \<inter> sn_stride start n k i' = {}"
proof -
  have "start + of_nat (i + j * n) \<noteq> (start + of_nat (i' + j' * n) :: SeqNr)" if "j < k" "j' < k" for j j'
  proof
    assume "start + of_nat (i + j * n) = (start + of_nat (i' + j' * n) :: SeqNr)"
    then have "i + j * n = i' + j' * n"
      using sn_inj [OF assms(1), of start] stride_bound [OF assms(2) that(1)] stride_bound [OF assms(3) that(2)]
      by (meson inj_onD lessThan_iff)
    then have "(i + j * n) mod n = (i' + j' * n) mod n" by simp
    with assms show False by simp
  qed
  then show ?thesis by (auto simp: sn_stride_def)
qed

lemma stride_card:
  assumes "n * k \<le> 2 ^ 64" "i < n"
  shows "card (sn_stride start n k i) = k"
proof -
  have "inj_on (\<lambda>j. start + of_nat (i + j * n) :: SeqNr) {..<k}"
  proof (rule inj_onI)
    fix j j' assume "j \<in> {..<k}" "j' \<in> {..<k}" and eq: "start + of_nat (i + j * n) = (start + of_nat (i + j' * n) :: SeqNr)"
    then have "i + j * n < n * k" "i + j' * n < n * k" using stride_bound assms(2) by simp_all
    with eq have "i + j * n = i + j' * n" using sn_inj [OF assms(1), of start] by (meson inj_onD lessThan_iff)
    with assms(2) show "j = j'" by simp
  qed
  then show ?thesis by (simp add: sn_stride_def card_image)
qed

section \<open>The proposals of a segment\<close>

lemma freeProposals_loop_keys:
  "fst ` set (freeProposals_loop k nx step m) = fst ` set m \<union> (\<lambda>j. nx + of_nat j * step) ` {..<k}"
proof (induction k arbitrary: nx m)
  case (Suc k)
  have "(\<lambda>j. nx + of_nat j * step) ` {..<Suc k} = insert nx ((\<lambda>j. (nx + step) + of_nat j * step) ` {..<k})"
    by (simp add: lessThan_Suc_eq_insert_0 image_image algebra_simps)
  with Suc show ?case by simp
qed simp

lemma freeProposals_loop_ok: "gomap_ok m \<Longrightarrow> gomap_ok (freeProposals_loop k nx step m)"
  by (induction k arbitrary: nx m) simp_all

lemma freeProposals_loop_vals:
  "(\<forall>(sn, v) \<in> set m. v = None) \<Longrightarrow> (\<forall>(sn, v) \<in> set (freeProposals_loop k nx step m). v = None)"
proof (induction k arbitrary: nx m)
  case (Suc k)
  have "\<forall>(sn, v) \<in> set (AList.update nx None m). v = None"
    using Suc(2) by (induction m) (auto split: if_splits)
  from Suc(1) [OF this] show ?case by simp
qed simp

lemma freeProposals_props:
  "gomap_ok (freeProposals start step len)"
  "fst ` set (freeProposals (start + of_nat i) (of_nat n) (int k)) = sn_stride start n k i"
  "(sn, v) \<in> set (freeProposals start step len) \<Longrightarrow> v = None"
  using freeProposals_loop_ok [of "[]"] freeProposals_loop_vals [of "[]" "nat len" start step]
  by (auto simp: freeProposals_def freeProposals_loop_keys sn_stride_def algebra_simps)

lemma freeProposals_length:
  assumes "n * k \<le> 2 ^ 64" "i < n"
  shows "length (freeProposals (start + of_nat i) (of_nat n) (int k)) = k"
proof -
  have "length (freeProposals (start + of_nat i) (of_nat n) (int k)) =
      card (fst ` set (freeProposals (start + of_nat i) (of_nat n) (int k)))"
    using freeProposals_props(1) by (metis distinct_card length_map set_map)
  then show ?thesis by (simp add: freeProposals_props(2) stride_card [OF assms])
qed

section \<open>The segments created by initOrderers\<close>

lemma initOrderers_loop_segments:
  assumes "initOrderers_loop c n i ls s = Inr s'" "iss_epoch s = Some e" "i + length ls = n" "n * k \<le> 2 ^ 64"
    "ip_SegmentLength (ic_Params c) = int k"
  shows "\<exists>segs. iss_epoch s' = Some (e\<lparr>ei_Segments := ei_Segments e @ segs\<rparr>) \<and> length segs = length ls \<and>
     iss_newEpochSN s' = iss_newEpochSN s + of_nat (length ls * k) \<and>
     (\<forall>j < length ls. seg_Leader (segs ! j) = ls ! j \<and> Segment_Len (segs ! j) = k \<and>
        seg_SNs (segs ! j) = sn_stride (iss_nextDeliveredSN s) n k (i + j))"
  using assms
proof (induction ls arbitrary: i s e)
  case Nil
  then show ?case by simp
next
  case (Cons l ls)
  let ?props = "freeProposals (iss_nextDeliveredSN s + of_nat i) (of_nat n) (int k)"
  define seg where "seg = \<lparr>seg_Leader = l, seg_Membership = ei_Membership e, seg_Proposals = ?props\<rparr>"
  have next1: "initOrderers_loop c n (Suc i) ls (add_segment c i e seg s) = Inr s'"
    using Cons(2,3,6) by (auto simp: rbind_eq_Inr cur_epoch_def NewSegment_def seg_def split: if_splits)
  have new: "iss_epoch (add_segment c i e seg s) = Some (e\<lparr>ei_Segments := ei_Segments e @ [seg]\<rparr>)"
    "iss_nextDeliveredSN (add_segment c i e seg s) = iss_nextDeliveredSN s"
    "iss_newEpochSN (add_segment c i e seg s) = iss_newEpochSN s + of_nat (Segment_Len seg)"
    by (simp_all add: add_segment_def Let_def iss_emit_def)
  have i: "i < n" using Cons(4) by simp
  have seg: "seg_Leader seg = l" "Segment_Len seg = k" "seg_SNs seg = sn_stride (iss_nextDeliveredSN s) n k i"
    by (simp_all add: seg_def Segment_Len_def seg_SNs_def freeProposals_length [OF Cons(5) i] freeProposals_props(2))
  have "Suc i + length ls = n" using Cons(4) by simp
  from Cons.IH [OF next1 new(1) this Cons(5,6)] obtain segs where
      IH: "iss_epoch s' = Some (e\<lparr>ei_Segments := ei_Segments e @ seg # segs\<rparr>)" "length segs = length ls"
        "iss_newEpochSN s' = iss_newEpochSN s + of_nat k + of_nat (length ls * k)"
        "\<And>j. j < length ls \<Longrightarrow> seg_Leader (segs ! j) = ls ! j \<and> Segment_Len (segs ! j) = k \<and>
           seg_SNs (segs ! j) = sn_stride (iss_nextDeliveredSN s) n k (Suc i + j)"
    unfolding new seg by auto
  have "seg_Leader ((seg # segs) ! j) = (l # ls) ! j \<and> Segment_Len ((seg # segs) ! j) = k \<and>
      seg_SNs ((seg # segs) ! j) = sn_stride (iss_nextDeliveredSN s) n k (i + j)" if "j < length (l # ls)" for j
    using that IH(4) seg by (cases j) auto
  moreover have "iss_newEpochSN s' = iss_newEpochSN s + of_nat (length (l # ls) * k)"
    unfolding IH(3) by (simp add: add.assoc)
  ultimately show ?case using IH(1,2) by (intro exI [of _ "seg # segs"]) simp
qed

end
