(* ===== verification/IssProperties.thy ===== *)
theory IssProperties
  imports IssSafety IssSegments
begin

text \<open>
  The properties of ISS, on top of the simulation and the invariants of \<open>IssSafety\<close> and the segment
  arithmetic of \<open>IssSegments\<close>, and a concrete run of a four-node system through a whole epoch and
  through a state transfer, on which they are instantiated.
\<close>

section \<open>Deliveries\<close>

fun delivered_sns :: "IssOut list \<Rightarrow> SeqNr list" where
  "delivered_sns [] = []"
| "delivered_sns (IODeliverCert sn cert aborted # es) = sn # delivered_sns es"
| "delivered_sns (e # es) = delivered_sns es"

fun is_restore :: "IssOut \<Rightarrow> bool" where
  "is_restore (IORestoreState chkp) \<longleftrightarrow> True"
| "is_restore e \<longleftrightarrow> False"

fun consecutive :: "SeqNr \<Rightarrow> SeqNr list \<Rightarrow> bool" where
  "consecutive start [] \<longleftrightarrow> True"
| "consecutive start (sn # sns) \<longleftrightarrow> sn = start \<and> consecutive (start + 1) sns"

lemma app_run_consecutive:
  assumes "app_run es v = Some v'" "\<not> list_ex is_restore es"
  shows "consecutive (av_next v) (delivered_sns es) \<and> av_next v' = av_next v + of_nat (length (delivered_sns es))"
  using assms
proof (induction es arbitrary: v)
  case (Cons e es)
  then obtain v1 where v1: "app_step e v = Some v1" "app_run es v1 = Some v'" by (auto split: option.splits)
  from Cons.IH [OF v1(2)] Cons(3) v1(1) show ?case by (cases e) (auto split: if_splits)
qed simp

text \<open>The delivery loop never fails on entries that are fine, and delivers at least every contiguous prefix.\<close>

lemma deliver_loop_total:
  assumes "iss_epoch s = Some e" "\<forall>(sn, le) \<in> set (iss_commitLog s). entry_ok env vc le"
    and "\<forall>i<k. mhas (iss_commitLog s) (iss_nextDeliveredSN s + of_nat i)" "k \<le> 2 ^ 64"
  shows "\<exists>s' es. deliver_loop env s = Inr s' \<and> iss_out s' = iss_out s @ es \<and> k \<le> length (delivered_sns es) \<and>
     map_of (iss_commitLog s') (iss_nextDeliveredSN s') = None"
  using assms
proof (induction env s arbitrary: k rule: deliver_loop.induct)
  case (1 env s)
  show ?case
  proof (cases "map_of (iss_commitLog s) (iss_nextDeliveredSN s)")
    case None
    with 1(4) have "k = 0" by (cases k) (auto dest!: spec [of _ 0])
    with None show ?thesis by (intro exI [of _ s] exI [of _ "[]"]) (simp add: deliver_loop.simps)
  next
    case (Some le)
    then have "entry_ok env vc le" using 1(3) by (auto dest: map_of_SomeD)
    then obtain d where d: "deliver_entry env s le = Inr d"
      using 1(2) by (cases "cle_Aborted le") (auto simp: deliver_entry_def entry_ok_def cur_epoch_def)
    let ?s = "delivered_state le (fst d) (snd d) s"
    have prem: "iss_epoch ?s = Some e" "\<forall>(sn, le) \<in> set (iss_commitLog ?s). entry_ok env vc le"
      using 1(2,3) mdel_subset [of "iss_nextDeliveredSN s" "iss_commitLog s"] by auto
    have "mhas (iss_commitLog ?s) (iss_nextDeliveredSN ?s + of_nat i)" if "i < k - 1" for i
    proof -
      have "(of_nat (Suc i) :: SeqNr) \<noteq> of_nat 0" using that 1(5) by (subst of_nat_u64_inj) auto
      then have "iss_nextDeliveredSN s + of_nat (Suc i) \<noteq> iss_nextDeliveredSN s" by simp
      moreover have "Suc i < k" using that by simp
      then have "mhas (iss_commitLog s) (iss_nextDeliveredSN s + of_nat (Suc i))" using 1(4) by blast
      ultimately have "mhas (iss_commitLog ?s) (iss_nextDeliveredSN s + of_nat (Suc i))" by simp
      then show ?thesis by (simp add: add.assoc)
    qed
    then have "\<forall>i < k - 1. mhas (iss_commitLog ?s) (iss_nextDeliveredSN ?s + of_nat i)" by blast
    moreover have "k - 1 \<le> 2 ^ 64" using 1(5) by simp
    ultimately obtain s' es where
        "deliver_loop env ?s = Inr s'" "iss_out s' = iss_out ?s @ es" "k - 1 \<le> length (delivered_sns es)"
        "map_of (iss_commitLog s') (iss_nextDeliveredSN s') = None"
      using 1(1) [OF Some prem, of "k - 1"] by blast
    then show ?thesis using Some d
      by (intro exI [of _ s'] exI [of _ "IODeliverCert (iss_nextDeliveredSN s) (fst d) (cle_Aborted le) # es"])
        (simp add: deliver_loop.simps [of env s])
  qed
qed

section \<open>Orderer identifiers\<close>

lemma orderer_id_suffix:
  assumes "Separator \<notin> set ordr"
  shows "ModuleID_Sub (ModuleID_Sub (ModuleID_Then (sub_module ordr n) suffix)) = suffix"
proof -
  have "ModuleID_Then (sub_module ordr n) suffix = ModuleID_Then ordr (ModuleID_Then (Sprintf_uint n) suffix)"
    by (simp add: sub_module_def ModuleID_Then_def)
  with assms show ?thesis by simp
qed

lemma chkp_not_number: "nat_String i \<noteq> ''chkp''"
proof
  assume "nat_String i = ''chkp''"
  then have "CHR ''c'' \<in> set (nat_String i)" by simp
  then obtain d where "d < 10" "CHR ''c'' = digit_char d" by (auto dest: nat_String_digits)
  then have "digit_val (CHR ''c'') = Some d" by simp
  then show False by (simp add: digit_val_def split: if_splits)
qed

section \<open>An example run\<close>

fun iss_env_check :: "(Cert \<Rightarrow> bool) \<Rightarrow> IssConf \<Rightarrow> IssState \<Rightarrow> IssInput \<Rightarrow> bool" where
  "iss_env_check valid_cert c s IIInit \<longleftrightarrow> iss_epoch s = None"
| "iss_env_check valid_cert c s (IICertVerified valid ctx) \<longleftrightarrow>
     list_ex (\<lambda>e. case e of IOVerifyCert mid cert ctx' \<Rightarrow> ctx' = ctx \<and> (valid \<longrightarrow> valid_cert cert) | _ \<Rightarrow> False) (iss_out s)"
| "iss_env_check valid_cert c s (IICheckpointValidated ok chkp) \<longleftrightarrow>
     (ok \<longrightarrow> SyntacticCheck chkp (ip_ConfigOffset (ic_Params c)) = Inr ())"
| "iss_env_check valid_cert c s _ \<longleftrightarrow> True"

fun iss_exec :: "IssEnv \<Rightarrow> IssConf \<Rightarrow> (Cert \<Rightarrow> bool) \<Rightarrow> IssInput list \<Rightarrow> IssState \<Rightarrow> IssState option" where
  "iss_exec env c valid_cert [] s = Some s"
| "iss_exec env c valid_cert (i # is) s =
     (if iss_env_check valid_cert c s i
      then case IssApplyEvent env c i s of Inl e \<Rightarrow> None | Inr s' \<Rightarrow> iss_exec env c valid_cert is s'
      else None)"

lemma iss_env_check_ok: "iss_env_check vc c s i \<Longrightarrow> iss_env_ok vc c s i"
proof (cases i)
  case (IICertVerified valid ctx)
  assume "iss_env_check vc c s i"
  then obtain e where e: "e \<in> set (iss_out s)"
      "case e of IOVerifyCert mid cert ctx' \<Rightarrow> ctx' = ctx \<and> (valid \<longrightarrow> vc cert) | _ \<Rightarrow> False"
    using IICertVerified by (auto simp: list_ex_iff)
  from e(2) have "\<exists>mid cert. e = IOVerifyCert mid cert ctx \<and> (valid \<longrightarrow> vc cert)" by (cases e) simp_all
  with e(1) IICertVerified show ?thesis by auto
qed simp_all

lemma iss_exec_reachable:
  "iss_reachable env c vc s \<Longrightarrow> iss_exec env c vc is s = Some s' \<Longrightarrow> iss_reachable env c vc s'"
  by (induction env c vc "is" s rule: iss_exec.induct)
    (auto split: if_splits sum.splits intro: iss_step iss_env_check_ok)

definition ex_iss_conf :: IssConf where
  "ex_iss_conf =
     \<lparr>ic_ownID = ''a'',
      ic_mc = \<lparr>mc_Self = ''iss'', mc_App = ''batchfetcher'', mc_Availability = ''availability'', mc_BatchDB = ''batchdb'',
               mc_Checkpoint = ''checkpoint'', mc_ChkpValidator = ''chkpvalidator'', mc_Net = ''net'', mc_Ordering = ''ordering'',
               mc_PPrepValidator = ''pprepvalidator'', mc_PPrepValidatorChkp = ''pprepvalidatorchkp'', mc_Timer = ''timer''\<rparr>,
      ic_Params = (DefaultParams ex_memb)\<lparr>ip_ConfigOffset := 1, ip_SegmentLength := 1, ip_RetainedEpochs := 0\<rparr>\<rparr>"

text \<open>A checkpoint of the example system at the start of an epoch.\<close>

definition ex_iss_chkp :: "EpochNr \<Rightarrow> StableCheckpoint" where
  "ex_iss_chkp e =
     \<lparr>sc_Sn = 4 * e,
      sc_Snapshot = Some \<lparr>ss_AppData = Some [42],
        ss_EpochData = Some \<lparr>ed_EpochConfig = Some \<lparr>ec_EpochNr = e, ec_FirstSn = 4 * e, ec_Length = 4, ec_Memberships = Some [ex_memb, ex_memb]\<rparr>,
          ed_ClientProgress = Some [], ed_LeaderPolicy = Some (policy_tag ''simple''),
          ed_PreviousMembership = Some (if e = 0 then \<lparr>Nodes = []\<rparr> else ex_memb)\<rparr>\<rparr>,
      sc_Cert = Some [(''a'', str_bytes ''a''), (''b'', str_bytes ''b''), (''c'', str_bytes ''c'')]\<rparr>"

definition ex_iss_env :: IssEnv where
  "ex_iss_env =
     \<lparr>ie_chkp = ex_chkp_env,
      UnmarshalCert = (\<lambda>bs. if bs = [] then Inl (Error ''empty'')
                           else Inr (CertMscs [\<lparr>msc_BatchId = bs, msc_Signers = [''a'', ''b''], msc_Signatures = [[1], [2]]\<rparr>])),
      SerializeChkp = (\<lambda>sc. Inr [7]),
      DeserializeChkp = (\<lambda>bs. if bs = [7] then Inr (ex_iss_chkp 1) else Inl (Error ''malformed'')),
      encPolicy = (\<lambda>p. Inr []), decSimple = (\<lambda>bs. Inr [''a'', ''b'', ''c'', ''d'']), decBlacklist = (\<lambda>bs. Inl (Error ''malformed''))\<rparr>"

definition ex_valid_cert :: "Cert \<Rightarrow> bool" where
  "ex_valid_cert cert = (case cert of CertMscs ms \<Rightarrow> ms \<noteq> [] \<and> (\<forall>m \<in> set ms. hd (msc_BatchId m) < 20))"

definition ex_iss_init :: IssState where
  "ex_iss_init =
     \<lparr>iss_epoch = None, iss_epochs = [], iss_nodeEpochMap = [], iss_memberships = [ex_memb, ex_memb], iss_nextNewMembership = None,
      iss_commitLog = [], iss_nextDeliveredSN = 0, iss_newEpochSN = 0,
      iss_lastStableCheckpoint = Genesis (the (sc_Snapshot (ex_iss_chkp 0))), iss_lastPendingCheckpointSN = 0,
      iss_LeaderPolicy = SimplePolicy [''a'', ''b'', ''c'', ''d''], iss_out = []\<rparr>"

definition ex_ctx :: "SeqNr \<Rightarrow> bytes \<Rightarrow> NodeID \<Rightarrow> verifyCertContext" where
  "ex_ctx sn bs n = \<lparr>vc_sn = sn, vc_data = bs, vc_aborted = False, vc_leader = n\<rparr>"

text \<open>
  Epoch 0: sequence number 1 is ordered before 0, the leader of 2 is faulty and its slot is aborted, and the
  certificate of 3 is refused by the availability module.
\<close>

definition ex_epoch0 :: "IssInput list" where
  "ex_epoch0 =
     [IIInit,
      IISBDeliver 1 [11] False ''b'' ''ordering/0/1'', IICertVerified True (ex_ctx 1 [11] ''b''),
      IISBDeliver 0 [10] False ''a'' ''ordering/0/0'',
      IISBDeliver 2 [] True ''c'' ''ordering/0/2'',
      IISBDeliver 3 [33] False ''d'' ''ordering/0/3'', IICertVerified False (ex_ctx 3 [33] ''d'')]"

text \<open>Epoch 1, with the common checkpoint at its start, then a state transfer into epoch 3.\<close>

definition ex_epoch1 :: "IssInput list" where
  "ex_epoch1 =
     [IICertVerified True (ex_ctx 0 [10] ''a''), IINewConfig 1 ex_memb,
      IISBDeliver 4 [14] False ''a'' ''ordering/1/0'', IICertVerified True (ex_ctx 4 [14] ''a''),
      IISBDeliver 0 [7] False ''b'' ''ordering/1/chkp'', IIEpochProgress ''b'' 1, IIPushCheckpoint]"

definition ex_transfer :: "IssInput list" where
  "ex_transfer =
     [IIStableCheckpointReceived (ex_iss_chkp 3), IICheckpointValidated True (ex_iss_chkp 3),
      IISBDeliver 12 [12] False ''a'' ''ordering/3/0'', IICertVerified True (ex_ctx 12 [12] ''a'')]"

definition ex_iss_mid :: IssState where
  "ex_iss_mid = (case iss_exec ex_iss_env ex_iss_conf ex_valid_cert ex_epoch0 ex_iss_init of Some s \<Rightarrow> s | None \<Rightarrow> ex_iss_init)"

definition ex_iss_state :: IssState where
  "ex_iss_state = (case iss_exec ex_iss_env ex_iss_conf ex_valid_cert (ex_epoch1 @ ex_transfer) ex_iss_mid of Some s \<Rightarrow> s | None \<Rightarrow> ex_iss_mid)"

lemma ex_iss_new: "IssNew ex_iss_env ex_iss_conf (Genesis (the (sc_Snapshot (ex_iss_chkp 0)))) = Inr ex_iss_init"
  by code_simp

lemma ex_iss_mid_reachable: "iss_reachable ex_iss_env ex_iss_conf ex_valid_cert ex_iss_mid"
proof -
  have "iss_exec ex_iss_env ex_iss_conf ex_valid_cert ex_epoch0 ex_iss_init \<noteq> None" by code_simp
  then have "iss_exec ex_iss_env ex_iss_conf ex_valid_cert ex_epoch0 ex_iss_init = Some ex_iss_mid"
    by (auto simp: ex_iss_mid_def)
  then show ?thesis by (rule iss_exec_reachable [OF iss_start [OF ex_iss_new]])
qed

text \<open>The state in epoch 1 in which sequence number 4 is committed and waits for the checkpoint.\<close>

definition ex_iss_wait :: IssState where
  "ex_iss_wait = (case iss_exec ex_iss_env ex_iss_conf ex_valid_cert (take 4 ex_epoch1) ex_iss_mid of Some s \<Rightarrow> s | None \<Rightarrow> ex_iss_mid)"

lemma ex_iss_wait_reachable: "iss_reachable ex_iss_env ex_iss_conf ex_valid_cert ex_iss_wait"
proof -
  have "iss_exec ex_iss_env ex_iss_conf ex_valid_cert (take 4 ex_epoch1) ex_iss_mid \<noteq> None" by code_simp
  then have "iss_exec ex_iss_env ex_iss_conf ex_valid_cert (take 4 ex_epoch1) ex_iss_mid = Some ex_iss_wait"
    by (auto simp: ex_iss_wait_def)
  then show ?thesis by (rule iss_exec_reachable [OF ex_iss_mid_reachable])
qed

lemma ex_iss_reachable: "iss_reachable ex_iss_env ex_iss_conf ex_valid_cert ex_iss_state"
proof -
  have "iss_exec ex_iss_env ex_iss_conf ex_valid_cert (ex_epoch1 @ ex_transfer) ex_iss_mid \<noteq> None" by code_simp
  then have "iss_exec ex_iss_env ex_iss_conf ex_valid_cert (ex_epoch1 @ ex_transfer) ex_iss_mid = Some ex_iss_state"
    by (auto simp: ex_iss_state_def)
  then show ?thesis by (rule iss_exec_reachable [OF ex_iss_mid_reachable])
qed

section \<open>Properties\<close>

text \<open>
  C9: ISS refines the application's view of a totally ordered log: every sequence of events emitted by
  an ISS instance is accepted by the automaton in which certificates are delivered in the order of their
  sequence numbers without gaps, an epoch starts only when the previous one has been delivered completely,
  and nothing of an epoch is delivered before its checkpoint is stable; and the automaton ends in the state
  that abstracts the state of ISS.
\<close>

theorem iss_refines_app_view:
  assumes "iss_reachable env c valid_cert s"
  shows "app_run (iss_out s) app_init = Some (abs_iss s)"
  using iss_reachable_sim [OF assms] by (simp add: iss_sim_def app_accepts_def)

theorem iss_refines_app_view_witness:
  "app_run (iss_out ex_iss_state) app_init = Some (abs_iss ex_iss_state) \<and> length (delivered_sns (iss_out ex_iss_state)) = 6"
proof
  show "app_run (iss_out ex_iss_state) app_init = Some (abs_iss ex_iss_state)"
    by (rule iss_refines_app_view [OF ex_iss_reachable])
  show "length (delivered_sns (iss_out ex_iss_state)) = 6" by code_simp
qed

text \<open>
  C20: After the application's state has been restored from a checkpoint, the certificates delivered until
  the next restoration have exactly the consecutive sequence numbers from that of the checkpoint on.
\<close>

theorem deliveries_consecutive:
  assumes "iss_reachable env c valid_cert s" "iss_out s = pre @ IORestoreState chkp # post" "\<not> list_ex is_restore post"
  shows "consecutive (sc_Sn chkp) (delivered_sns post)"
proof -
  from iss_reachable_sim [OF assms(1)] have "app_run (iss_out s) app_init = Some (abs_iss s)"
    by (simp add: iss_sim_def app_accepts_def)
  then obtain v0 v1 where v: "app_step (IORestoreState chkp) v0 = Some v1" "app_run post v1 = Some (abs_iss s)"
    by (auto simp: assms(2) app_run_append split: option.splits)
  then have "av_next v1 = sc_Sn chkp" by (auto split: sum.splits)
  with app_run_consecutive [OF v(2) assms(3)] show ?thesis by simp
qed

theorem deliveries_consecutive_witness:
  "consecutive 0 (delivered_sns (tl (iss_out ex_iss_mid)))"
proof -
  have out: "iss_out ex_iss_mid = [] @ IORestoreState (Genesis (the (sc_Snapshot (ex_iss_chkp 0)))) # tl (iss_out ex_iss_mid)"
    by code_simp
  have "\<not> list_ex is_restore (tl (iss_out ex_iss_mid))" by code_simp
  from deliveries_consecutive [OF ex_iss_mid_reachable out this] show ?thesis by (simp add: Genesis_def)
qed

text \<open>
  C19: Every certificate delivered to the application was confirmed by the availability module, except
  that an aborted sequence number delivers the empty certificate.
\<close>

theorem delivered_certificates_verified:
  assumes "iss_reachable env c valid_cert s" "IODeliverCert sn cert aborted \<in> set (iss_out s)"
  shows "if aborted then cert = CertMscs [] else valid_cert cert"
  using iss_reachable_inv [OF assms(1)] assms(2) by (force simp: iss_inv_def)

theorem delivered_certificates_verified_witness:
  "if False then CertMscs [\<lparr>msc_BatchId = [10], msc_Signers = [''a'', ''b''], msc_Signatures = [[1], [2]]\<rparr>] = CertMscs []
   else ex_valid_cert (CertMscs [\<lparr>msc_BatchId = [10], msc_Signers = [''a'', ''b''], msc_Signatures = [[1], [2]]\<rparr>])"
  by (rule delivered_certificates_verified [OF ex_iss_reachable, of 0]) code_simp

text \<open>
  C23: The pipeline of memberships always has \<open>ConfigOffset + 1\<close> elements, one more than its documentation
  says, also in the parameters of every checkpoint instance that ISS creates.
\<close>

theorem membership_pipeline_length:
  assumes "iss_reachable env c valid_cert s"
  shows "int (length (iss_memberships s)) = ip_ConfigOffset (ic_Params c) + 1 \<and>
     (\<forall>mid p e. IONewCheckpoint mid p e \<in> set (iss_out s) \<longrightarrow>
        (\<exists>ms. ec_Memberships (cp_EpochConfig p) = Some ms \<and> int (length ms) = ip_ConfigOffset (ic_Params c) + 1))"
  using iss_reachable_inv [OF assms] by (force simp: iss_inv_def)

theorem membership_pipeline_length_witness: "int (length (iss_memberships ex_iss_state)) = 2"
  using membership_pipeline_length [OF ex_iss_reachable] by (simp add: ex_iss_conf_def)



text \<open>
  C21: The segments of an epoch partition its sequence numbers: \<open>initOrderers\<close> creates one segment per leader,
  in order, the segments are pairwise disjoint, together they are the block of consecutive sequence numbers
  from the next one to deliver on, and \<open>newEpochSN\<close> advances by the length of that block.
\<close>

theorem epoch_segments_partition:
  assumes "initOrderers c s = Inr s'" "Leaders (iss_LeaderPolicy s) = Inr leaders"
    and "iss_epoch s = Some e" "ei_Segments e = []" "ip_SegmentLength (ic_Params c) = int k" "length leaders * k \<le> 2 ^ 64"
  shows "\<exists>segs. iss_epoch s' = Some (e\<lparr>ei_Segments := segs\<rparr>) \<and> map seg_Leader segs = leaders \<and>
     (\<forall>i < length segs. \<forall>j < length segs. i \<noteq> j \<longrightarrow> seg_SNs (segs ! i) \<inter> seg_SNs (segs ! j) = {}) \<and>
     (\<Union>seg \<in> set segs. seg_SNs seg) = sn_block (iss_nextDeliveredSN s) (length leaders * k) \<and>
     iss_newEpochSN s' = iss_newEpochSN s + of_nat (length leaders * k)"
proof -
  have "initOrderers_loop c (length leaders) 0 leaders s = Inr s'" using assms(1,2) by (simp add: initOrderers_def)
  from initOrderers_loop_segments [OF this assms(3) _ assms(6,5)] assms(4) obtain segs where
      segs: "iss_epoch s' = Some (e\<lparr>ei_Segments := segs\<rparr>)" "length segs = length leaders"
        "iss_newEpochSN s' = iss_newEpochSN s + of_nat (length leaders * k)"
        "\<And>j. j < length leaders \<Longrightarrow> seg_Leader (segs ! j) = leaders ! j \<and>
           seg_SNs (segs ! j) = sn_stride (iss_nextDeliveredSN s) (length leaders) k j" by auto
  have "(\<Union>seg \<in> set segs. seg_SNs seg) = (\<Union>j<length leaders. sn_stride (iss_nextDeliveredSN s) (length leaders) k j)"
  proof -
    have "set segs = (\<lambda>j. segs ! j) ` {..<length leaders}" using segs(2) by (auto simp: set_conv_nth)
    with segs(4) show ?thesis by simp
  qed
  then have "(\<Union>seg \<in> set segs. seg_SNs seg) = sn_block (iss_nextDeliveredSN s) (length leaders * k)"
    by (simp only: stride_union)
  moreover have "map seg_Leader segs = leaders" using segs(2,4) by (auto intro: nth_equalityI)
  moreover have "seg_SNs (segs ! i) \<inter> seg_SNs (segs ! j) = {}" if "i < length segs" "j < length segs" "i \<noteq> j" for i j
    using stride_disjoint [OF assms(6)] that segs(2,4) by simp
  ultimately show ?thesis using segs(1,3) by blast
qed

theorem epoch_segments_partition_witness:
  "\<exists>s'. initOrderers ex_iss_conf (ex_iss_init\<lparr>iss_epoch := Some (newEpochInfo 0 0 ex_memb)\<rparr>) = Inr s' \<and>
     iss_newEpochSN s' = 4 \<and> (\<Union>seg \<in> set (ei_Segments (the (iss_epoch s'))). seg_SNs seg) = sn_block 0 4"
proof -
  let ?s = "ex_iss_init\<lparr>iss_epoch := Some (newEpochInfo 0 0 ex_memb)\<rparr>"
  have "is_ok (initOrderers ex_iss_conf ?s)" by code_simp
  then obtain s' where s': "initOrderers ex_iss_conf ?s = Inr s'" by (auto simp: is_ok_iff)
  have "Leaders (iss_LeaderPolicy ?s) = Inr [''a'', ''b'', ''c'', ''d'']" "ei_Segments (newEpochInfo 0 0 ex_memb) = []"
    "ip_SegmentLength (ic_Params ex_iss_conf) = int 1" by code_simp+
  from epoch_segments_partition [OF s' this(1) _ this(2,3)] obtain segs where
      "iss_epoch s' = Some ((newEpochInfo 0 0 ex_memb)\<lparr>ei_Segments := segs\<rparr>)"
      "(\<Union>seg \<in> set segs. seg_SNs seg) = sn_block (iss_nextDeliveredSN ?s) (length [''a'', ''b'', ''c'', ''d''] * 1)"
      "iss_newEpochSN s' = iss_newEpochSN ?s + of_nat (length [''a'', ''b'', ''c'', ''d''] * 1)" by auto
  moreover have "length [''a'', ''b'', ''c'', ''d''] * 1 = 4" by simp
  ultimately show ?thesis using s' by (simp only:) (simp add: ex_iss_init_def)
qed

text \<open>
  C25: ISS recognises the deliveries of an orderer instance by its module identifier: what the orderer of a
  common checkpoint delivers is treated as a checkpoint, and what the orderer of a segment delivers never
  is, for every epoch and segment number.
\<close>

theorem sb_deliver_dispatch:
  assumes "Separator \<notin> set (mc_Ordering (ic_mc c))"
  shows "UponSBDeliver env c sn data aborted leader (ModuleID_Then (sub_module (mc_Ordering (ic_mc c)) n) ''chkp'') s =
      deliverCommonCheckpoint env c data s \<and>
     UponSBDeliver env c sn data aborted leader (ModuleID_Then (sub_module (mc_Ordering (ic_mc c)) n) (nat_String i)) s =
      (if aborted then deliverCert env c sn data aborted leader s else verifyCert env c sn data aborted leader s)"
  using chkp_not_number [of i] by (simp_all add: UponSBDeliver_def orderer_id_suffix [OF assms])

theorem sb_deliver_dispatch_witness:
  "UponSBDeliver ex_iss_env ex_iss_conf 0 [7] False ''b'' ''ordering/1/chkp'' ex_iss_mid =
     deliverCommonCheckpoint ex_iss_env ex_iss_conf [7] ex_iss_mid"
proof -
  have "ModuleID_Then (sub_module (mc_Ordering (ic_mc ex_iss_conf)) 1) ''chkp'' = ''ordering/1/chkp''" by code_simp
  moreover have "Separator \<notin> set (mc_Ordering (ic_mc ex_iss_conf))" by code_simp
  ultimately show ?thesis using sb_deliver_dispatch [of ex_iss_conf ex_iss_env 0 "[7]" False "''b''" 1 ex_iss_mid] by simp
qed

end
