(* ===== verification/BatchFetcher.thy ===== *)
theory BatchFetcher
  imports Iss
begin

text \<open>
  The batch fetcher (\<open>pkg/batchfetcher\<close>): it relays the events ISS addresses to the application in their
  order, replaces every delivered certificate by the transactions it stands for, and removes transactions
  that were delivered before.

  An output item is a heap object shared by the queue and the context of a pending request; the model gives
  every item an address, and the answer to a request names the address. The hook of an item is a closure; the
  closures of the source are the constructors of \<open>OutputHook\<close>. They read the epoch number when they are run,
  not when they are created. Event types that the batch fetcher only passes through are the type parameter \<open>'e\<close>.
\<close>

section \<open>Data\<close>

record Transaction =
  tx_ClientId :: ClientID
  tx_TxNo :: TxNo
  tx_Type :: uint64
  tx_Data :: bytes

record BfModuleConfig =
  bfc_Self :: ModuleID
  bfc_Availability :: ModuleID
  bfc_Checkpoint :: ModuleID
  bfc_Destination :: ModuleID
  bfc_Mempool :: ModuleID

datatype 'e BfEvent =
    EvNewEpoch EpochNr ModuleID
  | EvOrderedBatch "Transaction list"
  | EvSnapshotRequest ModuleID
  | EvRestoreState StableCheckpoint
  | EvOther 'e
  | EvRequestTransactions Cert nat
  | EvMempoolNewEpoch EpochNr ClientProgressPb
  | EvClientProgress ClientProgressPb

datatype OutputHook = HookNewEpoch | HookFilter | HookSnapshot | HookNone

record 'e outputItem =
  oi_addr :: nat
  oi_event :: "'e BfEvent option"
  oi_f :: OutputHook

record 'e BfState =
  bf_epochNr :: EpochNr
  bf_clientProgress :: ClientProgress
  bf_output :: "'e outputItem list"
  bf_nextAddr :: nat
  bf_out :: "(ModuleID \<times> 'e BfEvent) list"

section \<open>Hooks and the output queue\<close>

fun filterDuplicates :: "Transaction list \<Rightarrow> Transaction list \<Rightarrow> ClientProgress \<Rightarrow> Transaction list \<times> ClientProgress" where
  "filterDuplicates newTxs [] cp = (newTxs, cp)"
| "filterDuplicates newTxs (tx # txs) cp =
     (let (cp, new) = ClientProgress_Add cp (tx_ClientId tx) (tx_TxNo tx)
      in filterDuplicates (if new then newTxs @ [tx] else newTxs) txs cp)"

text \<open>
  The effect of a hook: the event (whose transactions the filter replaces in place), the client progress, and
  the events the hook emits. The filter asserts the type of the event it is given.
\<close>

fun run_hook ::
  "BfModuleConfig \<Rightarrow> EpochNr \<Rightarrow> OutputHook \<Rightarrow> 'e BfEvent \<Rightarrow> ClientProgress \<Rightarrow>
     ('e BfEvent \<times> ClientProgress \<times> (ModuleID \<times> 'e BfEvent) list) res" where
  "run_hook mc epochNr HookNone ev cp = Inr (ev, cp, [])"
| "run_hook mc epochNr HookFilter ev cp =
     (case ev of
        EvOrderedBatch txs \<Rightarrow> (let (txs, cp) = filterDuplicates [] txs cp in Inr (EvOrderedBatch txs, cp, []))
      | _ \<Rightarrow> Inl (Panic ''interface conversion''))"
| "run_hook mc epochNr HookNewEpoch ev cp =
     (let cp = fst (ClientProgress_GarbageCollect cp)
      in Inr (ev, cp, [(bfc_Mempool mc, EvMempoolNewEpoch epochNr (ClientProgress_Pb cp))]))"
| "run_hook mc epochNr HookSnapshot ev cp =
     (let cp = fst (ClientProgress_GarbageCollect cp)
      in Inr (ev, cp, [(sub_module (bfc_Checkpoint mc) epochNr, EvClientProgress (ClientProgress_Pb cp))]))"

fun Flush_loop ::
  "BfModuleConfig \<Rightarrow> EpochNr \<Rightarrow> 'e outputItem list \<Rightarrow> ClientProgress \<Rightarrow>
     ('e outputItem list \<times> ClientProgress \<times> (ModuleID \<times> 'e BfEvent) list) res" where
  "Flush_loop mc epochNr [] cp = Inr ([], cp, [])"
| "Flush_loop mc epochNr (item # items) cp =
     (case oi_event item of
        None \<Rightarrow> Inr (item # items, cp, [])
      | Some ev \<Rightarrow> rbind (run_hook mc epochNr (oi_f item) ev cp) (\<lambda>(ev, cp, emitted).
                   rbind (Flush_loop mc epochNr items cp) (\<lambda>(rest, cp, out).
                     Inr (rest, cp, emitted @ (bfc_Destination mc, ev) # out))))"

definition Flush :: "BfModuleConfig \<Rightarrow> 'e BfState \<Rightarrow> 'e BfState res" where
  "Flush mc s =
     rbind (Flush_loop mc (bf_epochNr s) (bf_output s) (bf_clientProgress s)) (\<lambda>(rest, cp, out).
       Inr (s\<lparr>bf_output := rest, bf_clientProgress := cp, bf_out := bf_out s @ out\<rparr>))"

definition Enqueue :: "'e BfEvent option \<Rightarrow> OutputHook \<Rightarrow> 'e BfState \<Rightarrow> 'e BfState" where
  "Enqueue ev f s =
     s\<lparr>bf_output := bf_output s @ [\<lparr>oi_addr = bf_nextAddr s, oi_event = ev, oi_f = f\<rparr>], bf_nextAddr := Suc (bf_nextAddr s)\<rparr>"

text \<open>Assigning the event of the item at an address; an item that left the queue is out of reach.\<close>

definition set_event :: "nat \<Rightarrow> 'e BfEvent \<Rightarrow> 'e outputItem list \<Rightarrow> 'e outputItem list" where
  "set_event addr ev items = map (\<lambda>item. if oi_addr item = addr then item\<lparr>oi_event := Some ev\<rparr> else item) items"

section \<open>Event handlers\<close>

definition BfNew :: "EpochNr \<Rightarrow> ClientProgress \<Rightarrow> 'e BfState" where
  "BfNew epochNr clientProgress =
     \<lparr>bf_epochNr = epochNr, bf_clientProgress = clientProgress, bf_output = [], bf_nextAddr = 0, bf_out = []\<rparr>"

definition UponBfNewEpoch :: "BfModuleConfig \<Rightarrow> EpochNr \<Rightarrow> ModuleID \<Rightarrow> 'e BfState \<Rightarrow> 'e BfState res" where
  "UponBfNewEpoch mc newEpochNr protocolModule s =
     (let s = s\<lparr>bf_epochNr := newEpochNr\<rparr>
      in Flush mc (Enqueue (Some (EvNewEpoch (bf_epochNr s) protocolModule)) HookNewEpoch s))"

definition UponBfDeliverCert :: "BfModuleConfig \<Rightarrow> SeqNr \<Rightarrow> Cert \<Rightarrow> bool \<Rightarrow> 'e BfState \<Rightarrow> 'e BfState res" where
  "UponBfDeliverCert mc sn cert isEmpty s =
     (let addr = bf_nextAddr s; s = Enqueue None HookFilter s
      in if isEmpty then Flush mc (s\<lparr>bf_output := set_event addr (EvOrderedBatch []) (bf_output s)\<rparr>)
         else Inr (s\<lparr>bf_out := bf_out s @ [(sub_module (bfc_Availability mc) (bf_epochNr s), EvRequestTransactions cert addr)]\<rparr>))"

definition UponBfSnapshotRequest :: "BfModuleConfig \<Rightarrow> ModuleID \<Rightarrow> 'e BfState \<Rightarrow> 'e BfState res" where
  "UponBfSnapshotRequest mc replyTo s = Flush mc (Enqueue (Some (EvSnapshotRequest replyTo)) HookSnapshot s)"

definition sc_ClientProgress :: "StableCheckpoint \<Rightarrow> ClientProgress res" where
  "sc_ClientProgress chkp =
     rbind (sc_EpochData chkp) (\<lambda>ed. rbind (deref (ed_ClientProgress ed)) (\<lambda>pb. Inr (ClientProgress_LoadPb pb)))"

definition UponBfRestoreState :: "BfModuleConfig \<Rightarrow> StableCheckpoint \<Rightarrow> 'e BfState \<Rightarrow> 'e BfState res" where
  "UponBfRestoreState mc chkp s =
     rbind (sc_Epoch chkp) (\<lambda>epochNr. rbind (sc_ClientProgress chkp) (\<lambda>clientProgress.
       Inr (s\<lparr>bf_epochNr := epochNr, bf_clientProgress := clientProgress, bf_output := [],
              bf_out := bf_out s @ [(bfc_Destination mc, EvRestoreState chkp)]\<rparr>)))"

definition UponBfProvideTransactions :: "BfModuleConfig \<Rightarrow> Transaction list \<Rightarrow> nat \<Rightarrow> 'e BfState \<Rightarrow> 'e BfState res" where
  "UponBfProvideTransactions mc txs addr s =
     Flush mc (s\<lparr>bf_output := set_event addr (EvOrderedBatch txs) (bf_output s)\<rparr>)"

definition UponBfOther :: "BfModuleConfig \<Rightarrow> 'e \<Rightarrow> 'e BfState \<Rightarrow> 'e BfState res" where
  "UponBfOther mc ev s = Flush mc (Enqueue (Some (EvOther ev)) HookNone s)"

datatype 'e BfInput =
    BINewEpoch EpochNr ModuleID
  | BIDeliverCert SeqNr Cert bool
  | BISnapshotRequest ModuleID
  | BIRestoreState StableCheckpoint
  | BIProvideTransactions "Transaction list" nat
  | BIInit
  | BIOther 'e

fun BfApplyEvent :: "BfModuleConfig \<Rightarrow> 'e BfInput \<Rightarrow> 'e BfState \<Rightarrow> 'e BfState res" where
  "BfApplyEvent mc (BINewEpoch e m) s = UponBfNewEpoch mc e m s"
| "BfApplyEvent mc (BIDeliverCert sn cert isEmpty) s = UponBfDeliverCert mc sn cert isEmpty s"
| "BfApplyEvent mc (BISnapshotRequest r) s = UponBfSnapshotRequest mc r s"
| "BfApplyEvent mc (BIRestoreState chkp) s = UponBfRestoreState mc chkp s"
| "BfApplyEvent mc (BIProvideTransactions txs addr) s = UponBfProvideTransactions mc txs addr s"
| "BfApplyEvent mc BIInit s = Inr s"
| "BfApplyEvent mc (BIOther ev) s = UponBfOther mc ev s"

fun bf_run :: "BfModuleConfig \<Rightarrow> 'e BfInput list \<Rightarrow> 'e BfState \<Rightarrow> 'e BfState res" where
  "bf_run mc [] s = Inr s"
| "bf_run mc (i # is) s = rbind (BfApplyEvent mc i s) (bf_run mc is)"

end
