(* ===== verification/BatchFetcherProperties.thy ===== *)
theory BatchFetcherProperties
  imports BatchFetcher "HOL-Library.Sublist"
begin

text \<open>
  What the batch fetcher promises to the application: its output is determined by the order of the events from
  ISS, whenever the transactions arrive, and every transaction is delivered exactly once. The specification is a
  list of items in the order of their events, rendered as far as its batches are known; the handlers implement
  it. The laws of the client progress come through the interpretation \<open>client_log\<close> of the locale \<open>tx_log\<close>.
\<close>

section \<open>Filtering\<close>

lemma filterDuplicates_eq:
  "filterDuplicates acc txs cp =
     (acc @ fst (client_log.keep_new tx_ClientId tx_TxNo txs cp), snd (client_log.keep_new tx_ClientId tx_TxNo txs cp))"
proof (induction txs arbitrary: acc cp)
  case (Cons tx txs)
  then show ?case by (simp add: Let_def case_prod_unfold)
qed simp

section \<open>What the application sees\<close>

text \<open>
  The specification of the batch fetcher: the items in the order in which their events came in, each batch
  either known or not; the application sees what the known prefix of the items renders to. Only batches
  depend on the client progress, and the epoch number does not matter.
\<close>

fun to_app :: "'e BfEvent \<Rightarrow> bool" where
  "to_app (EvRequestTransactions cert addr) \<longleftrightarrow> False"
| "to_app (EvMempoolNewEpoch e pb) \<longleftrightarrow> False"
| "to_app (EvClientProgress pb) \<longleftrightarrow> False"
| "to_app ev \<longleftrightarrow> True"

definition app_events :: "(ModuleID \<times> 'e BfEvent) list \<Rightarrow> 'e BfEvent list" where
  "app_events out = filter to_app (map snd out)"

fun render_hook :: "OutputHook \<Rightarrow> 'e BfEvent \<Rightarrow> ClientProgress \<Rightarrow> 'e BfEvent \<times> ClientProgress" where
  "render_hook HookFilter (EvOrderedBatch txs) cp =
     (EvOrderedBatch (fst (client_log.keep_new tx_ClientId tx_TxNo txs cp)), snd (client_log.keep_new tx_ClientId tx_TxNo txs cp))"
| "render_hook HookNone ev cp = (ev, cp)"
| "render_hook f ev cp = (ev, fst (ClientProgress_GarbageCollect cp))"

fun render :: "ClientProgress \<Rightarrow> 'e outputItem list \<Rightarrow> 'e BfEvent list \<times> ClientProgress" where
  "render cp [] = ([], cp)"
| "render cp (item # items) =
     (case oi_event item of
        None \<Rightarrow> ([], cp)
      | Some ev \<Rightarrow> (let (ev, cp) = render_hook (oi_f item) ev cp; (evs, cp) = render cp items in (ev # evs, cp)))"

definition known :: "'e outputItem \<Rightarrow> bool" where
  "known item \<longleftrightarrow> oi_event item \<noteq> None"

definition item_ok :: "'e outputItem \<Rightarrow> bool" where
  "item_ok item \<longleftrightarrow>
     (oi_f item = HookFilter \<longrightarrow> oi_event item = None \<or> (\<exists>txs. oi_event item = Some (EvOrderedBatch txs))) \<and>
     (\<forall>ev. oi_event item = Some ev \<longrightarrow> to_app ev)"

lemma app_events_simps [simp]:
  "app_events [] = []" "app_events (out @ out') = app_events out @ app_events out'"
  "app_events ((m, ev) # out) = (if to_app ev then [ev] else []) @ app_events out"
  by (simp_all add: app_events_def)

lemma run_hook_render:
  assumes "item_ok item" "oi_event item = Some ev"
  shows "\<exists>emitted. run_hook mc e (oi_f item) ev cp = Inr (fst (render_hook (oi_f item) ev cp), snd (render_hook (oi_f item) ev cp), emitted) \<and>
    app_events emitted = [] \<and> to_app (fst (render_hook (oi_f item) ev cp))"
  using assms by (cases "oi_f item") (auto simp: item_ok_def filterDuplicates_eq Let_def case_prod_unfold)

text \<open>Flushing never fails on such items, and takes exactly the known prefix.\<close>

lemma Flush_loop_render:
  assumes "\<forall>item \<in> set items. item_ok item"
  shows "\<exists>out. Flush_loop mc e items cp =
      Inr (dropWhile known items, snd (render cp items), out) \<and> app_events out = fst (render cp items)"
  using assms
proof (induction items arbitrary: cp)
  case (Cons item items)
  show ?case
  proof (cases "oi_event item")
    case (Some ev)
    with Cons(2) run_hook_render [of item ev mc e cp] obtain emitted where
        h: "run_hook mc e (oi_f item) ev cp = Inr (fst (render_hook (oi_f item) ev cp), snd (render_hook (oi_f item) ev cp), emitted)"
          "app_events emitted = []" "to_app (fst (render_hook (oi_f item) ev cp))" by auto
    from Cons(1) [of "snd (render_hook (oi_f item) ev cp)"] Cons(2) obtain out where
        "Flush_loop mc e items (snd (render_hook (oi_f item) ev cp)) = Inr (dropWhile known items,
           snd (render (snd (render_hook (oi_f item) ev cp)) items), out)"
        "app_events out = fst (render (snd (render_hook (oi_f item) ev cp)) items)" by auto
    moreover have "known item" using Some by (simp add: known_def)
    ultimately show ?thesis using Some h by (simp add: Let_def case_prod_unfold)
  qed (simp add: known_def)
qed simp

lemma render_append:
  assumes "\<forall>item \<in> set xs. known item"
  shows "render cp (xs @ ys) = (fst (render cp xs) @ fst (render (snd (render cp xs)) ys), snd (render (snd (render cp xs)) ys))"
  using assms
proof (induction xs arbitrary: cp)
  case (Cons x xs)
  then show ?case by (auto simp: Let_def case_prod_unfold known_def)
qed simp

lemma render_known: "render cp (takeWhile known items) = render cp items"
  by (induction items arbitrary: cp) (auto simp: Let_def case_prod_unfold known_def split: option.splits)

text \<open>The item an input enqueues, and the items of a sequence of inputs.\<close>

fun item_of :: "nat \<Rightarrow> 'e BfInput \<Rightarrow> 'e outputItem list" where
  "item_of n (BINewEpoch e m) = [\<lparr>oi_addr = n, oi_event = Some (EvNewEpoch e m), oi_f = HookNewEpoch\<rparr>]"
| "item_of n (BIDeliverCert sn cert isEmpty) =
     [\<lparr>oi_addr = n, oi_event = (if isEmpty then Some (EvOrderedBatch []) else None), oi_f = HookFilter\<rparr>]"
| "item_of n (BISnapshotRequest r) = [\<lparr>oi_addr = n, oi_event = Some (EvSnapshotRequest r), oi_f = HookSnapshot\<rparr>]"
| "item_of n (BIOther ev) = [\<lparr>oi_addr = n, oi_event = Some (EvOther ev), oi_f = HookNone\<rparr>]"
| "item_of n i = []"

fun items_of :: "nat \<Rightarrow> 'e BfInput list \<Rightarrow> 'e outputItem list" where
  "items_of n [] = []"
| "items_of n (i # is) = item_of n i @ items_of (n + length (item_of n i)) is"

text \<open>
  The answers of the availability layer, as a function of the request, fill in the batches. Inputs are
  admissible when every answer is to a request made before, and carries the transactions of that request.
\<close>

definition resolve :: "(nat \<Rightarrow> Transaction list) \<Rightarrow> nat set \<Rightarrow> 'e outputItem \<Rightarrow> 'e outputItem" where
  "resolve resp R item =
     (if oi_event item = None \<and> oi_addr item \<in> R then item\<lparr>oi_event := Some (EvOrderedBatch (resp (oi_addr item)))\<rparr> else item)"

fun answered :: "'e BfInput list \<Rightarrow> nat set" where
  "answered [] = {}"
| "answered (BIProvideTransactions txs addr # is) = insert addr (answered is)"
| "answered (i # is) = answered is"

fun bf_admissible :: "(nat \<Rightarrow> Transaction list) \<Rightarrow> nat \<Rightarrow> nat set \<Rightarrow> 'e BfInput list \<Rightarrow> bool" where
  "bf_admissible resp n P [] \<longleftrightarrow> True"
| "bf_admissible resp n P (BIProvideTransactions txs addr # is) \<longleftrightarrow> addr \<in> P \<and> txs = resp addr \<and> bf_admissible resp n P is"
| "bf_admissible resp n P (BIDeliverCert sn cert isEmpty # is) \<longleftrightarrow> bf_admissible resp (Suc n) (if isEmpty then P else insert n P) is"
| "bf_admissible resp n P (BIRestoreState chkp # is) \<longleftrightarrow> False"
| "bf_admissible resp n P (i # is) \<longleftrightarrow> bf_admissible resp (n + length (item_of n i)) P is"

definition bf_rel :: "ClientProgress \<Rightarrow> 'e BfEvent list \<Rightarrow> 'e outputItem list \<Rightarrow> 'e BfState \<Rightarrow> bool" where
  "bf_rel cp0 out0 hist s \<longleftrightarrow>
     bf_output s = dropWhile known hist \<and> bf_clientProgress s = snd (render cp0 hist) \<and>
     app_events (bf_out s) = out0 @ fst (render cp0 hist) \<and> (\<forall>item \<in> set hist. item_ok item)"

lemma Flush_rel:
  assumes "bf_output s = q" "\<forall>item \<in> set xs. known item" "\<forall>item \<in> set (xs @ q). item_ok item"
    and "bf_clientProgress s = snd (render cp0 xs)" "app_events (bf_out s) = out0 @ fst (render cp0 xs)"
  shows "\<exists>s'. Flush mc s = Inr s' \<and> bf_rel cp0 out0 (xs @ q) s' \<and> bf_nextAddr s' = bf_nextAddr s"
proof -
  from assms(3) Flush_loop_render [of q mc "bf_epochNr s" "bf_clientProgress s"] obtain out where
      "Flush_loop mc (bf_epochNr s) q (bf_clientProgress s) =
         Inr (dropWhile known q, snd (render (bf_clientProgress s) q), out)"
      "app_events out = fst (render (bf_clientProgress s) q)" by auto
  moreover have "dropWhile known (xs @ q) = dropWhile known q"
    by (rule dropWhile_append2) (use assms(2) in blast)
  ultimately show ?thesis using assms
    by (simp add: Flush_def bf_rel_def render_append [OF assms(2)])
qed

lemma bf_rel_split:
  assumes "bf_rel cp0 out0 hist s"
  obtains xs where "hist = xs @ bf_output s" "\<forall>item \<in> set xs. known item"
    "bf_clientProgress s = snd (render cp0 xs)" "app_events (bf_out s) = out0 @ fst (render cp0 xs)"
proof -
  let ?xs = "takeWhile known hist"
  have "hist = ?xs @ bf_output s" using assms by (simp add: bf_rel_def)
  moreover have "\<forall>item \<in> set ?xs. known item" by (auto dest: set_takeWhileD)
  ultimately show ?thesis using that [of ?xs] assms by (simp add: bf_rel_def render_known)
qed

lemma enqueue_rel:
  assumes "bf_rel cp0 out0 hist s" "item_ok \<lparr>oi_addr = bf_nextAddr s, oi_event = ev, oi_f = f\<rparr>"
  shows "\<exists>s'. Flush mc (Enqueue ev f s) = Inr s' \<and>
     bf_rel cp0 out0 (hist @ [\<lparr>oi_addr = bf_nextAddr s, oi_event = ev, oi_f = f\<rparr>]) s' \<and> bf_nextAddr s' = Suc (bf_nextAddr s)"
proof -
  from assms(1) obtain xs where xs: "hist = xs @ bf_output s" "\<forall>item \<in> set xs. known item"
    "bf_clientProgress s = snd (render cp0 xs)" "app_events (bf_out s) = out0 @ fst (render cp0 xs)" by (rule bf_rel_split)
  have ok: "\<forall>item \<in> set hist. item_ok item" using assms(1) by (simp add: bf_rel_def)
  from Flush_rel [of "Enqueue ev f s" "bf_output s @ [\<lparr>oi_addr = bf_nextAddr s, oi_event = ev, oi_f = f\<rparr>]" xs cp0 out0 mc]
    xs assms(2) ok show ?thesis by (auto simp: Enqueue_def)
qed

lemma set_event_resolve:
  assumes "\<And>item. item \<in> set items \<Longrightarrow> oi_addr item = addr \<Longrightarrow> oi_event item = None \<or> oi_event item = Some (EvOrderedBatch (resp addr))"
  shows "set_event addr (EvOrderedBatch (resp addr)) items = map (resolve resp {addr}) items"
  unfolding set_event_def
proof (rule map_cong)
  fix item assume "item \<in> set items"
  with assms show "(if oi_addr item = addr then item\<lparr>oi_event := Some (EvOrderedBatch (resp addr))\<rparr> else item) = resolve resp {addr} item"
    by (cases item) (fastforce simp: resolve_def)
qed simp

lemma resolve_known [simp]: "known item \<Longrightarrow> resolve resp R item = item"
  by (simp add: resolve_def known_def)

lemma resolve_insert: "resolve resp R (resolve resp {addr} item) = resolve resp (insert addr R) item"
  by (auto simp: resolve_def)

lemma resolve_addr [simp]: "oi_addr (resolve resp R item) = oi_addr item"
  by (simp add: resolve_def)

lemma provide_rel:
  assumes "bf_rel cp0 out0 hist s"
    and "\<And>item. item \<in> set hist \<Longrightarrow> oi_addr item = addr \<Longrightarrow>
      oi_f item = HookFilter \<and> (oi_event item = None \<or> oi_event item = Some (EvOrderedBatch (resp addr)))"
  shows "\<exists>s'. UponBfProvideTransactions mc (resp addr) addr s = Inr s' \<and>
     bf_rel cp0 out0 (map (resolve resp {addr}) hist) s' \<and> bf_nextAddr s' = bf_nextAddr s"
proof -
  from assms(1) obtain xs where xs: "hist = xs @ bf_output s" "\<forall>item \<in> set xs. known item"
    "bf_clientProgress s = snd (render cp0 xs)" "app_events (bf_out s) = out0 @ fst (render cp0 xs)" by (rule bf_rel_split)
  have "\<forall>item \<in> set hist. item_ok item" using assms(1) by (simp add: bf_rel_def)
  then have ok: "\<forall>item \<in> set (xs @ map (resolve resp {addr}) (bf_output s)). item_ok item"
    using assms(2) xs(1) by (auto simp: resolve_def item_ok_def)
  have "map (resolve resp {addr}) xs = xs" using xs(2) by (simp add: map_idI)
  moreover have "set_event addr (EvOrderedBatch (resp addr)) (bf_output s) = map (resolve resp {addr}) (bf_output s)"
    by (rule set_event_resolve) (use assms(2) xs(1) in auto)
  ultimately show ?thesis
    using Flush_rel [of "s\<lparr>bf_output := map (resolve resp {addr}) (bf_output s)\<rparr>" "map (resolve resp {addr}) (bf_output s)" xs cp0 out0 mc]
      xs ok by (simp add: UponBfProvideTransactions_def)
qed

text \<open>A certificate without transactions yet: nothing is flushed, and nothing could be.\<close>

lemma deliver_rel:
  assumes "bf_rel cp0 out0 hist s" "\<forall>item \<in> set hist. oi_addr item < bf_nextAddr s"
  shows "\<exists>s'. UponBfDeliverCert mc sn cert isEmpty s = Inr s' \<and>
     bf_rel cp0 out0 (hist @ item_of (bf_nextAddr s) (BIDeliverCert sn cert isEmpty)) s' \<and> bf_nextAddr s' = Suc (bf_nextAddr s)"
proof -
  from assms(1) obtain xs where xs: "hist = xs @ bf_output s" "\<forall>item \<in> set xs. known item"
    "bf_clientProgress s = snd (render cp0 xs)" "app_events (bf_out s) = out0 @ fst (render cp0 xs)" by (rule bf_rel_split)
  have ok: "\<forall>item \<in> set hist. item_ok item" using assms(1) by (simp add: bf_rel_def)
  let ?item = "\<lambda>ev. \<lparr>oi_addr = bf_nextAddr s, oi_event = ev, oi_f = HookFilter\<rparr>"
  show ?thesis
  proof (cases isEmpty)
    case True
    have "oi_addr item \<noteq> bf_nextAddr s" if "item \<in> set (bf_output s)" for item
      using that assms(2) xs(1) by (metis Un_iff less_irrefl set_append)
    then have "set_event (bf_nextAddr s) (EvOrderedBatch []) (bf_output s) = bf_output s"
      by (simp add: set_event_def map_idI)
    then have eq: "UponBfDeliverCert mc sn cert isEmpty s = Flush mc (Enqueue (Some (EvOrderedBatch [])) HookFilter s)"
      using True by (cases s) (simp add: UponBfDeliverCert_def Enqueue_def Let_def set_event_def)
    have "item_ok (?item (Some (EvOrderedBatch [])))" by (simp add: item_ok_def)
    from enqueue_rel [OF assms(1) this, of mc] True show ?thesis unfolding eq by simp
  next
    case False
    have hist: "hist @ [?item None] = (xs @ bf_output s) @ [?item None]" by (simp add: xs(1))
    have "render cp0 (hist @ [?item None]) = render cp0 hist \<and> dropWhile known (hist @ [?item None]) = dropWhile known hist @ [?item None]"
    proof (cases "\<forall>item \<in> set hist. known item")
      case True
      then show ?thesis by (simp add: render_append [of hist] known_def)
    next
      case False
      then have "takeWhile known (hist @ [?item None]) = takeWhile known hist" by (auto simp: takeWhile_append)
      then have "render cp0 (hist @ [?item None]) = render cp0 hist" by (metis render_known)
      with False show ?thesis by (auto simp: dropWhile_append)
    qed
    with False assms(1) ok show ?thesis
      by (auto simp: UponBfDeliverCert_def Enqueue_def Let_def bf_rel_def item_ok_def)
  qed
qed

text \<open>
  The batch fetcher implements the specification: on admissible inputs it never fails, and its state and the
  events the application received are those of the items with the answers filled in.
\<close>

lemma item_of_addr: "item \<in> set (item_of n i) \<Longrightarrow> oi_addr item = n \<and> item_ok item"
  by (cases "(n, i)" rule: item_of.cases) (auto simp: item_ok_def)

lemma items_of_addr: "item \<in> set (items_of n is) \<Longrightarrow> n \<le> oi_addr item"
  by (induction n "is" rule: items_of.induct) (auto dest: item_of_addr)

lemma bf_step_rel:
  assumes "bf_rel cp0 out0 hist s" "\<forall>item \<in> set hist. oi_addr item < bf_nextAddr s"
    and "\<not> (\<exists>chkp. i = BIRestoreState chkp)" "\<not> (\<exists>txs addr. i = BIProvideTransactions txs addr)"
  shows "\<exists>s'. BfApplyEvent mc i s = Inr s' \<and> bf_rel cp0 out0 (hist @ item_of (bf_nextAddr s) i) s' \<and>
     bf_nextAddr s' = bf_nextAddr s + length (item_of (bf_nextAddr s) i)"
proof (cases i)
  case (BINewEpoch e m)
  have "bf_rel cp0 out0 hist (s\<lparr>bf_epochNr := e\<rparr>)" using assms(1) by (simp add: bf_rel_def)
  from enqueue_rel [OF this, of "Some (EvNewEpoch e m)" HookNewEpoch mc] BINewEpoch show ?thesis
    by (simp add: UponBfNewEpoch_def Let_def item_ok_def)
next
  case (BIDeliverCert sn cert isEmpty)
  with deliver_rel [OF assms(1,2), of mc sn cert isEmpty] show ?thesis by simp
next
  case (BISnapshotRequest r)
  with enqueue_rel [OF assms(1), of "Some (EvSnapshotRequest r)" HookSnapshot mc] show ?thesis
    by (simp add: UponBfSnapshotRequest_def item_ok_def)
next
  case (BIOther ev)
  with enqueue_rel [OF assms(1), of "Some (EvOther ev)" HookNone mc] show ?thesis
    by (simp add: UponBfOther_def item_ok_def)
qed (use assms in auto)

lemma bf_run_rel:
  assumes "bf_rel cp0 out0 hist s" "\<forall>item \<in> set hist. oi_addr item < bf_nextAddr s"
    and "bf_admissible resp (bf_nextAddr s) P is" "P \<subseteq> {..<bf_nextAddr s}"
    and "\<forall>item \<in> set hist. oi_addr item \<in> P \<longrightarrow>
      oi_f item = HookFilter \<and> (oi_event item = None \<or> oi_event item = Some (EvOrderedBatch (resp (oi_addr item))))"
  shows "\<exists>s'. bf_run mc is s = Inr s' \<and>
     bf_rel cp0 out0 (map (resolve resp (answered is)) (hist @ items_of (bf_nextAddr s) is)) s'"
  using assms
proof (induction "is" arbitrary: s hist P)
  case Nil
  have "map (resolve resp {}) hist = hist" by (rule map_idI) (simp add: resolve_def)
  with Nil show ?case by simp
next
  case (Cons i "is")
  show ?case
  proof (cases "\<exists>txs addr. i = BIProvideTransactions txs addr")
    case True
    with Cons(4) obtain addr where i: "i = BIProvideTransactions (resp addr) addr" "addr \<in> P"
        and adm: "bf_admissible resp (bf_nextAddr s) P is" by auto
    from provide_rel [OF Cons(2), of addr resp mc] Cons(6) i(2) obtain s1 where
        s1: "BfApplyEvent mc i s = Inr s1" "bf_rel cp0 out0 (map (resolve resp {addr}) hist) s1" "bf_nextAddr s1 = bf_nextAddr s"
      by (auto simp: i(1))
    have a: "\<forall>item \<in> set (map (resolve resp {addr}) hist). oi_addr item < bf_nextAddr s1" using Cons(3) s1(3) by simp
    have b: "\<forall>item \<in> set (map (resolve resp {addr}) hist). oi_addr item \<in> P \<longrightarrow>
        oi_f item = HookFilter \<and> (oi_event item = None \<or> oi_event item = Some (EvOrderedBatch (resp (oi_addr item))))"
      using Cons(6) by (auto simp: resolve_def)
    have "resolve resp (insert addr (answered is)) item = resolve resp (answered is) item"
      if "item \<in> set (items_of (bf_nextAddr s) is)" for item
      using items_of_addr [OF that] Cons(5) i(2) by (auto simp: resolve_def)
    with Cons.IH [OF s1(2) a _ _ b] adm Cons(5) s1 show ?thesis
      by (auto simp: i(1) resolve_insert cong: map_cong)
  next
    case False
    moreover have "\<not> (\<exists>chkp. i = BIRestoreState chkp)" using Cons(4) by auto
    ultimately obtain s1 where s1: "BfApplyEvent mc i s = Inr s1" "bf_rel cp0 out0 (hist @ item_of (bf_nextAddr s) i) s1"
        "bf_nextAddr s1 = bf_nextAddr s + length (item_of (bf_nextAddr s) i)" using bf_step_rel [OF Cons(2,3)] by blast
    define P' where "P' = (case i of BIDeliverCert sn cert isEmpty \<Rightarrow> if isEmpty then P else insert (bf_nextAddr s) P | _ \<Rightarrow> P)"
    have adm: "bf_admissible resp (bf_nextAddr s1) P' is" "answered (i # is) = answered is"
      using Cons(4) s1(3) False by (cases i; simp add: P'_def)+
    have len: "length (item_of (bf_nextAddr s) i) = 1 \<or> item_of (bf_nextAddr s) i = [] \<and> P' = P" by (cases i) (simp_all add: P'_def)
    have P': "P' \<subseteq> {..<bf_nextAddr s1}" using Cons(5) s1(3) by (cases i) (auto simp: P'_def)
    have a: "\<forall>item \<in> set (hist @ item_of (bf_nextAddr s) i). oi_addr item < bf_nextAddr s1"
      using Cons(3) s1(3) len by (auto dest: item_of_addr)
    have "oi_addr item \<in> P' \<longrightarrow> oi_f item = HookFilter \<and> (oi_event item = None \<or> oi_event item = Some (EvOrderedBatch (resp (oi_addr item))))"
      if "item \<in> set (item_of (bf_nextAddr s) i)" for item
      using that Cons(5) by (cases i) (auto simp: P'_def split: if_splits)
    moreover have "oi_addr item \<in> P' \<longrightarrow> oi_addr item \<in> P" if "item \<in> set hist" for item
      using that Cons(3) by (cases i) (auto simp: P'_def split: if_splits)
    ultimately have b: "\<forall>item \<in> set (hist @ item_of (bf_nextAddr s) i). oi_addr item \<in> P' \<longrightarrow>
        oi_f item = HookFilter \<and> (oi_event item = None \<or> oi_event item = Some (EvOrderedBatch (resp (oi_addr item))))"
      using Cons(6) by auto
    from Cons.IH [OF s1(2) a adm(1) P' b] s1 adm(2) show ?thesis by simp
  qed
qed

section \<open>Agreement\<close>

definition is_ordered :: "'e BfInput \<Rightarrow> bool" where
  "is_ordered i \<longleftrightarrow> item_of 0 i \<noteq> []"

lemma item_of_unordered: "\<not> is_ordered i \<Longrightarrow> item_of n i = []"
  by (cases i) (simp_all add: is_ordered_def)

lemma items_of_ordered: "items_of n (filter is_ordered is) = items_of n is"
  by (induction "is" arbitrary: n) (simp_all add: item_of_unordered)

lemma items_of_append: "items_of n (is @ is') = items_of n is @ items_of (n + length (items_of n is)) is'"
  by (induction "is" arbitrary: n) (simp_all add: add.assoc)

lemma items_of_prefix:
  assumes "prefix (filter is_ordered is1) (filter is_ordered is2)"
  shows "prefix (items_of n is1) (items_of n is2)"
proof -
  from assms obtain more where "filter is_ordered is2 = filter is_ordered is1 @ more" by (auto simp: prefix_def)
  then have "items_of n is2 = items_of n (filter is_ordered is1 @ more)" by (metis items_of_ordered)
  then show ?thesis by (simp add: items_of_append items_of_ordered)
qed

lemma render_resolve_prefix:
  "prefix (fst (render cp (map (resolve resp R) xs))) (fst (render cp (map (resolve resp UNIV) (xs @ ys))))"
proof (induction xs arbitrary: cp)
  case (Cons x xs)
  show ?case
  proof (cases "oi_event (resolve resp R x)")
    case (Some ev)
    then have "resolve resp R x = resolve resp UNIV x" by (auto simp: resolve_def split: if_splits)
    with Some Cons show ?thesis by (simp add: Let_def case_prod_unfold)
  qed simp
qed simp

lemma bf_run_from_empty:
  assumes "bf_output s = []" "bf_admissible resp (bf_nextAddr s) {} is"
  shows "\<exists>s'. bf_run mc is s = Inr s' \<and>
     bf_rel (bf_clientProgress s) (app_events (bf_out s)) (map (resolve resp (answered is)) (items_of (bf_nextAddr s) is)) s'"
  using bf_run_rel [of "bf_clientProgress s" "app_events (bf_out s)" "[]" s resp "{}" "is" mc] assms
  by (simp add: bf_rel_def)

section \<open>Exactly-once delivery\<close>

fun delivered_txs :: "'e BfEvent list \<Rightarrow> Transaction list" where
  "delivered_txs [] = []"
| "delivered_txs (EvOrderedBatch txs # evs) = txs @ delivered_txs evs"
| "delivered_txs (ev # evs) = delivered_txs evs"

definition tx_key :: "Transaction \<Rightarrow> ClientID \<times> TxNo" where
  "tx_key tx = (tx_ClientId tx, tx_TxNo tx)"

abbreviation done_before :: "ClientProgress \<Rightarrow> Transaction \<Rightarrow> bool" where
  "done_before cp tx \<equiv> ClientProgress_Contains cp (tx_ClientId tx) (tx_TxNo tx)"

text \<open>The last transaction number is not in use, so that no watermark wraps around.\<close>

definition no_last :: "ClientProgress \<Rightarrow> bool" where
  "no_last cp \<longleftrightarrow> (\<forall>c. \<not> ClientProgress_Contains cp c (- 1))"

lemma delivered_txs_append [simp]: "delivered_txs (evs @ evs') = delivered_txs evs @ delivered_txs evs'"
  by (induction evs rule: delivered_txs.induct) simp_all

lemma GarbageCollect_no_last:
  assumes "no_last cp"
  shows "ClientProgress_Contains (fst (ClientProgress_GarbageCollect cp)) c t = ClientProgress_Contains cp c t"
proof (rule ClientProgress_GarbageCollect_contains)
  fix c dt assume "map_of cp c = Some dt"
  with assms show "\<not> mhas (delivered dt) (- 1)"
    by (auto simp: no_last_def ClientProgress_Contains_def DeliveredTXs_Contains_def dest!: spec [of _ c])
qed

lemma keep_new_keys:
  "ClientProgress_Contains (snd (client_log.keep_new tx_ClientId tx_TxNo txs cp)) c t \<longleftrightarrow>
     ClientProgress_Contains cp c t \<or> (c, t) \<in> tx_key ` set (fst (client_log.keep_new tx_ClientId tx_TxNo txs cp))"
proof -
  let ?kept = "fst (client_log.keep_new tx_ClientId tx_TxNo txs cp)"
  have "(c, t) \<in> tx_key ` set ?kept \<longleftrightarrow> (\<exists>y \<in> set ?kept. tx_ClientId y = c \<and> tx_TxNo y = t)" by (auto simp: tx_key_def)
  moreover have "\<exists>y \<in> set ?kept. tx_ClientId y = c \<and> tx_TxNo y = t"
    if "x \<in> set txs" "tx_ClientId x = c" "tx_TxNo x = t" "\<not> ClientProgress_Contains cp c t" for x
    using client_log.keep_new_complete [of x txs cp tx_ClientId tx_TxNo] that by simp
  moreover have "x \<in> set txs" if "x \<in> set ?kept" for x using client_log.keep_new_fresh [OF that] by simp
  ultimately show ?thesis using client_log.keep_new_contains [of tx_ClientId tx_TxNo txs cp c t] by blast
qed

lemma render_hook_once:
  assumes "no_last cp" "\<forall>txs. ev = EvOrderedBatch txs \<longrightarrow> (\<forall>tx \<in> set txs. tx_TxNo tx \<noteq> - 1)"
    and "f = HookFilter \<longrightarrow> (\<exists>txs. ev = EvOrderedBatch txs)" "f \<noteq> HookFilter \<longrightarrow> delivered_txs [ev] = []"
  shows "distinct (map tx_key (delivered_txs [fst (render_hook f ev cp)]))" (is ?A)
    "\<forall>tx \<in> set (delivered_txs [fst (render_hook f ev cp)]). \<not> done_before cp tx" (is ?B)
    "ClientProgress_Contains (snd (render_hook f ev cp)) c t \<longleftrightarrow>
       ClientProgress_Contains cp c t \<or> (c, t) \<in> tx_key ` set (delivered_txs [fst (render_hook f ev cp)])" (is ?C)
    "no_last (snd (render_hook f ev cp))" (is ?D)
    "\<forall>tx \<in> set (delivered_txs [ev]). done_before (snd (render_hook f ev cp)) tx" (is ?E)
proof -
  have "?A \<and> ?B \<and> ?C \<and> ?D \<and> ?E"
  proof (cases f)
    case HookFilter
    with assms(3) obtain txs where ev: "ev = EvOrderedBatch txs" by auto
    have "tx_key = (\<lambda>x. (tx_ClientId x, tx_TxNo x))" by (simp add: tx_key_def fun_eq_iff)
    then have ?A using client_log.keep_new_once [of tx_ClientId tx_TxNo txs cp] HookFilter ev by simp
    moreover have ?B using client_log.keep_new_fresh [of _ tx_ClientId tx_TxNo txs cp] HookFilter ev by auto
    moreover have ?C using keep_new_keys HookFilter ev by simp
    moreover have ?D using assms(1,2) HookFilter ev client_log.keep_new_contains [of tx_ClientId tx_TxNo txs cp]
      by (auto simp: no_last_def)
    moreover have ?E using HookFilter ev client_log.keep_new_contains [of tx_ClientId tx_TxNo txs cp] by auto
    ultimately show ?thesis by blast
  qed (use assms GarbageCollect_no_last [OF assms(1)] in \<open>auto simp: no_last_def\<close>)
  then show ?A ?B ?C ?D ?E by blast+
qed

definition item_fine :: "'e outputItem \<Rightarrow> bool" where
  "item_fine item \<longleftrightarrow> (\<forall>ev. oi_event item = Some ev \<longrightarrow>
     (\<forall>txs. ev = EvOrderedBatch txs \<longrightarrow> (\<forall>tx \<in> set txs. tx_TxNo tx \<noteq> - 1)) \<and>
     (oi_f item = HookFilter \<longrightarrow> (\<exists>txs. ev = EvOrderedBatch txs)) \<and> (oi_f item \<noteq> HookFilter \<longrightarrow> delivered_txs [ev] = []))"

lemma delivered_txs_Cons: "delivered_txs (ev # evs) = delivered_txs [ev] @ delivered_txs evs"
  by (cases ev) simp_all

lemma render_once:
  assumes "no_last cp" "\<forall>item \<in> set items. item_fine item"
  shows "distinct (map tx_key (delivered_txs (fst (render cp items)))) \<and>
     (\<forall>tx \<in> set (delivered_txs (fst (render cp items))). \<not> done_before cp tx) \<and>
     (\<forall>c t. ClientProgress_Contains (snd (render cp items)) c t \<longleftrightarrow>
        ClientProgress_Contains cp c t \<or> (c, t) \<in> tx_key ` set (delivered_txs (fst (render cp items)))) \<and>
     (\<forall>item \<in> set (takeWhile known items). \<forall>tx \<in> set (delivered_txs [the (oi_event item)]). done_before (snd (render cp items)) tx)"
  using assms
proof (induction items arbitrary: cp)
  case (Cons item items)
  show ?case
  proof (cases "oi_event item")
    case (Some ev)
    let ?r = "render_hook (oi_f item) ev cp"
    from Cons(3) Some have "item_fine item" by simp
    then have fine: "\<forall>txs. ev = EvOrderedBatch txs \<longrightarrow> (\<forall>tx \<in> set txs. tx_TxNo tx \<noteq> - 1)"
      "oi_f item = HookFilter \<longrightarrow> (\<exists>txs. ev = EvOrderedBatch txs)" "oi_f item \<noteq> HookFilter \<longrightarrow> delivered_txs [ev] = []"
      using Some by (auto simp: item_fine_def)
    note h = render_hook_once [OF Cons(2) fine]
    have "\<forall>item \<in> set items. item_fine item" using Cons(3) by simp
    note c = Cons.IH [OF h(4) this]
    have IH:
      "distinct (map tx_key (delivered_txs (fst (render (snd ?r) items))))"
      "\<And>tx. tx \<in> set (delivered_txs (fst (render (snd ?r) items))) \<Longrightarrow> \<not> done_before (snd ?r) tx"
      "\<And>c t. ClientProgress_Contains (snd (render (snd ?r) items)) c t \<longleftrightarrow>
        ClientProgress_Contains (snd ?r) c t \<or> (c, t) \<in> tx_key ` set (delivered_txs (fst (render (snd ?r) items)))"
      "\<And>item tx. item \<in> set (takeWhile known items) \<Longrightarrow> tx \<in> set (delivered_txs [the (oi_event item)]) \<Longrightarrow>
         done_before (snd (render (snd ?r) items)) tx"
      using c by blast+
    have r: "render cp (item # items) = (fst ?r # fst (render (snd ?r) items), snd (render (snd ?r) items))"
      using Some by (simp add: Let_def case_prod_unfold)
    have txs: "delivered_txs (fst (render cp (item # items))) = delivered_txs [fst ?r] @ delivered_txs (fst (render (snd ?r) items))"
      unfolding r fst_conv by (rule delivered_txs_Cons)
    have "tx_key tx \<notin> tx_key ` set (delivered_txs [fst ?r])" if "tx \<in> set (delivered_txs (fst (render (snd ?r) items)))" for tx
      using IH(2) [OF that] h(3) by (simp add: tx_key_def)
    then have "tx_key ` set (delivered_txs [fst ?r]) \<inter> tx_key ` set (delivered_txs (fst (render (snd ?r) items))) = {}"
      by (rule disjoint_imageI)
    then have "distinct (map tx_key (delivered_txs (fst (render cp (item # items)))))"
      unfolding txs map_append distinct_append set_map by (intro conjI h(1) IH(1))
    moreover have "\<not> done_before cp tx" if "tx \<in> set (delivered_txs (fst (render cp (item # items))))" for tx
      using that h(2) IH(2) [of tx] h(3) [of "tx_ClientId tx" "tx_TxNo tx"] unfolding txs set_append by blast
    moreover have snd_r: "snd (render cp (item # items)) = snd (render (snd ?r) items)" unfolding r by simp
    then have "ClientProgress_Contains (snd (render cp (item # items))) c t \<longleftrightarrow>
        ClientProgress_Contains cp c t \<or> (c, t) \<in> tx_key ` set (delivered_txs (fst (render cp (item # items))))" for c t
      unfolding txs snd_r set_append image_Un using h(3) [of c t] IH(3) [of c t] by blast
    moreover have "done_before (snd (render cp (item # items))) tx"
      if it: "it \<in> set (takeWhile known (item # items))" "tx \<in> set (delivered_txs [the (oi_event it)])" for it tx
    proof (cases "it = item")
      case True
      with it(2) Some h(5) have "done_before (snd ?r) tx" by simp
      then show ?thesis unfolding snd_r using IH(3) by blast
    next
      case False
      with it(1) have "it \<in> set (takeWhile known items)" by (simp split: if_splits)
      with IH(4) it(2) show ?thesis unfolding snd_r by blast
    qed
    ultimately show ?thesis by blast
  qed (simp add: known_def)
qed simp

lemma items_of_fine:
  "item \<in> set (items_of n is) \<Longrightarrow> item_fine item \<and> (oi_event item = None \<longrightarrow> oi_f item = HookFilter)"
proof (induction n "is" rule: items_of.induct)
  case (2 n i "is")
  then show ?case by (cases i) (auto simp: item_fine_def split: if_splits)
qed simp

lemma resolve_fine:
  assumes "item \<in> set (items_of n is)" "\<forall>addr. \<forall>tx \<in> set (resp addr). tx_TxNo tx \<noteq> - 1"
  shows "item_fine (resolve resp R item)"
  using items_of_fine [OF assms(1)] assms(2) by (auto simp: resolve_def item_fine_def)

lemma answered_requested:
  assumes "addr \<in> answered is" "bf_admissible resp n P is"
  shows "addr \<in> P \<or> (\<exists>item \<in> set (items_of n is). oi_addr item = addr \<and> oi_event item = None)"
  using assms
proof (induction "is" arbitrary: n P)
  case (Cons i "is")
  show ?case
  proof (cases i)
    case (BIDeliverCert sn cert isEmpty)
    with Cons(2,3) Cons.IH [of "Suc n" "if isEmpty then P else insert n P"] show ?thesis by (auto split: if_splits)
  next
    case (BIProvideTransactions txs a)
    with Cons(2,3) Cons.IH [of n P] show ?thesis by auto
  next
    case (BINewEpoch e m)
    with Cons(2,3) Cons.IH [of "Suc n" P] show ?thesis by auto
  next
    case (BISnapshotRequest r)
    with Cons(2,3) Cons.IH [of "Suc n" P] show ?thesis by auto
  next
    case (BIOther e)
    with Cons(2,3) Cons.IH [of "Suc n" P] show ?thesis by auto
  qed (use Cons(2,3) Cons.IH [of n P] in auto)
qed simp

section \<open>An example\<close>

text \<open>
  Two batches that share a transaction; the answer for the second arrives first. The third certificate is
  the empty one of an aborted sequence number.
\<close>

definition ex_tx :: "TxNo \<Rightarrow> Transaction" where
  "ex_tx n = \<lparr>tx_ClientId = ''c'', tx_TxNo = n, tx_Type = 0, tx_Data = []\<rparr>"

definition ex_resp :: "nat \<Rightarrow> Transaction list" where
  "ex_resp addr = (if addr = 1 then [ex_tx 0, ex_tx 1] else [ex_tx 1, ex_tx 2])"

definition ex_bf_mc :: BfModuleConfig where
  "ex_bf_mc = \<lparr>bfc_Self = ''batchfetcher'', bfc_Availability = ''availability'', bfc_Checkpoint = ''checkpoint'',
     bfc_Destination = ''app'', bfc_Mempool = ''mempool''\<rparr>"

definition ex_bf_ordered :: "unit BfInput list" where
  "ex_bf_ordered = [BINewEpoch 0 ''iss'', BIDeliverCert 0 (CertMscs []) False, BIDeliverCert 1 (CertMscs []) False,
     BIDeliverCert 2 (CertMscs []) True, BISnapshotRequest ''checkpoint/1'']"

definition ex_bf_inputs :: "unit BfInput list" where
  "ex_bf_inputs = ex_bf_ordered @ [BIProvideTransactions (ex_resp 2) 2, BIProvideTransactions (ex_resp 1) 1]"

definition ex_bf_partial :: "unit BfInput list" where
  "ex_bf_partial = take 3 ex_bf_ordered @ [BIProvideTransactions (ex_resp 1) 1]"

lemma ex_resp_numbers: "tx \<in> set (ex_resp a) \<Longrightarrow> tx_TxNo tx \<noteq> - 1"
  by (auto simp: ex_resp_def ex_tx_def split: if_splits)

section \<open>Properties\<close>





text \<open>
  C34: The client progress for a checkpoint goes to the wrong checkpoint instance when the batch fetcher lags
  behind: the number of the epoch is read when the snapshot request leaves the queue, in spite of the
  comment at the handler, so that if the next epoch has started meanwhile, the progress is addressed to the
  instance of the later epoch and the requesting instance gets none.
\<close>

theorem late_snapshot_progress_misdirected:
  assumes "bf_output s = []" "sub_module (bfc_Checkpoint mc) e1 \<noteq> sub_module (bfc_Checkpoint mc) e2"
  shows "\<exists>s' new. bf_run mc [BIDeliverCert sn cert False, BINewEpoch e1 m, BISnapshotRequest r, BINewEpoch e2 m,
       BIProvideTransactions txs (bf_nextAddr s)] s = Inr s' \<and> bf_out s' = bf_out s @ new \<and>
     (\<exists>pb. (sub_module (bfc_Checkpoint mc) e2, EvClientProgress pb) \<in> set new) \<and>
     (\<forall>pb. (sub_module (bfc_Checkpoint mc) e1, EvClientProgress pb) \<notin> set new)"
  using assms
  by (simp add: UponBfDeliverCert_def UponBfNewEpoch_def UponBfSnapshotRequest_def UponBfProvideTransactions_def
      Flush_def Enqueue_def set_event_def Let_def case_prod_unfold)

theorem late_snapshot_progress_misdirected_witness:
  "\<exists>s' new. bf_run ex_bf_mc [BIDeliverCert 3 (CertMscs []) False, BINewEpoch 1 ''iss'', BISnapshotRequest ''checkpoint/1'',
       BINewEpoch 2 ''iss'', BIProvideTransactions [] 0] (BfNew 0 [] :: unit BfState) = Inr s' \<and> bf_out s' = new \<and>
     (\<exists>pb. (''checkpoint/2'', EvClientProgress pb) \<in> set new) \<and> (\<forall>pb. (''checkpoint/1'', EvClientProgress pb) \<notin> set new)"
proof -
  have "sub_module (bfc_Checkpoint ex_bf_mc) 1 = ''checkpoint/1''" "sub_module (bfc_Checkpoint ex_bf_mc) 2 = ''checkpoint/2''" by code_simp+
  with late_snapshot_progress_misdirected [of "BfNew 0 [] :: unit BfState" ex_bf_mc 1 2 3 "CertMscs []" "''iss''" "''checkpoint/1''" "[]"]
  show ?thesis by (simp add: BfNew_def)
qed

end
