(* ===== verification/IndexedList.thy ===== *)
theory IndexedList
  imports GoUtil
begin

text \<open>
  The doubly linked list with an index of \<open>pkg/util/indexedlist\<close>, which holds the transactions of the mempool.

  Elements and iterators are heap objects. The model allocates them in two lists, an address being a position,
  and nothing is ever freed; a pointer is an optional address. The loops that follow \<open>next\<close> pointers would not
  end on a cyclic list: they get as fuel the number of allocated elements, and running out of it is an error. The
  mutex is left out, as every operation holds it from beginning to end. A predicate that counts what it
  accepts carries a state.
\<close>

section \<open>Model\<close>

record ('k, 'v) element =
  el_prev :: "nat option"
  el_next :: "nat option"
  el_key :: 'k
  el_val :: 'v

record Iterator =
  it_lastOutput :: "nat option"
  it_stopped :: bool

record ('k, 'v) IndexedList =
  il_elems :: "('k, 'v) element list"
  il_index :: "('k, nat) gomap"
  il_first :: "nat option"
  il_last :: "nat option"
  il_iterObjs :: "Iterator list"
  il_iterators :: "(RetentionIndex, nat list) gomap"
  il_retIdx :: RetentionIndex

definition il_New :: "('k, 'v) IndexedList" where
  "il_New = \<lparr>il_elems = [], il_index = [], il_first = None, il_last = None, il_iterObjs = [], il_iterators = [], il_retIdx = 0\<rparr>"

definition il_Len :: "('k, 'v) IndexedList \<Rightarrow> nat" where
  "il_Len il = length (il_index il)"

fun LookUp_loop :: "('k, 'v) IndexedList \<Rightarrow> 'k list \<Rightarrow> 'k list \<Rightarrow> 'v list \<Rightarrow> 'k list \<Rightarrow> 'k list \<times> 'v list \<times> 'k list" where
  "LookUp_loop il [] foundKeys foundVals missingKeys = (foundKeys, foundVals, missingKeys)"
| "LookUp_loop il (key # keys) foundKeys foundVals missingKeys =
     (case map_of (il_index il) key of
        Some e \<Rightarrow> LookUp_loop il keys (foundKeys @ [key]) (foundVals @ [el_val (il_elems il ! e)]) missingKeys
      | None \<Rightarrow> LookUp_loop il keys foundKeys foundVals (missingKeys @ [key]))"

definition il_LookUp :: "('k, 'v) IndexedList \<Rightarrow> 'k list \<Rightarrow> 'k list \<times> 'v list \<times> 'k list" where
  "il_LookUp il keys = LookUp_loop il keys [] [] []"

definition set_next :: "nat \<Rightarrow> nat option \<Rightarrow> ('k, 'v) IndexedList \<Rightarrow> ('k, 'v) IndexedList" where
  "set_next a p il = il\<lparr>il_elems := (il_elems il)[a := (il_elems il ! a)\<lparr>el_next := p\<rparr>]\<rparr>"

definition set_prev :: "nat \<Rightarrow> nat option \<Rightarrow> ('k, 'v) IndexedList \<Rightarrow> ('k, 'v) IndexedList" where
  "set_prev a p il = il\<lparr>il_elems := (il_elems il)[a := (il_elems il ! a)\<lparr>el_prev := p\<rparr>]\<rparr>"

definition new_element :: "'k \<Rightarrow> 'v \<Rightarrow> ('k, 'v) IndexedList \<Rightarrow> ('k, 'v) IndexedList" where
  "new_element k v il = il\<lparr>il_elems := il_elems il @ [\<lparr>el_prev = None, el_next = None, el_key = k, el_val = v\<rparr>]\<rparr>"

definition appendElement :: "'k \<Rightarrow> 'v \<Rightarrow> ('k, 'v) IndexedList \<Rightarrow> (('k, 'v) IndexedList \<times> bool) res" where
  "appendElement k v il =
     (if mhas (il_index il) k then Inr (il, False)
      else let e = length (il_elems il);
               il = new_element k v il;
               il = il\<lparr>il_index := AList.update k e (il_index il)\<rparr>
           in rbind (if il_first il = None then Inr (il\<lparr>il_first := Some e\<rparr>)
                     else rbind (deref (il_last il)) (\<lambda>l. Inr (set_prev e (il_last il) (set_next l (Some e) il)))) (\<lambda>il.
              Inr (il\<lparr>il_last := Some e\<rparr>, True)))"

fun Append_loop ::
  "'k list \<Rightarrow> 'v list \<Rightarrow> 'k list \<Rightarrow> 'v list \<Rightarrow> ('k, 'v) IndexedList \<Rightarrow> (('k, 'v) IndexedList \<times> 'k list \<times> 'v list) res" where
  "Append_loop (k # keys) (v # vals) appendedKeys appendedVals il =
     rbind (appendElement k v il) (\<lambda>(il, added).
       if added then Append_loop keys vals (appendedKeys @ [k]) (appendedVals @ [v]) il
       else Append_loop keys vals appendedKeys appendedVals il)"
| "Append_loop keys vals appendedKeys appendedVals il = Inr (il, appendedKeys, appendedVals)"

definition il_Append :: "'k list \<Rightarrow> 'v list \<Rightarrow> ('k, 'v) IndexedList \<Rightarrow> (('k, 'v) IndexedList \<times> 'k list \<times> 'v list) res" where
  "il_Append keys vals il =
     (if length keys \<noteq> length vals then Inl (Panic ''key and value slices have different lengths'')
      else Append_loop keys vals [] [] il)"

definition prependElement :: "'k \<Rightarrow> 'v \<Rightarrow> ('k, 'v) IndexedList \<Rightarrow> ('k, 'v) IndexedList" where
  "prependElement k v il =
     (if mhas (il_index il) k then il
      else let e = length (il_elems il);
               il = new_element k v il;
               il = il\<lparr>il_index := AList.update k e (il_index il)\<rparr>;
               il = (case il_first il of
                       None \<Rightarrow> il\<lparr>il_last := Some e\<rparr>
                     | Some f \<Rightarrow> set_next e (Some f) (set_prev f (Some e) il))
           in il\<lparr>il_first := Some e\<rparr>)"

definition updateIterators :: "nat \<Rightarrow> ('k, 'v) IndexedList \<Rightarrow> ('k, 'v) IndexedList" where
  "updateIterators e il =
     il\<lparr>il_iterObjs := map (\<lambda>(i, it).
          if i \<in> set (concat (map snd (il_iterators il))) \<and> it_lastOutput it = Some e
          then it\<lparr>it_lastOutput := el_prev (il_elems il ! e)\<rparr> else it) (enumerate 0 (il_iterObjs il))\<rparr>"

definition removeElement :: "nat \<Rightarrow> ('k, 'v) IndexedList \<Rightarrow> ('k, 'v) IndexedList" where
  "removeElement e il =
     (let il = il\<lparr>il_index := AList.delete (el_key (il_elems il ! e)) (il_index il)\<rparr>;
          il = updateIterators e il;
          il = (case el_next (il_elems il ! e) of
                  Some n \<Rightarrow> set_prev n (el_prev (il_elems il ! e)) il
                | None \<Rightarrow> il\<lparr>il_last := el_prev (il_elems il ! e)\<rparr>)
      in case el_prev (il_elems il ! e) of
           Some p \<Rightarrow> set_next p (el_next (il_elems il ! e)) il
         | None \<Rightarrow> il\<lparr>il_first := el_next (il_elems il ! e)\<rparr>)"

fun Remove_loop :: "'k list \<Rightarrow> 'k list \<Rightarrow> 'v list \<Rightarrow> ('k, 'v) IndexedList \<Rightarrow> ('k, 'v) IndexedList \<times> 'k list \<times> 'v list" where
  "Remove_loop [] removedKeys removedVals il = (il, removedKeys, removedVals)"
| "Remove_loop (key # keys) removedKeys removedVals il =
     (case map_of (il_index il) key of
        Some e \<Rightarrow> (let el = il_elems il ! e
                  in Remove_loop keys (removedKeys @ [el_key el]) (removedVals @ [el_val el]) (removeElement e il))
      | None \<Rightarrow> Remove_loop keys removedKeys removedVals il)"

definition il_Remove :: "'k list \<Rightarrow> ('k, 'v) IndexedList \<Rightarrow> ('k, 'v) IndexedList \<times> 'k list \<times> 'v list" where
  "il_Remove keys il = Remove_loop keys [] [] il"

fun RemoveSelected_loop ::
  "nat \<Rightarrow> ('k \<Rightarrow> 'v \<Rightarrow> bool) \<Rightarrow> nat option \<Rightarrow> 'k list \<Rightarrow> 'v list \<Rightarrow> ('k, 'v) IndexedList \<Rightarrow>
     (('k, 'v) IndexedList \<times> 'k list \<times> 'v list) res" where
  "RemoveSelected_loop fuel pred None removedKeys removedVals il = Inr (il, removedKeys, removedVals)"
| "RemoveSelected_loop 0 pred (Some e) removedKeys removedVals il = Inl (Panic ''the loop does not end'')"
| "RemoveSelected_loop (Suc fuel) pred (Some e) removedKeys removedVals il =
     (let el = il_elems il ! e
      in if pred (el_key el) (el_val el)
         then RemoveSelected_loop fuel pred (el_next el) (removedKeys @ [el_key el]) (removedVals @ [el_val el]) (removeElement e il)
         else RemoveSelected_loop fuel pred (el_next el) removedKeys removedVals il)"

definition il_RemoveSelected ::
  "('k \<Rightarrow> 'v \<Rightarrow> bool) \<Rightarrow> ('k, 'v) IndexedList \<Rightarrow> (('k, 'v) IndexedList \<times> 'k list \<times> 'v list) res" where
  "il_RemoveSelected pred il = RemoveSelected_loop (length (il_elems il)) pred (il_first il) [] [] il"

text \<open>A new iterator: the list and the address of the iterator.\<close>

definition il_Iterator :: "RetentionIndex \<Rightarrow> ('k, 'v) IndexedList \<Rightarrow> ('k, 'v) IndexedList \<times> nat" where
  "il_Iterator retIdx il =
     (let i = length (il_iterObjs il)
      in if retIdx < il_retIdx il
         then (il\<lparr>il_iterObjs := il_iterObjs il @ [\<lparr>it_lastOutput = None, it_stopped = True\<rparr>]\<rparr>, i)
         else (il\<lparr>il_iterObjs := il_iterObjs il @ [\<lparr>it_lastOutput = None, it_stopped = False\<rparr>],
                  il_iterators := AList.update retIdx
                    ((case map_of (il_iterators il) retIdx of None \<Rightarrow> [] | Some is \<Rightarrow> is) @ [i]) (il_iterators il)\<rparr>, i))"

definition stop_iterators :: "nat list \<Rightarrow> Iterator list \<Rightarrow> Iterator list" where
  "stop_iterators is its = fold (\<lambda>i its. its[i := (its ! i)\<lparr>it_stopped := True\<rparr>]) is its"

function il_GarbageCollect :: "RetentionIndex \<Rightarrow> ('k, 'v) IndexedList \<Rightarrow> ('k, 'v) IndexedList" where
  "il_GarbageCollect retIdx il =
     (if il_retIdx il < retIdx
      then il_GarbageCollect retIdx
             (il\<lparr>il_iterObjs := stop_iterators
                   (case map_of (il_iterators il) (il_retIdx il) of None \<Rightarrow> [] | Some is \<Rightarrow> is) (il_iterObjs il),
                 il_iterators := AList.delete (il_retIdx il) (il_iterators il), il_retIdx := il_retIdx il + 1\<rparr>)
      else il)"
  by pat_completeness auto
termination
  by (relation "measure (\<lambda>(r, il). unat r - unat (il_retIdx il))")
    (auto simp: word_less_nat_alt word_less_succ)

declare il_GarbageCollect.simps [simp del]

definition next_of :: "nat \<Rightarrow> ('k, 'v) IndexedList \<Rightarrow> nat option" where
  "next_of i il =
     (case it_lastOutput (il_iterObjs il ! i) of None \<Rightarrow> il_first il | Some e \<Rightarrow> el_next (il_elems il ! e))"

definition set_lastOutput :: "nat \<Rightarrow> nat \<Rightarrow> ('k, 'v) IndexedList \<Rightarrow> ('k, 'v) IndexedList" where
  "set_lastOutput i e il = il\<lparr>il_iterObjs := (il_iterObjs il)[i := (il_iterObjs il ! i)\<lparr>it_lastOutput := Some e\<rparr>]\<rparr>"

text \<open>\<open>Next\<close>, where no result stands for the zero values and false.\<close>

definition it_Next :: "nat \<Rightarrow> ('k, 'v) IndexedList \<Rightarrow> ('k, 'v) IndexedList \<times> ('k \<times> 'v) option" where
  "it_Next i il =
     (if it_stopped (il_iterObjs il ! i) then (il, None)
      else case next_of i il of
             None \<Rightarrow> (il, None)
           | Some e \<Rightarrow> (set_lastOutput i e il, Some (el_key (il_elems il ! e), el_val (il_elems il ! e))))"

fun NextWhile_loop ::
  "nat \<Rightarrow> ('k \<Rightarrow> 'v \<Rightarrow> 's \<Rightarrow> bool \<times> 's) \<Rightarrow> nat \<Rightarrow> nat option \<Rightarrow> 'k list \<Rightarrow> 'v list \<Rightarrow> 's \<Rightarrow> ('k, 'v) IndexedList \<Rightarrow>
     (('k, 'v) IndexedList \<times> 's \<times> 'k list \<times> 'v list) res" where
  "NextWhile_loop fuel pred i None keys vals st il = Inr (il, st, keys, vals)"
| "NextWhile_loop 0 pred i (Some e) keys vals st il = Inl (Panic ''the loop does not end'')"
| "NextWhile_loop (Suc fuel) pred i (Some e) keys vals st il =
     (let el = il_elems il ! e; (ok, st) = pred (el_key el) (el_val el) st
      in if ok then NextWhile_loop fuel pred i (el_next el) (keys @ [el_key el]) (vals @ [el_val el]) st (set_lastOutput i e il)
         else Inr (il, st, keys, vals))"

definition it_NextWhile ::
  "('k \<Rightarrow> 'v \<Rightarrow> 's \<Rightarrow> bool \<times> 's) \<Rightarrow> nat \<Rightarrow> 's \<Rightarrow> ('k, 'v) IndexedList \<Rightarrow> (('k, 'v) IndexedList \<times> 's \<times> 'k list \<times> 'v list \<times> bool) res" where
  "it_NextWhile pred i st il =
     (if it_stopped (il_iterObjs il ! i) then Inr (il, st, [], [], False)
      else rbind (NextWhile_loop (length (il_elems il)) pred i (next_of i il) [] [] st il) (\<lambda>(il, st, keys, vals).
             Inr (il, st, keys, vals, True)))"

end
