(* ===== verification/IndexedListProperties.thy ===== *)
theory IndexedListProperties
  imports IndexedList
begin

text \<open>
  Correctness of the indexed list. A representation relation says that a heap represents a list of key-value
  pairs and, for every live iterator, the list of pairs it has not output yet; every operation acts on these
  lists as a function of the list library does, and no loop runs out of fuel. On top of it, an abstract
  list with iterators is the contract of the data structure and every sequence of operations refines it.
\<close>

section \<open>Linked segments of the heap\<close>

primrec hd_or :: "'a list \<Rightarrow> 'a option \<Rightarrow> 'a option" where
  "hd_or [] n = n"
| "hd_or (a # as) n = Some a"

primrec last_or :: "'a list \<Rightarrow> 'a option \<Rightarrow> 'a option" where
  "last_or [] p = p"
| "last_or (a # as) p = last_or as (Some a)"

primrec linked :: "('k, 'v) element list \<Rightarrow> nat option \<Rightarrow> nat list \<Rightarrow> nat option \<Rightarrow> bool" where
  "linked h p [] n \<longleftrightarrow> True"
| "linked h p (a # as) n \<longleftrightarrow>
     a < length h \<and> el_prev (h ! a) = p \<and> el_next (h ! a) = hd_or as n \<and> linked h (Some a) as n"

lemma last_or_append [simp]: "last_or (as @ bs) p = last_or bs (last_or as p)"
  by (induction as arbitrary: p) simp_all

lemma hd_or_append [simp]: "hd_or (as @ bs) n = hd_or as (hd_or bs n)"
  by (cases as) simp_all

lemma hd_or_Some [simp]: "hd_or as (Some x) \<noteq> None" "last_or as (Some x) \<noteq> None"
  by (cases as; simp) (induction as arbitrary: x; simp)

lemma linked_append [simp]:
  "linked h p (as @ bs) n \<longleftrightarrow> linked h p as (hd_or bs n) \<and> linked h (last_or as p) bs n"
  by (induction as arbitrary: p) auto

lemma linked_frame:
  assumes "linked h p as n" "length h \<le> length h'" "\<And>a. a \<in> set as \<Longrightarrow> h' ! a = h ! a"
  shows "linked h' p as n"
  using assms by (induction as arbitrary: p) auto

lemma linked_bound: "linked h p as n \<Longrightarrow> a \<in> set as \<Longrightarrow> a < length h"
  by (induction as arbitrary: p) auto

lemma linked_upd_frame:
  assumes "linked h p as n" "b \<notin> set as"
  shows "linked (h[b := e]) p as n"
proof (rule linked_frame [OF assms(1)])
  fix a assume "a \<in> set as"
  with assms(2) show "h[b := e] ! a = h ! a" by (metis nth_list_update_neq)
qed simp

lemma linked_set_next:
  assumes "linked h p (as @ [l]) n" "l \<notin> set as"
  shows "linked (h[l := (h ! l)\<lparr>el_next := n'\<rparr>]) p (as @ [l]) n'"
proof -
  have "linked (h[l := (h ! l)\<lparr>el_next := n'\<rparr>]) p as (Some l)"
    by (rule linked_upd_frame) (use assms in auto)
  with assms(1) show ?thesis by auto
qed

lemma linked_set_prev:
  assumes "linked h p (r # rs) n" "r \<notin> set rs"
  shows "linked (h[r := (h ! r)\<lparr>el_prev := p'\<rparr>]) p' (r # rs) n"
proof -
  have "linked (h[r := (h ! r)\<lparr>el_prev := p'\<rparr>]) (Some r) rs n"
    by (rule linked_upd_frame) (use assms in auto)
  with assms(1) show ?thesis by auto
qed

section \<open>The representation relation\<close>

definition pair_at :: "('k, 'v) IndexedList \<Rightarrow> nat \<Rightarrow> 'k \<times> 'v" where
  "pair_at il a = (el_key (il_elems il ! a), el_val (il_elems il ! a))"

definition il_rep :: "('k, 'v) IndexedList \<Rightarrow> nat list \<Rightarrow> bool" where
  "il_rep il as \<longleftrightarrow>
     linked (il_elems il) None as None \<and> distinct as \<and> il_first il = hd_or as None \<and> il_last il = last_or as None \<and>
     distinct (map (\<lambda>a. el_key (il_elems il ! a)) as) \<and> gomap_ok (il_index il) \<and>
     (\<forall>k a. map_of (il_index il) k = Some a \<longleftrightarrow> a \<in> set as \<and> el_key (il_elems il ! a) = k)"

definition registered :: "('k, 'v) IndexedList \<Rightarrow> nat \<Rightarrow> bool" where
  "registered il i \<longleftrightarrow> i \<in> set (concat (map snd (il_iterators il)))"

text \<open>An iterator is live while it is registered and not stopped.\<close>

definition live :: "('k, 'v) IndexedList \<Rightarrow> nat \<Rightarrow> bool" where
  "live il i \<longleftrightarrow> i < length (il_iterObjs il) \<and> registered il i \<and> \<not> it_stopped (il_iterObjs il ! i)"

definition after :: "nat \<Rightarrow> nat list \<Rightarrow> nat list" where
  "after a as = tl (dropWhile (\<lambda>b. b \<noteq> a) as)"

definition rest :: "('k, 'v) IndexedList \<Rightarrow> nat list \<Rightarrow> nat \<Rightarrow> nat list" where
  "rest il as i = (case it_lastOutput (il_iterObjs il ! i) of None \<Rightarrow> as | Some a \<Rightarrow> after a as)"

definition its_ok :: "('k, 'v) IndexedList \<Rightarrow> nat list \<Rightarrow> bool" where
  "its_ok il as \<longleftrightarrow>
     (\<forall>i. registered il i \<longrightarrow> i < length (il_iterObjs il) \<and>
        (\<forall>a. it_lastOutput (il_iterObjs il ! i) = Some a \<longrightarrow> a \<in> set as)) \<and>
     (\<forall>r is. map_of (il_iterators il) r = Some is \<longrightarrow> il_retIdx il \<le> r) \<and> gomap_ok (il_iterators il)"

definition il_refines :: "('k, 'v) IndexedList \<Rightarrow> ('k \<times> 'v) list \<Rightarrow> (nat \<Rightarrow> ('k \<times> 'v) list) \<Rightarrow> bool" where
  "il_refines il xs R \<longleftrightarrow>
     (\<exists>as. il_rep il as \<and> its_ok il as \<and> xs = map (pair_at il) as \<and> (\<forall>i. live il i \<longrightarrow> R i = map (pair_at il) (rest il as i)))"

lemma after_split: "a \<notin> set ls \<Longrightarrow> after a (ls @ a # rs) = rs"
  by (simp add: after_def dropWhile_append)

lemma after_append: "a \<in> set as \<Longrightarrow> after a (as @ bs) = after a as @ bs"
  by (induction as) (auto simp: after_def)

lemma after_subset: "set (after a as) \<subseteq> set as"
proof -
  have "set (tl (dropWhile P as)) \<subseteq> set as" for P by (induction as) (auto split: if_splits)
  then show ?thesis by (simp add: after_def)
qed

lemma index_keys: "il_rep il as \<Longrightarrow> mhas (il_index il) k \<longleftrightarrow> k \<in> fst ` set (map (pair_at il) as)"
  by (auto simp: il_rep_def pair_at_def image_iff)

lemma index_lookup:
  "il_rep il as \<Longrightarrow> map_of (map (pair_at il) as) k = map_option (\<lambda>a. el_val (il_elems il ! a)) (map_of (il_index il) k)"
proof -
  assume rep: "il_rep il as"
  show ?thesis
  proof (cases "map_of (il_index il) k")
    case None
    with index_keys [OF rep, of k] have "k \<notin> fst ` set (map (pair_at il) as)" by blast
    then have "map_of (map (pair_at il) as) k = None" by (simp only: map_of_eq_None_iff not_False_eq_True)
    with None show ?thesis by simp
  next
    case (Some a)
    with rep have "(k, el_val (il_elems il ! a)) \<in> set (map (pair_at il) as)" by (auto simp: il_rep_def pair_at_def)
    moreover have "distinct (map fst (map (pair_at il) as))" using rep by (simp add: il_rep_def pair_at_def comp_def)
    ultimately show ?thesis using Some by simp
  qed
qed

section \<open>Appending\<close>

lemma set_next_pair [simp]: "pair_at (set_next a p il) b = pair_at il b"
  by (cases "a < length (il_elems il)") (simp_all add: pair_at_def set_next_def nth_list_update list_update_beyond)

lemma set_prev_pair [simp]: "pair_at (set_prev a p il) b = pair_at il b"
  by (cases "a < length (il_elems il)") (simp_all add: pair_at_def set_prev_def nth_list_update list_update_beyond)

lemma pair_at_upd [simp]:
  "pair_at (il\<lparr>il_last := p\<rparr>) b = pair_at il b" "pair_at (il\<lparr>il_first := p\<rparr>) b = pair_at il b"
  "pair_at (il\<lparr>il_index := m\<rparr>) b = pair_at il b" "pair_at (il\<lparr>il_iterObjs := its\<rparr>) b = pair_at il b"
  "pair_at (il\<lparr>il_iterators := im\<rparr>) b = pair_at il b" "pair_at (il\<lparr>il_retIdx := r\<rparr>) b = pair_at il b"
  by (simp_all add: pair_at_def)

lemma set_ptr_simps [simp]:
  "il_index (set_next a p il) = il_index il" "il_index (set_prev a p il) = il_index il"
  "il_first (set_next a p il) = il_first il" "il_first (set_prev a p il) = il_first il"
  "il_last (set_next a p il) = il_last il" "il_last (set_prev a p il) = il_last il"
  "il_iterObjs (set_next a p il) = il_iterObjs il" "il_iterObjs (set_prev a p il) = il_iterObjs il"
  "il_iterators (set_next a p il) = il_iterators il" "il_iterators (set_prev a p il) = il_iterators il"
  "il_retIdx (set_next a p il) = il_retIdx il" "il_retIdx (set_prev a p il) = il_retIdx il"
  by (simp_all add: set_next_def set_prev_def)

lemma il_rep_pairs:
  "il_rep il as \<longleftrightarrow>
     linked (il_elems il) None as None \<and> distinct as \<and> il_first il = hd_or as None \<and> il_last il = last_or as None \<and>
     distinct (map fst (map (pair_at il) as)) \<and> gomap_ok (il_index il) \<and>
     (\<forall>k a. map_of (il_index il) k = Some a \<longleftrightarrow> a \<in> set as \<and> fst (pair_at il a) = k)"
  by (simp add: il_rep_def pair_at_def comp_def)

lemma appendElement_rep:
  assumes rep: "il_rep il as" and new: "\<not> mhas (il_index il) k"
  defines "e \<equiv> length (il_elems il)"
  shows "\<exists>il'. appendElement k v il = Inr (il', True) \<and> il_rep il' (as @ [e]) \<and>
     (\<forall>a \<in> set as. pair_at il' a = pair_at il a) \<and> pair_at il' e = (k, v) \<and>
     il_iterObjs il' = il_iterObjs il \<and> il_iterators il' = il_iterators il \<and> il_retIdx il' = il_retIdx il"
proof -
  let ?h = "il_elems il @ [\<lparr>el_prev = None, el_next = None, el_key = k, el_val = v\<rparr>]"
  let ?il = "il\<lparr>il_elems := ?h, il_index := AList.update k e (il_index il)\<rparr>"
  have bound: "a < e" if "a \<in> set as" for a using that rep linked_bound by (auto simp: il_rep_def e_def)
  then have fresh: "e \<notin> set as" by auto
  have pairs: "pair_at ?il a = pair_at il a" if "a \<in> set as" for a
    using bound [OF that] by (simp add: pair_at_def nth_append e_def)
  have pair_e: "pair_at ?il e = (k, v)" by (simp add: pair_at_def e_def)
  have linked: "linked ?h None as None"
    by (rule linked_frame [of "il_elems il"]) (use rep bound in \<open>auto simp: il_rep_def nth_append e_def\<close>)
  have "\<exists>il'. appendElement k v il = Inr (il', True) \<and> linked (il_elems il') None (as @ [e]) None \<and>
      il_first il' = hd_or (as @ [e]) None \<and> il_last il' = Some e \<and> (\<forall>b. pair_at il' b = pair_at ?il b) \<and>
      il_index il' = il_index ?il \<and> il_iterObjs il' = il_iterObjs il \<and> il_iterators il' = il_iterators il \<and> il_retIdx il' = il_retIdx il"
  proof (cases as rule: rev_cases)
    case Nil
    with rep new show ?thesis
      by (simp add: appendElement_def Let_def new_element_def il_rep_def e_def pair_at_def)
  next
    case (snoc bs l)
    let ?il' = "(set_prev e (Some l) (set_next l (Some e) ?il))\<lparr>il_last := Some e\<rparr>"
    have l: "l \<notin> set bs" "l < e" using snoc rep bound by (auto simp: il_rep_def)
    have "appendElement k v il = Inr (?il', True)"
      using rep new snoc by (simp add: appendElement_def Let_def new_element_def il_rep_def e_def deref_def)
    moreover have "linked (il_elems ?il') None (as @ [e]) None"
    proof -
      have "linked (?h[l := (?h ! l)\<lparr>el_next := Some e\<rparr>]) None as (Some e)"
        using linked_set_next [of ?h None bs l None "Some e"] linked l(1) snoc by simp
      from linked_upd_frame [OF this fresh] show ?thesis using l(2) snoc
        by (simp add: set_prev_def set_next_def e_def)
    qed
    moreover have "il_first ?il' = hd_or (as @ [e]) None" using rep snoc by (cases bs) (simp_all add: il_rep_def)
    moreover have "pair_at ?il' b = pair_at ?il b" for b by (simp only: pair_at_upd set_prev_pair set_next_pair)
    ultimately show ?thesis by (intro exI [of _ ?il']) simp
  qed
  then obtain il' where il': "appendElement k v il = Inr (il', True)" "linked (il_elems il') None (as @ [e]) None"
      "il_first il' = hd_or (as @ [e]) None" "il_last il' = Some e" "\<And>b. pair_at il' b = pair_at ?il b"
      "il_index il' = AList.update k e (il_index il)" "il_iterObjs il' = il_iterObjs il" "il_iterators il' = il_iterators il"
      "il_retIdx il' = il_retIdx il" by auto
  have "il_rep il' (as @ [e])"
  proof -
    have keys: "map fst (map (pair_at il') (as @ [e])) = map fst (map (pair_at il) as) @ [k]"
      using pairs pair_e il'(5) by simp
    have "k \<notin> set (map fst (map (pair_at il) as))" using new index_keys [OF rep, of k] by auto
    then have "distinct (map fst (map (pair_at il') (as @ [e])))" unfolding keys using rep by (simp add: il_rep_pairs)
    moreover have "map_of (il_index il') k' = Some a \<longleftrightarrow> a \<in> set (as @ [e]) \<and> fst (pair_at il' a) = k'" for k' a
      using rep new pairs pair_e fresh il'(5,6) index_keys [OF rep, of k]
      by (cases "a = e"; cases "k' = k") (auto simp: il_rep_pairs)
    ultimately show ?thesis using il' rep fresh by (simp add: il_rep_pairs)
  qed
  with il' pairs pair_e show ?thesis by auto
qed

lemma its_ok_same:
  assumes "its_ok il as" "il_iterObjs il' = il_iterObjs il" "il_iterators il' = il_iterators il" "il_retIdx il' = il_retIdx il" "set as \<subseteq> set as'"
  shows "its_ok il' as'"
  using assms by (auto simp: its_ok_def registered_def)

lemma rest_subset: "set (rest il as i) \<subseteq> set as"
  using after_subset by (fastforce simp: rest_def split: option.splits)

lemma appendElement_refines:
  assumes "il_refines il xs R"
  shows "\<exists>il'. appendElement k v il = Inr (il', k \<notin> fst ` set xs) \<and>
     (if k \<in> fst ` set xs then il' = il else il_refines il' (xs @ [(k, v)]) (\<lambda>i. R i @ [(k, v)]))"
proof -
  from assms obtain as where as: "il_rep il as" "its_ok il as" "xs = map (pair_at il) as"
      "\<And>i. live il i \<Longrightarrow> R i = map (pair_at il) (rest il as i)" by (auto simp: il_refines_def)
  show ?thesis
  proof (cases "k \<in> fst ` set xs")
    case True
    then show ?thesis using index_keys [OF as(1), of k] as(3) by (simp add: appendElement_def)
  next
    case False
    let ?e = "length (il_elems il)"
    from False index_keys [OF as(1), of k] as(3) have "\<not> mhas (il_index il) k" by blast
    from appendElement_rep [OF as(1) this, of v] obtain il' where
        il': "appendElement k v il = Inr (il', True)" "il_rep il' (as @ [?e])" "\<forall>a \<in> set as. pair_at il' a = pair_at il a"
          "pair_at il' ?e = (k, v)" "il_iterObjs il' = il_iterObjs il" "il_iterators il' = il_iterators il" "il_retIdx il' = il_retIdx il"
      by auto
    have "R i @ [(k, v)] = map (pair_at il') (rest il' (as @ [?e]) i)" if "live il' i" for i
    proof -
      have "live il i" using that il'(5,6) by (simp add: live_def registered_def)
      then have "rest il' (as @ [?e]) i = rest il as i @ [?e]"
        using as(2) il'(5) by (auto simp: rest_def live_def its_ok_def after_append split: option.splits)
      moreover have "map (pair_at il') (rest il as i) = map (pair_at il) (rest il as i)"
        using il'(3) rest_subset [of il as i] by auto
      ultimately show ?thesis using as(4) [OF \<open>live il i\<close>] il'(4) by simp
    qed
    moreover have "its_ok il' (as @ [?e])" by (rule its_ok_same [OF as(2) il'(5-7)]) auto
    moreover have "xs @ [(k, v)] = map (pair_at il') (as @ [?e])" using as(3) il'(3,4) by simp
    ultimately show ?thesis using False il'(1,2) by (auto simp: il_refines_def)
  qed
qed

text \<open>The pairs that are new, in the order given.\<close>

fun new_pairs :: "('k \<times> 'v) list \<Rightarrow> ('k \<times> 'v) list \<Rightarrow> ('k \<times> 'v) list" where
  "new_pairs xs [] = []"
| "new_pairs xs ((k, v) # kvs) = (if k \<in> fst ` set xs then new_pairs xs kvs else (k, v) # new_pairs (xs @ [(k, v)]) kvs)"

lemma Append_loop_refines:
  assumes "il_refines il xs R" "length keys = length vals"
  shows "\<exists>il'. Append_loop keys vals ks vs il =
      Inr (il', ks @ map fst (new_pairs xs (zip keys vals)), vs @ map snd (new_pairs xs (zip keys vals))) \<and>
     il_refines il' (xs @ new_pairs xs (zip keys vals)) (\<lambda>i. R i @ new_pairs xs (zip keys vals))"
  using assms(2,1)
proof (induction keys vals arbitrary: il xs R ks vs rule: list_induct2)
  case (Cons k keys v vals)
  from appendElement_refines [OF Cons(3), of k v] obtain il1 where
      il1: "appendElement k v il = Inr (il1, k \<notin> fst ` set xs)"
        "if k \<in> fst ` set xs then il1 = il else il_refines il1 (xs @ [(k, v)]) (\<lambda>i. R i @ [(k, v)])" by blast
  show ?case
  proof (cases "k \<in> fst ` set xs")
    case True
    with il1 Cons(2) [OF Cons(3)] show ?thesis by simp
  next
    case False
    with il1 Cons(2) [of il1 "xs @ [(k, v)]" "\<lambda>i. R i @ [(k, v)]" "ks @ [k]" "vs @ [v]"] show ?thesis by simp
  qed
qed simp

lemma Append_refines:
  assumes "il_refines il xs R" "length keys = length vals"
  shows "\<exists>il'. il_Append keys vals il = Inr (il', map fst (new_pairs xs (zip keys vals)), map snd (new_pairs xs (zip keys vals))) \<and>
     il_refines il' (xs @ new_pairs xs (zip keys vals)) (\<lambda>i. R i @ new_pairs xs (zip keys vals))"
  using Append_loop_refines [OF assms, of "[]" "[]"] assms(2) by (simp add: il_Append_def)

section \<open>Removing\<close>

lemma updateIterators_simps [simp]:
  "il_elems (updateIterators e il) = il_elems il" "il_index (updateIterators e il) = il_index il"
  "il_first (updateIterators e il) = il_first il" "il_last (updateIterators e il) = il_last il"
  "il_iterators (updateIterators e il) = il_iterators il" "il_retIdx (updateIterators e il) = il_retIdx il"
  "length (il_iterObjs (updateIterators e il)) = length (il_iterObjs il)"
  by (simp_all add: updateIterators_def)

lemma updateIterators_nth:
  "i < length (il_iterObjs il) \<Longrightarrow> il_iterObjs (updateIterators e il) ! i =
     (if registered il i \<and> it_lastOutput (il_iterObjs il ! i) = Some e
      then (il_iterObjs il ! i)\<lparr>it_lastOutput := el_prev (il_elems il ! e)\<rparr> else il_iterObjs il ! i)"
  by (simp add: updateIterators_def registered_def nth_enumerate_eq)

lemma removeElement_rep:
  assumes rep: "il_rep il (ls @ a # rs)"
  shows "il_rep (removeElement a il) (ls @ rs)" "pair_at (removeElement a il) = pair_at il"
    "el_next (il_elems il ! a) = hd_or rs None" "el_prev (il_elems il ! a) = last_or ls None"
    "il_iterObjs (removeElement a il) = il_iterObjs (updateIterators a il)"
    "il_iterators (removeElement a il) = il_iterators il" "il_retIdx (removeElement a il) = il_retIdx il"
    "length (il_elems (removeElement a il)) = length (il_elems il)"
proof -
  let ?h = "il_elems il" and ?nx = "hd_or rs None" and ?pv = "last_or ls None"
  from rep have lk: "linked ?h None ls (Some a)" "linked ?h (Some a) rs None" and a: "a < length ?h"
    and nx: "el_next (?h ! a) = ?nx" and pv: "el_prev (?h ! a) = ?pv"
    and dist: "a \<notin> set ls" "a \<notin> set rs" "set ls \<inter> set rs = {}" "distinct ls" "distinct rs"
    by (auto simp: il_rep_def)
  show "el_next (?h ! a) = ?nx" "el_prev (?h ! a) = ?pv" by (fact nx, fact pv)
  define il1 where "il1 = updateIterators a (il\<lparr>il_index := AList.delete (el_key (?h ! a)) (il_index il)\<rparr>)"
  define il2 where "il2 = (case ?nx of Some n \<Rightarrow> set_prev n ?pv il1 | None \<Rightarrow> il1\<lparr>il_last := ?pv\<rparr>)"
  have e1: "il_elems il1 = ?h" by (simp add: il1_def)
  have n_neq: "n \<noteq> a" if "?nx = Some n" for n using that dist(2) by (cases rs) auto
  have e2: "il_elems il2 ! a = ?h ! a" using n_neq by (auto simp: il2_def set_prev_def e1 split: option.splits)
  have il': "removeElement a il = (case ?pv of Some p \<Rightarrow> set_next p ?nx il2 | None \<Rightarrow> il2\<lparr>il_first := ?nx\<rparr>)"
    unfolding removeElement_def Let_def il1_def [symmetric] e1 nx pv il2_def [symmetric] e2 ..
  show pairs: "pair_at (removeElement a il) = pair_at il"
  proof
    fix b
    have "pair_at il1 b = pair_at il b" by (simp add: pair_at_def e1)
    then show "pair_at (removeElement a il) b = pair_at il b" by (auto simp: il' il2_def split: option.splits)
  qed
  show "il_iterObjs (removeElement a il) = il_iterObjs (updateIterators a il)"
    by (auto simp: il' il2_def il1_def updateIterators_def split: option.splits)
  show "il_iterators (removeElement a il) = il_iterators il" "il_retIdx (removeElement a il) = il_retIdx il"
    by (auto simp: il' il2_def il1_def split: option.splits)
  show "length (il_elems (removeElement a il)) = length (il_elems il)"
    by (auto simp: il' il2_def e1 set_prev_def set_next_def split: option.splits)
  have "linked (il_elems il2) ?pv rs None \<and> linked (il_elems il2) None ls (Some a)"
  proof (cases rs)
    case Nil
    with lk show ?thesis by (simp add: il2_def e1)
  next
    case (Cons r rs')
    have "linked (?h[r := (?h ! r)\<lparr>el_prev := ?pv\<rparr>]) ?pv (r # rs') None"
      by (rule linked_set_prev) (use lk dist Cons in auto)
    moreover have "linked (?h[r := (?h ! r)\<lparr>el_prev := ?pv\<rparr>]) None ls (Some a)"
      by (rule linked_upd_frame) (use lk dist Cons in auto)
    moreover have "il_elems il2 = ?h[r := (?h ! r)\<lparr>el_prev := ?pv\<rparr>]" using Cons by (simp add: il2_def e1 set_prev_def)
    ultimately show ?thesis by (simp only: Cons simp_thms)
  qed
  then have "linked (il_elems (removeElement a il)) None ls ?nx \<and> linked (il_elems (removeElement a il)) ?pv rs None"
  proof (cases ls rule: rev_cases)
    case Nil
    then show ?thesis using \<open>linked (il_elems il2) ?pv rs None \<and> _\<close> by (simp add: il')
  next
    case (snoc ls' l)
    have 1: "linked ((il_elems il2)[l := (il_elems il2 ! l)\<lparr>el_next := ?nx\<rparr>]) None (ls' @ [l]) ?nx"
      by (rule linked_set_next [where n = "Some a"]) (use \<open>linked (il_elems il2) ?pv rs None \<and> _\<close> snoc dist in auto)
    have 2: "linked ((il_elems il2)[l := (il_elems il2 ! l)\<lparr>el_next := ?nx\<rparr>]) ?pv rs None"
      by (rule linked_upd_frame) (use \<open>linked (il_elems il2) ?pv rs None \<and> _\<close> snoc dist in auto)
    have "il_elems (removeElement a il) = (il_elems il2)[l := (il_elems il2 ! l)\<lparr>el_next := ?nx\<rparr>]"
      using snoc by (simp add: il' set_next_def)
    with 1 2 show ?thesis by (simp only: snoc simp_thms)
  qed
  moreover have "il_first (removeElement a il) = hd_or (ls @ rs) None"
    using rep by (cases ls rule: rev_cases; cases ls) (auto simp: il' il2_def il1_def il_rep_def split: option.splits)
  moreover have "il_last (removeElement a il) = last_or (ls @ rs) None"
    using rep by (cases rs) (auto simp: il' il2_def il1_def il_rep_def split: option.splits)
  moreover have idx: "il_index (removeElement a il) = AList.delete (fst (pair_at il a)) (il_index il)"
    by (auto simp: il' il2_def il1_def pair_at_def split: option.splits)
  moreover have "map_of (il_index (removeElement a il)) k = Some b \<longleftrightarrow> b \<in> set (ls @ rs) \<and> fst (pair_at il b) = k" for k b
  proof -
    have dk: "distinct (map fst (map (pair_at il) (ls @ a # rs)))" using rep by (simp add: il_rep_pairs)
    have "fst (pair_at il b) \<noteq> fst (pair_at il a)" if "b \<in> set (ls @ rs)" for b
      using dk that by (simp add: image_iff) metis
    moreover have "map_of (il_index il) k = Some b \<longleftrightarrow> b \<in> set (ls @ a # rs) \<and> fst (pair_at il b) = k"
      using rep by (simp add: il_rep_pairs)
    ultimately show ?thesis unfolding idx using dist by auto
  qed
  ultimately show "il_rep (removeElement a il) (ls @ rs)" using rep by (simp add: il_rep_pairs pairs)
qed

text \<open>What is left to output after a removal: the same without the removed element.\<close>

lemma rest_remove:
  assumes "distinct (ls @ a # rs)" "registered il i" "i < length (il_iterObjs il)"
    and "el_prev (il_elems il ! a) = last_or ls None" "\<forall>b. it_lastOutput (il_iterObjs il ! i) = Some b \<longrightarrow> b \<in> set (ls @ a # rs)"
  shows "rest (updateIterators a il) (ls @ rs) i = filter (\<lambda>b. b \<noteq> a) (rest il (ls @ a # rs) i)"
    "\<forall>b. it_lastOutput (il_iterObjs (updateIterators a il) ! i) = Some b \<longrightarrow> b \<in> set (ls @ rs)"
proof -
  have noa: "filter (\<lambda>b. b \<noteq> a) ls = ls" "filter (\<lambda>b. b \<noteq> a) rs = rs" using assms(1) by (auto simp: filter_id_conv)
  have last: "last_or ls None = (if ls = [] then None else Some (last ls))" by (cases ls rule: rev_cases) auto
  show "rest (updateIterators a il) (ls @ rs) i = filter (\<lambda>b. b \<noteq> a) (rest il (ls @ a # rs) i)"
  proof (cases "it_lastOutput (il_iterObjs il ! i)")
    case None
    with assms(3) noa show ?thesis by (simp add: rest_def updateIterators_nth)
  next
    case (Some b)
    show ?thesis
    proof (cases "b = a")
      case True
      have "after a (ls @ a # rs) = rs" using assms(1) by (simp add: after_split)
      moreover have "(case last_or ls None of None \<Rightarrow> ls @ rs | Some c \<Rightarrow> after c (ls @ rs)) = rs"
      proof (cases ls rule: rev_cases)
        case (snoc ls' c)
        have "after c (ls' @ c # rs) = rs" by (rule after_split) (use assms(1) snoc in auto)
        with snoc show ?thesis by simp
      qed simp
      ultimately show ?thesis using True Some assms(2-4) noa by (simp add: rest_def updateIterators_nth)
    next
      case False
      have "after b (ls @ rs) = filter (\<lambda>b. b \<noteq> a) (after b (ls @ a # rs))"
      proof (cases "b \<in> set ls")
        case True
        have "filter (\<lambda>b. b \<noteq> a) (after b ls) = after b ls"
          using after_subset [of b ls] assms(1) by (auto simp: filter_id_conv)
        then show ?thesis using True noa by (simp add: after_append)
      next
        case False
        with Some assms(5) \<open>b \<noteq> a\<close> have "b \<in> set rs" by auto
        then obtain rs1 rs2 where rs: "rs = rs1 @ b # rs2" "b \<notin> set rs1" by (meson split_list_first)
        have "after b ((ls @ rs1) @ b # rs2) = rs2" "after b ((ls @ a # rs1) @ b # rs2) = rs2"
          by (rule after_split; use False rs \<open>b \<noteq> a\<close> in simp)+
        moreover have "filter (\<lambda>b. b \<noteq> a) rs2 = rs2" using rs assms(1) by (auto simp: filter_id_conv)
        ultimately show ?thesis using rs by simp
      qed
      then show ?thesis using False Some assms(3) by (simp add: rest_def updateIterators_nth)
    qed
  qed
  show "\<forall>b. it_lastOutput (il_iterObjs (updateIterators a il) ! i) = Some b \<longrightarrow> b \<in> set (ls @ rs)"
    using assms(2-5) last by (auto simp: updateIterators_nth split: if_splits)
qed

text \<open>\<open>il_refines\<close> with the addresses made explicit.\<close>

definition il_addrs :: "('k, 'v) IndexedList \<Rightarrow> nat list \<Rightarrow> (nat \<Rightarrow> ('k \<times> 'v) list) \<Rightarrow> bool" where
  "il_addrs il as R \<longleftrightarrow> il_rep il as \<and> its_ok il as \<and> (\<forall>i. live il i \<longrightarrow> R i = map (pair_at il) (rest il as i))"

lemma il_refines_addrs: "il_refines il xs R \<longleftrightarrow> (\<exists>as. il_addrs il as R \<and> xs = map (pair_at il) as)"
  by (auto simp: il_refines_def il_addrs_def)

lemma live_removeElement:
  assumes "il_rep il (ls @ a # rs)"
  shows "live (removeElement a il) i \<longleftrightarrow> live il i"
  using removeElement_rep(5,6) [OF assms] by (auto simp: live_def registered_def updateIterators_nth split: if_splits)

lemma removeElement_refines:
  assumes "il_addrs il (ls @ a # rs) R"
  defines "k \<equiv> fst (pair_at il a)"
  shows "il_addrs (removeElement a il) (ls @ rs) (\<lambda>i. filter (\<lambda>p. fst p \<noteq> k) (R i))"
    "map (pair_at (removeElement a il)) (ls @ rs) = filter (\<lambda>p. fst p \<noteq> k) (map (pair_at il) (ls @ a # rs))"
proof -
  let ?as = "ls @ a # rs" and ?il' = "removeElement a il"
  from assms(1) have rep: "il_rep il ?as" and its: "its_ok il ?as"
      and R: "\<And>i. live il i \<Longrightarrow> R i = map (pair_at il) (rest il ?as i)" by (auto simp: il_addrs_def)
  note rem = removeElement_rep [OF rep]
  have dist: "distinct ?as" "distinct (map fst (map (pair_at il) ?as))" using rep by (simp_all add: il_rep_pairs)
  have key: "fst (pair_at il b) \<noteq> k \<longleftrightarrow> b \<noteq> a" if "b \<in> set ?as" for b
    using that dist(2) unfolding k_def by (simp add: image_iff) metis
  have filt: "filter (\<lambda>p. fst p \<noteq> k) (map (pair_at il) bs) = map (pair_at il) (filter (\<lambda>b. b \<noteq> a) bs)" if "set bs \<subseteq> set ?as" for bs
    using that key by (induction bs) auto
  have "filter (\<lambda>b. b \<noteq> a) ls = ls" "filter (\<lambda>b. b \<noteq> a) rs = rs" using dist(1) by (auto simp: filter_id_conv)
  then have "filter (\<lambda>b. b \<noteq> a) ?as = ls @ rs" by simp
  then show "map (pair_at ?il') (ls @ rs) = filter (\<lambda>p. fst p \<noteq> k) (map (pair_at il) ?as)"
    using filt [of ?as] rem(2) by simp
  have its': "its_ok ?il' (ls @ rs)"
    using its rest_remove(2) [OF dist(1) _ _ rem(4)] rem(5-7) by (auto simp: its_ok_def registered_def)
  have "filter (\<lambda>p. fst p \<noteq> k) (R i) = map (pair_at ?il') (rest ?il' (ls @ rs) i)" if "live ?il' i" for i
  proof -
    have l: "live il i" using that live_removeElement [OF rep] by simp
    have "rest ?il' (ls @ rs) i = rest (updateIterators a il) (ls @ rs) i" by (simp add: rest_def rem(5))
    also have "\<dots> = filter (\<lambda>b. b \<noteq> a) (rest il ?as i)"
      by (rule rest_remove(1) [OF dist(1) _ _ rem(4)]) (use l its in \<open>auto simp: live_def its_ok_def\<close>)
    finally show ?thesis using R [OF l] filt [OF rest_subset] rem(2) by simp
  qed
  with rem(1) its' show "il_addrs ?il' (ls @ rs) (\<lambda>i. filter (\<lambda>p. fst p \<noteq> k) (R i))" by (simp add: il_addrs_def)
qed

fun removed_pairs :: "('k \<times> 'v) list \<Rightarrow> 'k list \<Rightarrow> ('k \<times> 'v) list" where
  "removed_pairs xs [] = []"
| "removed_pairs xs (k # ks) =
     (case map_of xs k of
        None \<Rightarrow> removed_pairs xs ks
      | Some v \<Rightarrow> (k, v) # removed_pairs (filter (\<lambda>p. fst p \<noteq> k) xs) ks)"

lemma il_addrs_cong:
  assumes "il_addrs il as R" "\<And>i. live il i \<Longrightarrow> R' i = R i"
  shows "il_addrs il as R'"
  using assms by (simp add: il_addrs_def)

lemma il_addrs_rest: "il_addrs il as R \<Longrightarrow> live il i \<Longrightarrow> set (R i) \<subseteq> set (map (pair_at il) as)"
  using rest_subset by (fastforce simp: il_addrs_def)

lemma filter_absent: "k \<notin> fst ` set ps \<Longrightarrow> filter (\<lambda>p. fst p \<noteq> k) ps = ps"
  by (induction ps) auto

lemma il_refines_absent:
  assumes "il_refines il xs R" "k \<notin> fst ` set xs"
  shows "il_refines il (filter (\<lambda>p. fst p \<noteq> k) xs) (\<lambda>i. filter (\<lambda>p. fst p \<noteq> k) (R i))"
proof -
  from assms(1) obtain as where as: "il_addrs il as R" "xs = map (pair_at il) as" by (auto simp: il_refines_addrs)
  have "filter (\<lambda>p. fst p \<noteq> k) (R i) = R i" if "live il i" for i
    by (rule filter_absent) (use il_addrs_rest [OF as(1) that] as(2) assms(2) in auto)
  then have "il_addrs il as (\<lambda>i. filter (\<lambda>p. fst p \<noteq> k) (R i))" by (rule il_addrs_cong [OF as(1)])
  with as(2) filter_absent [OF assms(2)] show ?thesis by (auto simp: il_refines_addrs)
qed

lemma Remove_loop_refines:
  assumes "il_refines il xs R"
  shows "\<exists>il'. Remove_loop keys ks vs il = (il', ks @ map fst (removed_pairs xs keys), vs @ map snd (removed_pairs xs keys)) \<and>
     il_refines il' (filter (\<lambda>p. fst p \<notin> set keys) xs) (\<lambda>i. filter (\<lambda>p. fst p \<notin> set keys) (R i))"
  using assms
proof (induction keys arbitrary: il xs R ks vs)
  case (Cons k keys)
  from Cons(2) obtain as where as: "il_addrs il as R" "xs = map (pair_at il) as" by (auto simp: il_refines_addrs)
  then have rep: "il_rep il as" by (simp add: il_addrs_def)
  let ?f = "\<lambda>ps. filter (\<lambda>p. fst p \<noteq> k) ps"
  have split: "filter (\<lambda>p. fst p \<notin> set (k # keys)) ps = filter (\<lambda>p. fst p \<notin> set keys) (?f ps)" for ps :: "('a \<times> 'b) list"
    by (induction ps) auto
  show ?case
  proof (cases "map_of (il_index il) k")
    case None
    with index_lookup [OF rep, of k] as(2) have no: "map_of xs k = None" by simp
    then have k: "k \<notin> fst ` set xs" by (simp only: map_of_eq_None_iff not_False_eq_True)
    from Cons.IH [OF il_refines_absent [OF Cons(2) k], of ks vs] None no show ?thesis
      unfolding split by (simp add: filter_absent [OF k])
  next
    case (Some a)
    with rep have a: "a \<in> set as" "fst (pair_at il a) = k" by (auto simp: il_rep_pairs)
    then obtain ls rs where lr: "as = ls @ a # rs" by (meson split_list)
    from removeElement_refines [of il ls a rs R] as(1) a(2) as(2) lr
    have "il_refines (removeElement a il) (?f xs) (\<lambda>i. ?f (R i))" by (auto simp: il_refines_addrs)
    from Cons.IH [OF this, of "ks @ [k]" "vs @ [el_val (il_elems il ! a)]"]
    show ?thesis using Some a(2) index_lookup [OF rep, of k] as(2) unfolding split
      by (simp add: Let_def pair_at_def)
  qed
qed simp

lemma Remove_refines:
  assumes "il_refines il xs R"
  shows "\<exists>il'. il_Remove keys il = (il', map fst (removed_pairs xs keys), map snd (removed_pairs xs keys)) \<and>
     il_refines il' (filter (\<lambda>p. fst p \<notin> set keys) xs) (\<lambda>i. filter (\<lambda>p. fst p \<notin> set keys) (R i))"
  using Remove_loop_refines [OF assms, of keys "[]" "[]"] by (simp add: il_Remove_def)

lemma RemoveSelected_loop_refines:
  assumes "il_addrs il (ls @ rs) R" "\<forall>a \<in> set ls. \<not> pred (fst (pair_at il a)) (snd (pair_at il a))" "length rs \<le> fuel"
  defines "sel \<equiv> filter (\<lambda>p. pred (fst p) (snd p)) (map (pair_at il) rs)"
  shows "\<exists>il' as'. RemoveSelected_loop fuel pred (hd_or rs None) ks vs il = Inr (il', ks @ map fst sel, vs @ map snd sel) \<and>
     il_addrs il' as' (\<lambda>i. filter (\<lambda>p. fst p \<notin> fst ` set sel) (R i)) \<and>
     map (pair_at il') as' = filter (\<lambda>p. \<not> pred (fst p) (snd p)) (map (pair_at il) (ls @ rs))"
  using assms(1,2,3) unfolding sel_def
proof (induction rs arbitrary: il ls R fuel ks vs)
  case Nil
  then show ?case by (cases fuel) (auto simp: filter_id_conv)
next
  case (Cons a rs)
  then obtain fuel' where fuel: "fuel = Suc fuel'" "length rs \<le> fuel'" by (cases fuel) auto
  have rep: "il_rep il (ls @ a # rs)" using Cons(2) by (simp add: il_addrs_def)
  note rem = removeElement_rep [OF rep]
  let ?p = "pair_at il a"
  have el: "el_key (il_elems il ! a) = fst ?p" "el_val (il_elems il ! a) = snd ?p" by (simp_all add: pair_at_def)
  show ?case
  proof (cases "pred (fst ?p) (snd ?p)")
    case True
    let ?il = "removeElement a il"
    have "\<forall>b \<in> set ls. \<not> pred (fst (pair_at ?il b)) (snd (pair_at ?il b))" using Cons(3) rem(2) by simp
    from Cons.IH [OF removeElement_refines(1) [OF Cons(2)] this fuel(2), of "ks @ [fst ?p]" "vs @ [snd ?p]"] obtain il' as' where
        il': "RemoveSelected_loop fuel' pred (hd_or rs None) (ks @ [fst ?p]) (vs @ [snd ?p]) ?il =
          Inr (il', (ks @ [fst ?p]) @ map fst (filter (\<lambda>p. pred (fst p) (snd p)) (map (pair_at ?il) rs)),
                    (vs @ [snd ?p]) @ map snd (filter (\<lambda>p. pred (fst p) (snd p)) (map (pair_at ?il) rs)))"
        "il_addrs il' as' (\<lambda>i. filter (\<lambda>p. fst p \<notin> fst ` set (filter (\<lambda>p. pred (fst p) (snd p)) (map (pair_at ?il) rs)))
           (filter (\<lambda>p. fst p \<noteq> fst ?p) (R i)))"
        "map (pair_at il') as' = filter (\<lambda>p. \<not> pred (fst p) (snd p)) (map (pair_at ?il) (ls @ rs))" by blast
    have "filter (\<lambda>p. fst p \<notin> fst ` set (?p # xs)) ps = filter (\<lambda>p. fst p \<notin> fst ` set xs) (filter (\<lambda>p. fst p \<noteq> fst ?p) ps)" for xs ps
      by (induction ps) auto
    with il' True fuel(1) rem(2,3) el show ?thesis by (intro exI [of _ il'] exI [of _ as']) (simp add: Let_def)
  next
    case False
    have "il_addrs il ((ls @ [a]) @ rs) R" using Cons(2) by simp
    moreover have "\<forall>b \<in> set (ls @ [a]). \<not> pred (fst (pair_at il b)) (snd (pair_at il b))" using Cons(3) False by simp
    ultimately show ?thesis using Cons.IH [OF _ _ fuel(2), of il "ls @ [a]" R ks vs] False fuel(1) rem(3) el by (simp add: Let_def)
  qed
qed

text \<open>The list of addresses is never longer than the heap, so that the fuel is enough.\<close>

lemma addrs_length:
  assumes "il_rep il as"
  shows "length as \<le> length (il_elems il)"
proof -
  have "set as \<subseteq> {..<length (il_elems il)}" using assms linked_bound by (auto simp: il_rep_def)
  then have "card (set as) \<le> length (il_elems il)" using card_mono [of "{..<length (il_elems il)}"] by simp
  with assms show ?thesis by (simp add: il_rep_def distinct_card)
qed

lemma RemoveSelected_refines:
  fixes pred :: "'k \<Rightarrow> 'v \<Rightarrow> bool"
  assumes "il_refines il xs R"
  defines "sel \<equiv> filter (\<lambda>p. pred (fst p) (snd p)) xs"
  shows "\<exists>il'. il_RemoveSelected pred il = Inr (il', map fst sel, map snd sel) \<and>
     il_refines il' (filter (\<lambda>p. \<not> pred (fst p) (snd p)) xs) (\<lambda>i. filter (\<lambda>p. fst p \<notin> fst ` set sel) (R i))"
proof -
  from assms(1) obtain as where as: "il_addrs il as R" "xs = map (pair_at il) as" by (auto simp: il_refines_addrs)
  then have "il_first il = hd_or as None" "length as \<le> length (il_elems il)"
    using addrs_length by (auto simp: il_addrs_def il_rep_def)
  with RemoveSelected_loop_refines [of il "[]" as R pred "length (il_elems il)" "[]" "[]"] as obtain il' as' where
      res: "il_RemoveSelected pred il = Inr (il', map fst sel, map snd sel)"
      "il_addrs il' as' (\<lambda>i. filter (\<lambda>p. fst p \<notin> fst ` set sel) (R i))"
      "map (pair_at il') as' = filter (\<lambda>p. \<not> pred (fst p) (snd p)) xs"
    by (auto simp: il_RemoveSelected_def sel_def)
  from res(2) res(3) [symmetric]
  have "il_refines il' (filter (\<lambda>p. \<not> pred (fst p) (snd p)) xs) (\<lambda>i. filter (\<lambda>p. fst p \<notin> fst ` set sel) (R i))"
    unfolding il_refines_addrs by blast
  with res(1) show ?thesis by blast
qed

section \<open>Looking up\<close>

lemma LookUp_loop_eq:
  assumes "il_rep il as"
  defines "xs \<equiv> map (pair_at il) as"
  shows "LookUp_loop il keys fk fv mk =
    (fk @ filter (mhas xs) keys, fv @ map (\<lambda>k. the (map_of xs k)) (filter (mhas xs) keys), mk @ filter (\<lambda>k. \<not> mhas xs k) keys)"
proof (induction keys arbitrary: fk fv mk)
  case (Cons k keys)
  then show ?case using index_lookup [OF assms(1), of k]
    by (cases "map_of (il_index il) k") (simp_all add: xs_def)
qed simp

lemma LookUp_refines:
  assumes "il_refines il xs R"
  shows "il_LookUp il keys =
    (filter (mhas xs) keys, map (\<lambda>k. the (map_of xs k)) (filter (mhas xs) keys), filter (\<lambda>k. \<not> mhas xs k) keys)"
proof -
  from assms obtain as where "il_rep il as" "xs = map (pair_at il) as" by (auto simp: il_refines_def)
  then show ?thesis using LookUp_loop_eq [of il as keys "[]" "[]" "[]"] by (simp add: il_LookUp_def)
qed

lemma Len_refines:
  assumes "il_refines il xs R"
  shows "il_Len il = length xs"
proof -
  from assms obtain as where as: "il_rep il as" "xs = map (pair_at il) as" by (auto simp: il_refines_def)
  have "k \<in> fst ` set (il_index il) \<longleftrightarrow> k \<in> fst ` set xs" for k
    using index_keys [OF as(1), of k] mhas_iff [of "il_index il" k] unfolding as(2) by blast
  then have "fst ` set (il_index il) = fst ` set xs" by blast
  moreover have "distinct (map fst xs)" "gomap_ok (il_index il)" using as by (simp_all add: il_rep_pairs)
  ultimately show ?thesis by (metis il_Len_def distinct_card length_map set_map)
qed

section \<open>Iterators\<close>

lemma New_refines: "il_refines il_New [] R"
  by (auto simp: il_refines_def il_rep_def its_ok_def live_def registered_def il_New_def)

lemma il_rep_same:
  assumes "il_elems il' = il_elems il" "il_index il' = il_index il" "il_first il' = il_first il" "il_last il' = il_last il"
  shows "il_rep il' as \<longleftrightarrow> il_rep il as" "pair_at il' = pair_at il"
  using assms by (simp_all add: il_rep_def pair_at_def fun_eq_iff)

lemma registered_mupd:
  assumes "gomap_ok (il_iterators il)"
  shows "registered (il\<lparr>il_iterObjs := its, il_iterators := AList.update r
     ((case map_of (il_iterators il) r of None \<Rightarrow> [] | Some is \<Rightarrow> is) @ [i]) (il_iterators il)\<rparr>) j \<longleftrightarrow> registered il j \<or> j = i"
proof -
  have reg: "registered il' j \<longleftrightarrow> (\<exists>r is. map_of (il_iterators il') r = Some is \<and> j \<in> set is)"
    if "gomap_ok (il_iterators il')" for il' :: "('a, 'b) IndexedList"
    using gomap_mem_iff [OF that] by (force simp: registered_def)
  show ?thesis using assms by (subst (1 2) reg) (auto split: if_splits option.splits)
qed

lemma Iterator_refines:
  assumes "il_refines il xs R" "il_Iterator r il = (il', i)"
  shows "if r < il_retIdx il then il_refines il' xs R \<and> it_stopped (il_iterObjs il' ! i)
    else il_refines il' xs (R(i := xs)) \<and> live il' i" "il_retIdx il' = il_retIdx il" "i = length (il_iterObjs il)"
proof -
  from assms(1) obtain as where as: "il_rep il as" "its_ok il as" "xs = map (pair_at il) as"
      "\<And>i. live il i \<Longrightarrow> R i = map (pair_at il) (rest il as i)" by (auto simp: il_refines_def)
  show i: "i = length (il_iterObjs il)" "il_retIdx il' = il_retIdx il"
    using assms(2) by (auto simp: il_Iterator_def Let_def split: if_splits)
  have "il_elems il' = il_elems il" "il_index il' = il_index il" "il_first il' = il_first il" "il_last il' = il_last il"
    using assms(2) by (auto simp: il_Iterator_def Let_def split: if_splits)
  note same = il_rep_same [OF this]
  have old: "j < length (il_iterObjs il)" if "registered il j" for j using as(2) that by (auto simp: its_ok_def)
  show "if r < il_retIdx il then il_refines il' xs R \<and> it_stopped (il_iterObjs il' ! i) else il_refines il' xs (R(i := xs)) \<and> live il' i"
  proof (cases "r < il_retIdx il")
    case True
    with assms(2) have il': "il' = il\<lparr>il_iterObjs := il_iterObjs il @ [\<lparr>it_lastOutput = None, it_stopped = True\<rparr>]\<rparr>"
      by (auto simp: il_Iterator_def Let_def)
    have reg: "registered il' j \<longleftrightarrow> registered il j" for j by (simp add: il' registered_def)
    have objs: "il_iterObjs il' ! j = il_iterObjs il ! j" "j < length (il_iterObjs il')" if "registered il j" for j
      using old [OF that] by (simp_all add: il' nth_append)
    have "its_ok il' as" using as(2) objs by (simp add: its_ok_def reg) (simp add: il')
    moreover have "live il j \<and> rest il' as j = rest il as j" if "live il' j" for j
      using that old [of j] objs [of j] by (simp add: live_def reg rest_def)
    ultimately have "il_refines il' xs R" using as same by (auto simp: il_refines_def)
    with True show ?thesis by (simp add: i il')
  next
    case False
    with assms(2) have il': "il' = il\<lparr>il_iterObjs := il_iterObjs il @ [\<lparr>it_lastOutput = None, it_stopped = False\<rparr>],
        il_iterators := AList.update r ((case map_of (il_iterators il) r of None \<Rightarrow> [] | Some is \<Rightarrow> is) @ [i]) (il_iterators il)\<rparr>"
      by (auto simp: il_Iterator_def Let_def)
    have ok: "gomap_ok (il_iterators il)" using as(2) by (simp add: its_ok_def)
    have reg: "registered il' j \<longleftrightarrow> registered il j \<or> j = i" for j unfolding il' by (rule registered_mupd [OF ok])
    have objs: "il_iterObjs il' ! j = (if j = i then \<lparr>it_lastOutput = None, it_stopped = False\<rparr> else il_iterObjs il ! j)"
      if "j \<le> i" for j using that by (auto simp: il' i nth_append)
    have len: "length (il_iterObjs il') = Suc i" by (simp add: il' i)
    have "its_ok il' as"
      unfolding its_ok_def
    proof (intro conjI allI impI)
      fix j assume "registered il' j"
      then have j: "j = i \<or> registered il j" using reg by blast
      then have "j \<le> i" using old i by fastforce
      then show "j < length (il_iterObjs il')" using len by simp
      fix a assume "it_lastOutput (il_iterObjs il' ! j) = Some a"
      with objs [OF \<open>j \<le> i\<close>] j as(2) show "a \<in> set as" by (auto simp: its_ok_def split: if_splits)
    next
      fix r' "is" assume "map_of (il_iterators il') r' = Some is"
      with as(2) False show "il_retIdx il' \<le> r'" by (auto simp: il' its_ok_def split: if_splits)
    qed (use ok in \<open>simp add: il'\<close>)
    moreover have "(R(i := xs)) j = map (pair_at il') (rest il' as j)" if "live il' j" for j
    proof (cases "j = i")
      case True
      then show ?thesis using objs [of i] as(3) same(2) by (simp add: rest_def)
    next
      case False
      with that reg have "registered il j" by (simp add: live_def)
      with old i have j: "j < i" by simp
      with that False objs [of j] reg len have "live il j" "rest il' as j = rest il as j" by (auto simp: live_def i rest_def)
      with as(4) same(2) False show ?thesis by simp
    qed
    moreover have "live il' i" using reg objs [of i] len by (simp add: live_def)
    ultimately show ?thesis using False as same by (auto simp: il_refines_def)
  qed
qed

lemma stop_iterators_simps:
  "length (stop_iterators is its) = length its"
  "it_lastOutput (stop_iterators is its ! i) = it_lastOutput (its ! i)"
  "it_stopped (its ! i) \<Longrightarrow> it_stopped (stop_iterators is its ! i)"
proof -
  show "length (stop_iterators is its) = length its"
    by (induction "is" arbitrary: its) (simp_all add: stop_iterators_def)
  have one: "it_lastOutput (its[j := (its ! j)\<lparr>it_stopped := True\<rparr>] ! i) = it_lastOutput (its ! i)"
    "it_stopped (its ! i) \<Longrightarrow> it_stopped (its[j := (its ! j)\<lparr>it_stopped := True\<rparr>] ! i)" for j its
    by (cases "j < length its"; simp add: nth_list_update list_update_beyond)+
  show "it_lastOutput (stop_iterators is its ! i) = it_lastOutput (its ! i)"
    by (induction "is" arbitrary: its) (simp_all add: stop_iterators_def one)
  show "it_stopped (its ! i) \<Longrightarrow> it_stopped (stop_iterators is its ! i)"
    by (induction "is" arbitrary: its) (simp_all add: stop_iterators_def one)
qed

text \<open>Collecting stops iterators and otherwise changes nothing.\<close>

lemma GarbageCollect_refines:
  assumes "il_refines il xs R"
  shows "il_refines (il_GarbageCollect r il) xs R" "il_retIdx (il_GarbageCollect r il) = max r (il_retIdx il)"
    "live (il_GarbageCollect r il) i \<Longrightarrow> live il i"
proof -
  have "il_refines (il_GarbageCollect r il) xs R \<and> il_retIdx (il_GarbageCollect r il) = max r (il_retIdx il) \<and>
      (live (il_GarbageCollect r il) i \<longrightarrow> live il i)"
    using assms
  proof (induction r il rule: il_GarbageCollect.induct)
    case (1 r il)
    show ?case
    proof (cases "il_retIdx il < r")
      case True
      define il1 where "il1 = il\<lparr>il_iterObjs := stop_iterators
          (case map_of (il_iterators il) (il_retIdx il) of None \<Rightarrow> [] | Some is \<Rightarrow> is) (il_iterObjs il),
          il_iterators := AList.delete (il_retIdx il) (il_iterators il), il_retIdx := il_retIdx il + 1\<rparr>"
      from 1(2) obtain as where as: "il_rep il as" "its_ok il as" "xs = map (pair_at il) as"
          "\<And>i. live il i \<Longrightarrow> R i = map (pair_at il) (rest il as i)" by (auto simp: il_refines_def)
      have "il_elems il1 = il_elems il" "il_index il1 = il_index il" "il_first il1 = il_first il" "il_last il1 = il_last il"
        by (simp_all add: il1_def)
      note same = il_rep_same [OF this]
      have reg: "registered il i" if "registered il1 i" for i
        using that mdel_subset [of "il_retIdx il" "il_iterators il"] by (auto simp: registered_def il1_def)
      have objs: "length (il_iterObjs il1) = length (il_iterObjs il)"
        "it_lastOutput (il_iterObjs il1 ! i) = it_lastOutput (il_iterObjs il ! i)"
        "it_stopped (il_iterObjs il ! i) \<Longrightarrow> it_stopped (il_iterObjs il1 ! i)" for i
        by (simp_all add: il1_def stop_iterators_simps)
      have live: "live il i" if "live il1 i" for i using that reg objs by (auto simp: live_def)
      have succ: "il_retIdx il + 1 \<le> r'" if "il_retIdx il \<le> r'" "r' \<noteq> il_retIdx il" for r'
        using that by (metis order_less_le inc_le)
      have "registered il1 i \<Longrightarrow> i < length (il_iterObjs il1) \<and>
          (\<forall>a. it_lastOutput (il_iterObjs il1 ! i) = Some a \<longrightarrow> a \<in> set as)" for i
        using as(2) reg [of i] by (simp add: its_ok_def objs(1,2))
      moreover have "map_of (il_iterators il1) r' = Some is \<Longrightarrow> il_retIdx il1 \<le> r'" for r' "is"
        using as(2) succ [of r'] by (auto simp: its_ok_def il1_def delete_conv' split: if_splits)
      moreover have "gomap_ok (il_iterators il1)" using as(2) by (simp add: its_ok_def il1_def)
      ultimately have "its_ok il1 as" by (auto simp: its_ok_def)
      moreover have "rest il1 as i = rest il as i" for i by (simp add: rest_def objs(2))
      ultimately have "il_refines il1 xs R" using as same live by (auto simp: il_refines_def)
      from 1(1) [OF True] this have "il_refines (il_GarbageCollect r il1) xs R \<and>
          il_retIdx (il_GarbageCollect r il1) = max r (il_retIdx il1) \<and> (live (il_GarbageCollect r il1) i \<longrightarrow> live il1 i)"
        unfolding il1_def by blast
      moreover have "il_GarbageCollect r il = il_GarbageCollect r il1"
        using True by (subst il_GarbageCollect.simps) (simp add: il1_def)
      moreover have "max r (il_retIdx il1) = max r (il_retIdx il)" using True inc_le [OF True] by (simp add: il1_def max_absorb1 less_imp_le)
      ultimately show ?thesis using live by simp
    next
      case False
      then have "il_GarbageCollect r il = il" by (subst il_GarbageCollect.simps) simp
      with False 1(2) show ?thesis by (simp add: max_absorb2 not_less)
    qed
  qed
  then show "il_refines (il_GarbageCollect r il) xs R" "il_retIdx (il_GarbageCollect r il) = max r (il_retIdx il)"
    "live (il_GarbageCollect r il) i \<Longrightarrow> live il i" by blast+
qed

section \<open>Iterators\<close>

text \<open>The longest prefix that a predicate with a state accepts, what remains, and the final state.\<close>

fun take_while_st :: "('k \<Rightarrow> 'v \<Rightarrow> 's \<Rightarrow> bool \<times> 's) \<Rightarrow> ('k \<times> 'v) list \<Rightarrow> 's \<Rightarrow> ('k \<times> 'v) list \<times> ('k \<times> 'v) list \<times> 's" where
  "take_while_st pred [] st = ([], [], st)"
| "take_while_st pred ((k, v) # xs) st =
     (case pred k v st of
        (True, st') \<Rightarrow> (case take_while_st pred xs st' of (ts, rs, st'') \<Rightarrow> ((k, v) # ts, rs, st''))
      | (False, st') \<Rightarrow> ([], (k, v) # xs, st'))"

lemma take_while_st_append: "take_while_st pred xs st = (ts, rs, st') \<Longrightarrow> xs = ts @ rs"
  by (induction pred xs st arbitrary: ts rs st' rule: take_while_st.induct) (auto split: prod.splits bool.splits)

lemma iterator_position:
  assumes "il_rep il as" "its_ok il as" "live il i"
  obtains ls where "as = ls @ rest il as i" "it_lastOutput (il_iterObjs il ! i) = last_or ls None"
    "next_of i il = hd_or (rest il as i) None"
proof (cases "it_lastOutput (il_iterObjs il ! i)")
  case None
  then show thesis using that [of "[]"] assms(1) by (simp add: rest_def next_of_def il_rep_def)
next
  case (Some a)
  with assms(2,3) have "a \<in> set as" by (auto simp: its_ok_def live_def)
  then obtain ls rs where as: "as = ls @ a # rs" "a \<notin> set ls" by (meson split_list_first)
  then have rest: "rest il as i = rs" using Some by (simp add: rest_def after_split)
  have "el_next (il_elems il ! a) = hd_or rs None" using assms(1) as(1) by (simp add: il_rep_def)
  then show thesis using that [of "ls @ [a]"] as(1) rest Some by (simp add: next_of_def)
qed

lemma set_lastOutput_simps [simp]:
  "il_elems (set_lastOutput i e il) = il_elems il" "il_index (set_lastOutput i e il) = il_index il"
  "il_first (set_lastOutput i e il) = il_first il" "il_last (set_lastOutput i e il) = il_last il"
  "il_iterators (set_lastOutput i e il) = il_iterators il" "il_retIdx (set_lastOutput i e il) = il_retIdx il"
  "length (il_iterObjs (set_lastOutput i e il)) = length (il_iterObjs il)"
  by (simp_all add: set_lastOutput_def)

lemma set_lastOutput_iterator:
  "i < length (il_iterObjs il) \<Longrightarrow> it_lastOutput (il_iterObjs (set_lastOutput i e il) ! i) = Some e"
  "j \<noteq> i \<Longrightarrow> il_iterObjs (set_lastOutput i e il) ! j = il_iterObjs il ! j"
  "it_stopped (il_iterObjs (set_lastOutput i e il) ! j) = it_stopped (il_iterObjs il ! j)"
proof -
  show "i < length (il_iterObjs il) \<Longrightarrow> it_lastOutput (il_iterObjs (set_lastOutput i e il) ! i) = Some e"
    "j \<noteq> i \<Longrightarrow> il_iterObjs (set_lastOutput i e il) ! j = il_iterObjs il ! j" by (simp_all add: set_lastOutput_def)
  show "it_stopped (il_iterObjs (set_lastOutput i e il) ! j) = it_stopped (il_iterObjs il ! j)"
    by (cases "i < length (il_iterObjs il)") (auto simp: set_lastOutput_def nth_list_update list_update_beyond)
qed

text \<open>What advancing one iterator to an element does to the representation.\<close>

lemma set_lastOutput_view:
  assumes "il_rep il as" "its_ok il as" "live il i" "as = ls @ e # rs"
  shows "il_rep (set_lastOutput i e il) as" "its_ok (set_lastOutput i e il) as"
    "live (set_lastOutput i e il) = live il" "pair_at (set_lastOutput i e il) = pair_at il"
    "rest (set_lastOutput i e il) as i = rs"
    "j \<noteq> i \<Longrightarrow> rest (set_lastOutput i e il) as j = rest il as j"
proof -
  let ?il = "set_lastOutput i e il"
  from assms(3) have i: "i < length (il_iterObjs il)" by (simp add: live_def)
  note same = il_rep_same [OF set_lastOutput_simps(1-4) [of i e il]]
  show "il_rep ?il as" "pair_at ?il = pair_at il" using assms(1) same by simp_all
  have reg: "registered ?il = registered il" by (simp add: registered_def fun_eq_iff)
  show "live ?il = live il" by (simp add: live_def reg fun_eq_iff set_lastOutput_iterator)
  have "a \<in> set as" if "registered il j" "it_lastOutput (il_iterObjs ?il ! j) = Some a" for j a
    using assms(2,4) that by (cases "j = i") (auto simp: its_ok_def set_lastOutput_iterator i)
  then show "its_ok ?il as" using assms(2) by (simp add: its_ok_def reg)
  from assms(1,4) have "e \<notin> set ls" by (simp add: il_rep_def)
  then show "rest ?il as i = rs" by (simp add: rest_def set_lastOutput_iterator i assms(4) after_split)
  show "j \<noteq> i \<Longrightarrow> rest ?il as j = rest il as j" by (simp add: rest_def set_lastOutput_iterator)
qed

lemma NextWhile_loop_view:
  assumes "il_rep il as" "its_ok il as" "live il i" "as = ls @ rs" "rest il as i = rs" "length rs \<le> fuel"
    "take_while_st pred (map (pair_at il) rs) st = (ts, us, st')"
  shows "\<exists>il'. NextWhile_loop fuel pred i (hd_or rs None) keys vals st il = Inr (il', st', keys @ map fst ts, vals @ map snd ts) \<and>
    il_rep il' as \<and> its_ok il' as \<and> live il' = live il \<and> pair_at il' = pair_at il \<and> il_retIdx il' = il_retIdx il \<and>
    map (pair_at il) (rest il' as i) = us \<and> (\<forall>j. j \<noteq> i \<longrightarrow> rest il' as j = rest il as j)"
  using assms
proof (induction rs arbitrary: ls fuel st ts keys vals il)
  case Nil
  then show ?case by simp
next
  case (Cons e rs)
  obtain fuel' where fuel: "fuel = Suc fuel'" "length rs \<le> fuel'" using Cons.prems(6) by (cases fuel) auto
  have e: "pair_at il e = (el_key (il_elems il ! e), el_val (il_elems il ! e))" by (simp add: pair_at_def)
  have nxt: "el_next (il_elems il ! e) = hd_or rs None" using Cons.prems(1,4) by (simp add: il_rep_def)
  obtain ok st1 where p: "pred (el_key (il_elems il ! e)) (el_val (il_elems il ! e)) st = (ok, st1)" by fastforce
  show ?case
  proof (cases ok)
    case False
    then show ?thesis using Cons.prems p by (simp add: fuel e)
  next
    case True
    let ?il = "set_lastOutput i e il"
    note view = set_lastOutput_view [OF Cons.prems(1-4)]
    from Cons.prems(7) p True obtain ts' where
      ts: "take_while_st pred (map (pair_at ?il) rs) st1 = (ts', us, st')" "ts = pair_at il e # ts'"
      by (auto simp: e view(4) split: prod.splits)
    have "live ?il i" "as = (ls @ [e]) @ rs" using Cons.prems(3,4) by (simp_all add: view(3))
    from Cons.IH [OF view(1,2) this view(5) fuel(2) ts(1), of "keys @ [el_key (il_elems il ! e)]" "vals @ [el_val (il_elems il ! e)]"]
    show ?thesis using p True view(3-6) by (simp add: Let_def fuel ts(2) e nxt)
  qed
qed

text \<open>
  \<open>NextWhile\<close> outputs the longest accepted prefix of what the iterator has not output yet, and the loop
  does not run out of fuel.
\<close>

lemma NextWhile_refines:
  assumes "il_refines il xs R" "live il i" "take_while_st pred (R i) st = (ts, us, st')"
  shows "\<exists>il'. it_NextWhile pred i st il = Inr (il', st', map fst ts, map snd ts, True) \<and>
    il_refines il' xs (R(i := us)) \<and> live il' = live il \<and> il_retIdx il' = il_retIdx il"
proof -
  from assms(1) obtain as where as: "il_rep il as" "its_ok il as" "xs = map (pair_at il) as"
      "\<And>i. live il i \<Longrightarrow> R i = map (pair_at il) (rest il as i)" by (auto simp: il_refines_def)
  obtain ls where ls: "as = ls @ rest il as i" "next_of i il = hd_or (rest il as i) None"
    using iterator_position [OF as(1,2) assms(2)] by blast
  have "length (rest il as i) \<le> length as" using arg_cong [OF ls(1), of length] by simp
  also have "\<dots> \<le> length (il_elems il)" by (rule addrs_length [OF as(1)])
  finally have fuel: "length (rest il as i) \<le> length (il_elems il)" .
  have "take_while_st pred (map (pair_at il) (rest il as i)) st = (ts, us, st')" using assms(3) as(4) [OF assms(2)] by simp
  from NextWhile_loop_view [OF as(1,2) assms(2) ls(1) refl fuel this, of "[]" "[]"] obtain il' where
    il': "NextWhile_loop (length (il_elems il)) pred i (next_of i il) [] [] st il = Inr (il', st', map fst ts, map snd ts)"
      "il_rep il' as" "its_ok il' as" "live il' = live il" "pair_at il' = pair_at il" "il_retIdx il' = il_retIdx il"
      "map (pair_at il) (rest il' as i) = us" "\<And>j. j \<noteq> i \<Longrightarrow> rest il' as j = rest il as j"
    unfolding ls(2) by auto
  have "(R(i := us)) j = map (pair_at il') (rest il' as j)" if "live il' j" for j
    using that as(4) [of j] il'(4-8) by simp
  then have "il_refines il' xs (R(i := us))" using il'(2,3,5) as(3) by (auto simp: il_refines_def)
  moreover have "it_NextWhile pred i st il = Inr (il', st', map fst ts, map snd ts, True)"
    using assms(2) il'(1) by (simp add: it_NextWhile_def live_def)
  ultimately show ?thesis using il'(4,6) by blast
qed

lemma Next_refines:
  assumes "il_refines il xs R" "live il i"
  shows "case R i of
      [] \<Rightarrow> it_Next i il = (il, None)
    | x # us \<Rightarrow> \<exists>il'. it_Next i il = (il', Some x) \<and> il_refines il' xs (R(i := us)) \<and> live il' = live il \<and> il_retIdx il' = il_retIdx il"
proof -
  from assms(1) obtain as where as: "il_rep il as" "its_ok il as" "xs = map (pair_at il) as"
      "\<And>i. live il i \<Longrightarrow> R i = map (pair_at il) (rest il as i)" by (auto simp: il_refines_def)
  obtain ls where ls: "as = ls @ rest il as i" "next_of i il = hd_or (rest il as i) None"
    using iterator_position [OF as(1,2) assms(2)] by blast
  have run: "\<not> it_stopped (il_iterObjs il ! i)" using assms(2) by (simp add: live_def)
  show ?thesis
  proof (cases "rest il as i")
    case Nil
    then show ?thesis using as(4) [OF assms(2)] run ls(2) by (simp add: it_Next_def)
  next
    case (Cons e rs)
    let ?il = "set_lastOutput i e il"
    note view = set_lastOutput_view [OF as(1,2) assms(2) ls(1) [unfolded Cons]]
    have "(R(i := map (pair_at il) rs)) j = map (pair_at ?il) (rest ?il as j)" if "live ?il j" for j
      using that as(4) [of j] view(3-6) by simp
    then have "il_refines ?il xs (R(i := map (pair_at il) rs))" using view(1,2,4) as(3) by (auto simp: il_refines_def)
    moreover have "it_Next i il = (?il, Some (pair_at il e))" using run ls(2) Cons by (simp add: it_Next_def pair_at_def)
    ultimately show ?thesis using as(4) [OF assms(2)] Cons view(3) by simp
  qed
qed

section \<open>What operations on elements leave alone\<close>

definition same_iterators :: "('k, 'v) IndexedList \<Rightarrow> ('k, 'v) IndexedList \<Rightarrow> bool" where
  "same_iterators il il' \<longleftrightarrow> il_iterators il' = il_iterators il \<and> il_retIdx il' = il_retIdx il \<and>
     map it_stopped (il_iterObjs il') = map it_stopped (il_iterObjs il)"

lemma same_iterators_refl [simp]: "same_iterators il il"
  by (simp add: same_iterators_def)

lemma same_iterators_trans [trans]: "same_iterators il il' \<Longrightarrow> same_iterators il' il'' \<Longrightarrow> same_iterators il il''"
  by (simp add: same_iterators_def)

lemma same_iterators_stopped:
  assumes "same_iterators il il'"
  shows "length (il_iterObjs il') = length (il_iterObjs il)"
    "i < length (il_iterObjs il) \<Longrightarrow> it_stopped (il_iterObjs il' ! i) = it_stopped (il_iterObjs il ! i)"
proof -
  show len: "length (il_iterObjs il') = length (il_iterObjs il)"
    using assms unfolding same_iterators_def by (metis length_map)
  have "map it_stopped (il_iterObjs il') ! i = map it_stopped (il_iterObjs il) ! i" using assms by (simp add: same_iterators_def)
  then show "i < length (il_iterObjs il) \<Longrightarrow> it_stopped (il_iterObjs il' ! i) = it_stopped (il_iterObjs il ! i)" using len by simp
qed

lemma same_iterators_link [simp]: "same_iterators il (set_next a p il)" "same_iterators il (set_prev a p il)"
  by (simp_all add: same_iterators_def set_next_def set_prev_def)

lemma same_iterators_appendElement: "appendElement k v il = Inr (il', b) \<Longrightarrow> same_iterators il il'"
  by (auto simp: appendElement_def Let_def rbind_eq_Inr same_iterators_def set_next_def set_prev_def new_element_def
      split: if_splits)

lemma same_iterators_Append_loop: "Append_loop keys vals ks vs il = Inr (il', ks', vs') \<Longrightarrow> same_iterators il il'"
proof (induction keys vals ks vs il rule: Append_loop.induct)
  case (1 k keys v vals ks vs il)
  from 1(3) obtain il1 b where "appendElement k v il = Inr (il1, b)" "same_iterators il1 il'"
    using 1(1,2) by (auto simp: rbind_eq_Inr split: if_splits)
  then show ?case using same_iterators_appendElement same_iterators_trans by metis
qed auto

lemma same_iterators_removeElement: "same_iterators il (removeElement e il)"
proof -
  have "same_iterators il (updateIterators e (il\<lparr>il_index := idx\<rparr>))" for idx
    by (auto simp: same_iterators_def updateIterators_def list_eq_iff_nth_eq nth_enumerate_eq)
  then show ?thesis
    by (auto simp: removeElement_def Let_def same_iterators_def set_next_def set_prev_def split: option.split)
qed

lemma same_iterators_Remove_loop: "Remove_loop keys ks vs il = (il', ks', vs') \<Longrightarrow> same_iterators il il'"
proof (induction keys ks vs il rule: Remove_loop.induct)
  case (2 key keys ks vs il)
  then show ?case using same_iterators_removeElement same_iterators_trans
    by (fastforce simp: Let_def split: option.splits)
qed simp

lemma same_iterators_RemoveSelected_loop:
  "RemoveSelected_loop fuel pred e ks vs il = Inr (il', ks', vs') \<Longrightarrow> same_iterators il il'"
proof (induction fuel pred e ks vs il rule: RemoveSelected_loop.induct)
  case (3 fuel pred e ks vs il)
  then show ?case using same_iterators_removeElement same_iterators_trans
    by (fastforce simp: Let_def split: if_splits)
qed simp_all

lemma same_iterators_set_lastOutput: "same_iterators il (set_lastOutput i e il)"
  by (auto simp: same_iterators_def list_eq_iff_nth_eq set_lastOutput_iterator)

lemma same_iterators_NextWhile_loop:
  "NextWhile_loop fuel pred i e ks vs st il = Inr (il', st', ks', vs') \<Longrightarrow> same_iterators il il'"
proof (induction fuel pred i e ks vs st il rule: NextWhile_loop.induct)
  case (3 fuel pred i e ks vs st il)
  then show ?case using same_iterators_set_lastOutput same_iterators_trans
    by (fastforce simp: Let_def split: if_splits prod.splits)
qed simp_all

lemma same_iterators_ops:
  "il_Append keys vals il = Inr (il', ks, vs) \<Longrightarrow> same_iterators il il'"
  "il_Remove keys il = (il', ks, vs) \<Longrightarrow> same_iterators il il'"
  "il_RemoveSelected sel il = Inr (il', ks, vs) \<Longrightarrow> same_iterators il il'"
  "it_Next i il = (il', out) \<Longrightarrow> same_iterators il il'"
  "it_NextWhile pred i st il = Inr (il', st', ks, vs, b) \<Longrightarrow> same_iterators il il'"
  by (auto simp: il_Append_def il_Remove_def il_RemoveSelected_def it_Next_def it_NextWhile_def rbind_eq_Inr
      same_iterators_Append_loop same_iterators_Remove_loop same_iterators_RemoveSelected_loop
      same_iterators_NextWhile_loop same_iterators_set_lastOutput split: if_splits option.splits)

section \<open>The abstract list with iterators\<close>

text \<open>
  The contract of the data structure: a list of pairs without duplicate keys and, for every iterator ever
  created, its retention index and the pairs it has yet to output. An iterator works until its retention index
  is collected.
\<close>

record ('k, 'v) il_spec =
  sp_pairs :: "('k \<times> 'v) list"
  sp_iters :: "(RetentionIndex \<times> ('k \<times> 'v) list) list"
  sp_ret :: RetentionIndex

datatype ('k, 'v, 's) il_op =
    AppendOp "('k \<times> 'v) list"
  | RemoveOp "'k list"
  | RemoveSelectedOp "'k \<Rightarrow> 'v \<Rightarrow> bool"
  | LookUpOp "'k list"
  | LenOp
  | IteratorOp RetentionIndex
  | GarbageCollectOp RetentionIndex
  | NextOp nat
  | NextWhileOp "'k \<Rightarrow> 'v \<Rightarrow> 's \<Rightarrow> bool \<times> 's" nat 's

datatype ('k, 'v, 's) il_out =
    Pairs "'k list" "'v list"
  | Found "'k list" "'v list" "'k list"
  | Count nat
  | Address nat
  | Output "('k \<times> 'v) option"
  | Taken 's "'k list" "'v list" bool
  | Silent

fun il_exec :: "('k, 'v, 's) il_op \<Rightarrow> ('k, 'v) IndexedList \<Rightarrow> (('k, 'v) IndexedList \<times> ('k, 'v, 's) il_out) res" where
  "il_exec (AppendOp kvs) il = rbind (il_Append (map fst kvs) (map snd kvs) il) (\<lambda>(il, ks, vs). Inr (il, Pairs ks vs))"
| "il_exec (RemoveOp keys) il = (case il_Remove keys il of (il, ks, vs) \<Rightarrow> Inr (il, Pairs ks vs))"
| "il_exec (RemoveSelectedOp sel) il = rbind (il_RemoveSelected sel il) (\<lambda>(il, ks, vs). Inr (il, Pairs ks vs))"
| "il_exec (LookUpOp keys) il = (case il_LookUp il keys of (ks, vs, ms) \<Rightarrow> Inr (il, Found ks vs ms))"
| "il_exec LenOp il = Inr (il, Count (il_Len il))"
| "il_exec (IteratorOp r) il = (case il_Iterator r il of (il, i) \<Rightarrow> Inr (il, Address i))"
| "il_exec (GarbageCollectOp r) il = Inr (il_GarbageCollect r il, Silent)"
| "il_exec (NextOp i) il =
     (if i < length (il_iterObjs il) then case it_Next i il of (il, out) \<Rightarrow> Inr (il, Output out) else Inr (il, Silent))"
| "il_exec (NextWhileOp pred i st) il =
     (if i < length (il_iterObjs il)
      then rbind (it_NextWhile pred i st il) (\<lambda>(il, st, ks, vs, b). Inr (il, Taken st ks vs b)) else Inr (il, Silent))"

fun spec_exec :: "('k, 'v, 's) il_op \<Rightarrow> ('k, 'v) il_spec \<Rightarrow> ('k, 'v) il_spec \<times> ('k, 'v, 's) il_out" where
  "spec_exec (AppendOp kvs) S =
     (let new = new_pairs (sp_pairs S) kvs
      in (S\<lparr>sp_pairs := sp_pairs S @ new, sp_iters := map (\<lambda>(r, us). (r, us @ new)) (sp_iters S)\<rparr>,
          Pairs (map fst new) (map snd new)))"
| "spec_exec (RemoveOp keys) S =
     (let keep = filter (\<lambda>p. fst p \<notin> set keys); gone = removed_pairs (sp_pairs S) keys
      in (S\<lparr>sp_pairs := keep (sp_pairs S), sp_iters := map (\<lambda>(r, us). (r, keep us)) (sp_iters S)\<rparr>,
          Pairs (map fst gone) (map snd gone)))"
| "spec_exec (RemoveSelectedOp sel) S =
     (let gone = filter (\<lambda>p. sel (fst p) (snd p)) (sp_pairs S); keep = filter (\<lambda>p. fst p \<notin> fst ` set gone)
      in (S\<lparr>sp_pairs := filter (\<lambda>p. \<not> sel (fst p) (snd p)) (sp_pairs S), sp_iters := map (\<lambda>(r, us). (r, keep us)) (sp_iters S)\<rparr>,
          Pairs (map fst gone) (map snd gone)))"
| "spec_exec (LookUpOp keys) S =
     (let has = mhas (sp_pairs S)
      in (S, Found (filter has keys) (map (\<lambda>k. the (map_of (sp_pairs S) k)) (filter has keys)) (filter (\<lambda>k. \<not> has k) keys)))"
| "spec_exec LenOp S = (S, Count (length (sp_pairs S)))"
| "spec_exec (IteratorOp r) S = (S\<lparr>sp_iters := sp_iters S @ [(r, sp_pairs S)]\<rparr>, Address (length (sp_iters S)))"
| "spec_exec (GarbageCollectOp r) S = (S\<lparr>sp_ret := max r (sp_ret S)\<rparr>, Silent)"
| "spec_exec (NextOp i) S =
     (if i < length (sp_iters S)
      then case sp_iters S ! i of (r, us) \<Rightarrow>
             if r < sp_ret S then (S, Output None)
             else case us of [] \<Rightarrow> (S, Output None) | u # us \<Rightarrow> (S\<lparr>sp_iters := (sp_iters S)[i := (r, us)]\<rparr>, Output (Some u))
      else (S, Silent))"
| "spec_exec (NextWhileOp pred i st) S =
     (if i < length (sp_iters S)
      then case sp_iters S ! i of (r, us) \<Rightarrow>
             if r < sp_ret S then (S, Taken st [] [] False)
             else case take_while_st pred us st of (ts, us, st) \<Rightarrow>
               (S\<lparr>sp_iters := (sp_iters S)[i := (r, us)]\<rparr>, Taken st (map fst ts) (map snd ts) True)
      else (S, Silent))"

definition il_sim :: "('k, 'v) IndexedList \<Rightarrow> ('k, 'v) il_spec \<Rightarrow> bool" where
  "il_sim il S \<longleftrightarrow>
     il_refines il (sp_pairs S) (\<lambda>i. snd (sp_iters S ! i)) \<and> length (il_iterObjs il) = length (sp_iters S) \<and>
     il_retIdx il = sp_ret S \<and> (\<forall>i < length (sp_iters S). it_stopped (il_iterObjs il ! i) \<longleftrightarrow> fst (sp_iters S ! i) < sp_ret S) \<and>
     (\<forall>r i. i \<in> set (case map_of (il_iterators il) r of None \<Rightarrow> [] | Some is \<Rightarrow> is) \<longleftrightarrow>
        i < length (sp_iters S) \<and> fst (sp_iters S ! i) = r \<and> sp_ret S \<le> r)"

lemma il_refines_cong:
  assumes "il_refines il xs R" "\<And>i. live il i \<Longrightarrow> R' i = R i"
  shows "il_refines il xs R'"
  using assms by (auto simp: il_refines_def)

lemma registered_iff:
  assumes "il_refines il xs R"
  shows "registered il i \<longleftrightarrow> (\<exists>r. i \<in> set (case map_of (il_iterators il) r of None \<Rightarrow> [] | Some is \<Rightarrow> is))"
proof -
  have ok: "gomap_ok (il_iterators il)" using assms by (auto simp: il_refines_def its_ok_def)
  have "registered il i \<longleftrightarrow> (\<exists>r is. (r, is) \<in> set (il_iterators il) \<and> i \<in> set is)" by (force simp: registered_def)
  also have "\<dots> \<longleftrightarrow> (\<exists>r is. map_of (il_iterators il) r = Some is \<and> i \<in> set is)" using ok by (auto simp: map_of_eq_Some_iff)
  also have "\<dots> \<longleftrightarrow> (\<exists>r. i \<in> set (case map_of (il_iterators il) r of None \<Rightarrow> [] | Some is \<Rightarrow> is))"
  proof -
    have "i \<in> set (case map_of (il_iterators il) r of None \<Rightarrow> [] | Some is \<Rightarrow> is) \<longleftrightarrow>
        (\<exists>is. map_of (il_iterators il) r = Some is \<and> i \<in> set is)" for r
      by (cases "map_of (il_iterators il) r") simp_all
    then show ?thesis by blast
  qed
  finally show ?thesis .
qed

lemma live_iff:
  assumes "il_sim il S"
  shows "live il i \<longleftrightarrow> i < length (sp_iters S) \<and> sp_ret S \<le> fst (sp_iters S ! i)"
proof -
  have "registered il i \<longleftrightarrow> i < length (sp_iters S) \<and> sp_ret S \<le> fst (sp_iters S ! i)"
    using assms registered_iff [of il "sp_pairs S" "\<lambda>i. snd (sp_iters S ! i)" i] by (auto simp: il_sim_def)
  then show ?thesis using assms by (auto simp: live_def il_sim_def)
qed

text \<open>Operations on elements change the pairs and what is to be output, not the iterators that work.\<close>

lemma il_sim_elements:
  assumes "il_sim il S" "same_iterators il il'" "il_refines il' xs R"
    "map fst (sp_iters S') = map fst (sp_iters S)" "sp_ret S' = sp_ret S" "sp_pairs S' = xs"
    "\<And>i. i < length (sp_iters S) \<Longrightarrow> sp_ret S \<le> fst (sp_iters S ! i) \<Longrightarrow> snd (sp_iters S' ! i) = R i"
  shows "il_sim il' S'"
proof -
  have len: "length (sp_iters S') = length (sp_iters S)" by (metis assms(4) length_map)
  have fst: "fst (sp_iters S' ! i) = fst (sp_iters S ! i)" if "i < length (sp_iters S)" for i
    using that assms(4) len by (metis nth_map)
  have live: "live il' i \<Longrightarrow> i < length (sp_iters S) \<and> sp_ret S \<le> fst (sp_iters S ! i)" for i
    using live_iff [OF assms(1), of i] same_iterators_stopped [OF assms(2)] assms(2)
    by (auto simp: live_def registered_def same_iterators_def)
  have "il_refines il' (sp_pairs S') (\<lambda>i. snd (sp_iters S' ! i))"
    unfolding assms(6) by (rule il_refines_cong [OF assms(3)]) (use live assms(7) in blast)
  then show ?thesis using assms(1,2,5) same_iterators_stopped [OF assms(2)] fst len
    by (auto simp: il_sim_def same_iterators_def)
qed

lemma sim_Append:
  assumes "il_sim il S"
  shows "\<exists>il'. il_exec (AppendOp kvs) il = Inr (il', snd (spec_exec (AppendOp kvs) S)) \<and> il_sim il' (fst (spec_exec (AppendOp kvs) S))"
proof -
  have ref: "il_refines il (sp_pairs S) (\<lambda>i. snd (sp_iters S ! i))" using assms by (simp add: il_sim_def)
  have zip: "zip (map fst kvs) (map snd kvs) = kvs" by (simp add: zip_map_fst_snd)
  from Append_refines [OF ref, of "map fst kvs" "map snd kvs", unfolded zip] obtain il' where
    il': "il_Append (map fst kvs) (map snd kvs) il =
        Inr (il', map fst (new_pairs (sp_pairs S) kvs), map snd (new_pairs (sp_pairs S) kvs))"
      "il_refines il' (sp_pairs S @ new_pairs (sp_pairs S) kvs) (\<lambda>i. snd (sp_iters S ! i) @ new_pairs (sp_pairs S) kvs)"
    by auto
  have "il_sim il' (fst (spec_exec (AppendOp kvs) S))"
    by (rule il_sim_elements [OF assms same_iterators_ops(1) [OF il'(1)] il'(2)])
      (auto simp: Let_def split: prod.split)
  then show ?thesis using il'(1) by (auto simp: Let_def)
qed

lemma sim_Remove:
  assumes "il_sim il S"
  shows "\<exists>il'. il_exec (RemoveOp keys) il = Inr (il', snd (spec_exec (RemoveOp keys) S)) \<and> il_sim il' (fst (spec_exec (RemoveOp keys) S))"
proof -
  have ref: "il_refines il (sp_pairs S) (\<lambda>i. snd (sp_iters S ! i))" using assms by (simp add: il_sim_def)
  from Remove_refines [OF ref, of keys] obtain il' where
    il': "il_Remove keys il = (il', map fst (removed_pairs (sp_pairs S) keys), map snd (removed_pairs (sp_pairs S) keys))"
      "il_refines il' (filter (\<lambda>p. fst p \<notin> set keys) (sp_pairs S)) (\<lambda>i. filter (\<lambda>p. fst p \<notin> set keys) (snd (sp_iters S ! i)))"
    by auto
  have "il_sim il' (fst (spec_exec (RemoveOp keys) S))"
    by (rule il_sim_elements [OF assms same_iterators_ops(2) [OF il'(1)] il'(2)])
      (auto simp: Let_def split: prod.split)
  then show ?thesis using il'(1) by (auto simp: Let_def)
qed

lemma sim_RemoveSelected:
  assumes "il_sim il S"
  shows "\<exists>il'. il_exec (RemoveSelectedOp sel) il = Inr (il', snd (spec_exec (RemoveSelectedOp sel) S)) \<and>
    il_sim il' (fst (spec_exec (RemoveSelectedOp sel) S))"
proof -
  have ref: "il_refines il (sp_pairs S) (\<lambda>i. snd (sp_iters S ! i))" using assms by (simp add: il_sim_def)
  let ?gone = "filter (\<lambda>p. sel (fst p) (snd p)) (sp_pairs S)"
  from RemoveSelected_refines [OF ref, of sel] obtain il' where
    il': "il_RemoveSelected sel il = Inr (il', map fst ?gone, map snd ?gone)"
      "il_refines il' (filter (\<lambda>p. \<not> sel (fst p) (snd p)) (sp_pairs S)) (\<lambda>i. filter (\<lambda>p. fst p \<notin> fst ` set ?gone) (snd (sp_iters S ! i)))"
    by auto
  have "il_sim il' (fst (spec_exec (RemoveSelectedOp sel) S))"
    by (rule il_sim_elements [OF assms same_iterators_ops(3) [OF il'(1)] il'(2)])
      (auto simp: Let_def split: prod.split)
  then show ?thesis using il'(1) by (auto simp: Let_def)
qed

lemma sim_Next:
  assumes "il_sim il S"
  shows "\<exists>il'. il_exec (NextOp i) il = Inr (il', snd (spec_exec (NextOp i) S)) \<and> il_sim il' (fst (spec_exec (NextOp i) S))"
proof (cases "live il i")
  case False
  then have "i < length (sp_iters S) \<Longrightarrow> fst (sp_iters S ! i) < sp_ret S" using live_iff [OF assms] by auto
  then show ?thesis using assms by (auto simp: il_sim_def it_Next_def split: prod.split)
next
  case True
  then have i: "i < length (sp_iters S)" "sp_ret S \<le> fst (sp_iters S ! i)" using live_iff [OF assms] by auto
  obtain r us where ru: "sp_iters S ! i = (r, us)" by fastforce
  have ref: "il_refines il (sp_pairs S) (\<lambda>i. snd (sp_iters S ! i))" and len: "length (il_iterObjs il) = length (sp_iters S)"
    using assms by (simp_all add: il_sim_def)
  show ?thesis
  proof (cases us)
    case Nil
    then have "it_Next i il = (il, None)" using Next_refines [OF ref True] ru by simp
    then show ?thesis using assms i len ru Nil by (auto simp: not_le)
  next
    case (Cons u us')
    then obtain il' where il': "it_Next i il = (il', Some u)" "il_refines il' (sp_pairs S) ((\<lambda>i. snd (sp_iters S ! i))(i := us'))"
      using Next_refines [OF ref True] ru by auto
    have "il_sim il' (S\<lparr>sp_iters := (sp_iters S)[i := (r, us')]\<rparr>)"
      by (rule il_sim_elements [OF assms same_iterators_ops(4) [OF il'(1)] il'(2)])
        (use ru i(1) in \<open>auto simp: map_update nth_list_update intro: list_update_same_conv [THEN iffD2]\<close>)
    then show ?thesis using il'(1) i len ru Cons by auto
  qed
qed

lemma sim_NextWhile:
  assumes "il_sim il S"
  shows "\<exists>il'. il_exec (NextWhileOp pred i st) il = Inr (il', snd (spec_exec (NextWhileOp pred i st) S)) \<and>
    il_sim il' (fst (spec_exec (NextWhileOp pred i st) S))"
proof (cases "live il i")
  case False
  then have "i < length (sp_iters S) \<Longrightarrow> fst (sp_iters S ! i) < sp_ret S" using live_iff [OF assms] by auto
  then show ?thesis using assms by (auto simp: il_sim_def it_NextWhile_def split: prod.split)
next
  case True
  then have i: "i < length (sp_iters S)" "sp_ret S \<le> fst (sp_iters S ! i)" using live_iff [OF assms] by auto
  obtain r us where ru: "sp_iters S ! i = (r, us)" by fastforce
  obtain ts us' st' where t: "take_while_st pred us st = (ts, us', st')" by (cases "take_while_st pred us st")
  have ref: "il_refines il (sp_pairs S) (\<lambda>i. snd (sp_iters S ! i))" and len: "length (il_iterObjs il) = length (sp_iters S)"
    using assms by (simp_all add: il_sim_def)
  from NextWhile_refines [OF ref True, of pred st] t ru obtain il' where
    il': "it_NextWhile pred i st il = Inr (il', st', map fst ts, map snd ts, True)"
      "il_refines il' (sp_pairs S) ((\<lambda>i. snd (sp_iters S ! i))(i := us'))" by auto
  have "il_sim il' (S\<lparr>sp_iters := (sp_iters S)[i := (r, us')]\<rparr>)"
    by (rule il_sim_elements [OF assms same_iterators_ops(5) [OF il'(1)] il'(2)])
      (use ru i(1) in \<open>auto simp: map_update nth_list_update intro: list_update_same_conv [THEN iffD2]\<close>)
  then show ?thesis using il'(1) i len ru t by auto
qed

lemma sim_Iterator:
  assumes "il_sim il S"
  shows "\<exists>il'. il_exec (IteratorOp r) il = Inr (il', snd (spec_exec (IteratorOp r) S)) \<and> il_sim il' (fst (spec_exec (IteratorOp r) S))"
proof -
  have sim: "il_refines il (sp_pairs S) (\<lambda>i. snd (sp_iters S ! i))" "length (il_iterObjs il) = length (sp_iters S)"
    "il_retIdx il = sp_ret S" using assms by (simp_all add: il_sim_def)
  let ?n = "length (sp_iters S)" and ?S' = "S\<lparr>sp_iters := sp_iters S @ [(r, sp_pairs S)]\<rparr>"
  obtain il' where il': "il_Iterator r il = (il', ?n)" using sim(2)
    by (cases "r < il_retIdx il") (auto simp: il_Iterator_def Let_def)
  note it = Iterator_refines [OF sim(1) il']
  have lives: "i < Suc ?n" if "live il' i" for i
    using that il' sim(2) by (auto simp: live_def il_Iterator_def Let_def split: if_splits)
  have "il_refines il' (sp_pairs ?S') (\<lambda>i. snd (sp_iters ?S' ! i))"
  proof (cases "r < il_retIdx il")
    case True
    with it(1) have ref: "il_refines il' (sp_pairs S) (\<lambda>i. snd (sp_iters S ! i))" and "\<not> live il' ?n" by (auto simp: live_def)
    with lives have "live il' i \<Longrightarrow> i < ?n" for i by (metis less_SucE)
    then show ?thesis using il_refines_cong [OF ref, of "\<lambda>i. snd (sp_iters ?S' ! i)"] by (simp add: nth_append)
  next
    case False
    with it(1) have ref: "il_refines il' (sp_pairs S) ((\<lambda>i. snd (sp_iters S ! i))(?n := sp_pairs S))" by simp
    have "snd (sp_iters ?S' ! i) = ((\<lambda>i. snd (sp_iters S ! i))(?n := sp_pairs S)) i" if "live il' i" for i
      using lives [OF that] by (auto simp: nth_append less_Suc_eq)
    from il_refines_cong [OF ref this] show ?thesis by simp
  qed
  moreover have "it_stopped (il_iterObjs il' ! i) \<longleftrightarrow> fst (sp_iters ?S' ! i) < sp_ret S" if "i < Suc ?n" for i
    using that assms il' sim by (auto simp: il_Iterator_def Let_def nth_append il_sim_def less_Suc_eq split: if_splits)
  moreover have "i \<in> set (case map_of (il_iterators il') r' of None \<Rightarrow> [] | Some is \<Rightarrow> is) \<longleftrightarrow>
      i < Suc ?n \<and> fst (sp_iters ?S' ! i) = r' \<and> sp_ret S \<le> r'" for r' i
  proof -
    let ?its = "\<lambda>il. case map_of (il_iterators il) r' of None \<Rightarrow> [] | Some is \<Rightarrow> is"
    have "i \<in> set (?its il) \<longleftrightarrow> i < ?n \<and> fst (sp_iters S ! i) = r' \<and> sp_ret S \<le> r'" using assms by (simp add: il_sim_def)
    moreover have "?its il' = ?its il @ (if r' = r \<and> \<not> r < sp_ret S then [?n] else [])"
      using il' sim by (auto simp: il_Iterator_def Let_def split: if_splits option.splits)
    moreover have "fst (sp_iters ?S' ! i) = (if i < ?n then fst (sp_iters S ! i) else r)" if "i < Suc ?n"
      using that by (auto simp: nth_append less_Suc_eq)
    ultimately show ?thesis by (auto simp: less_Suc_eq not_less)
  qed
  moreover have "length (il_iterObjs il') = Suc ?n" using il' sim(2) by (auto simp: il_Iterator_def Let_def split: if_splits)
  ultimately have "il_sim il' ?S'" using it(2) sim(3) by (simp add: il_sim_def)
  then show ?thesis using il' by simp
qed

lemma stop_iterators_stopped:
  "i < length its \<Longrightarrow> it_stopped (stop_iterators is its ! i) \<longleftrightarrow> it_stopped (its ! i) \<or> i \<in> set is"
proof (induction "is" arbitrary: its)
  case (Cons j "is")
  have "stop_iterators (j # is) its = stop_iterators is (its[j := (its ! j)\<lparr>it_stopped := True\<rparr>])" by (simp add: stop_iterators_def)
  moreover have "it_stopped (its[j := (its ! j)\<lparr>it_stopped := True\<rparr>] ! i) \<longleftrightarrow> it_stopped (its ! i) \<or> i = j"
    using Cons(2) by (cases "i = j") simp_all
  ultimately show ?case using Cons by auto
qed (simp add: stop_iterators_def)

lemma GarbageCollect_one:
  assumes "il_retIdx il < r"
  shows "il_GarbageCollect (il_retIdx il + 1) il =
    il\<lparr>il_iterObjs := stop_iterators (case map_of (il_iterators il) (il_retIdx il) of None \<Rightarrow> [] | Some is \<Rightarrow> is) (il_iterObjs il),
       il_iterators := AList.delete (il_retIdx il) (il_iterators il), il_retIdx := il_retIdx il + 1\<rparr>"
proof -
  have less: "il_retIdx il < il_retIdx il + 1" using word_less_succ [OF assms] by (simp add: word_less_nat_alt)
  then show ?thesis by (subst il_GarbageCollect.simps, subst il_GarbageCollect.simps) simp
qed

lemma sim_GarbageCollect_one:
  assumes "il_sim il S" "il_retIdx il < r"
  shows "il_sim (il_GarbageCollect (il_retIdx il + 1) il) (S\<lparr>sp_ret := sp_ret S + 1\<rparr>)"
proof -
  have sim: "il_refines il (sp_pairs S) (\<lambda>i. snd (sp_iters S ! i))" "length (il_iterObjs il) = length (sp_iters S)"
    "il_retIdx il = sp_ret S" using assms by (simp_all add: il_sim_def)
  have less: "sp_ret S < r" using assms(2) sim(3) by simp
  have succ: "x < sp_ret S + 1 \<longleftrightarrow> x \<le> sp_ret S" for x
    using word_less_succ [OF less] by (simp add: word_less_nat_alt word_le_nat_alt less_Suc_eq_le)
  have le: "sp_ret S + 1 \<le> x \<longleftrightarrow> sp_ret S \<le> x \<and> x \<noteq> sp_ret S" for x
    using succ [of x] by (auto simp: not_less [symmetric])
  let ?il = "il_GarbageCollect (il_retIdx il + 1) il"
  have mem: "i \<in> set (case map_of (il_iterators il) r of None \<Rightarrow> [] | Some is \<Rightarrow> is) \<longleftrightarrow>
      i < length (sp_iters S) \<and> fst (sp_iters S ! i) = r \<and> sp_ret S \<le> r" for r i using assms(1) by (simp add: il_sim_def)
  have "it_stopped (il_iterObjs ?il ! i) \<longleftrightarrow> fst (sp_iters S ! i) < sp_ret S + 1" if "i < length (sp_iters S)" for i
    using that assms(1) mem [of i "sp_ret S"] unfolding GarbageCollect_one [OF assms(2)]
    by (auto simp: sim stop_iterators_stopped succ il_sim_def)
  moreover have "i \<in> set (case map_of (il_iterators ?il) r of None \<Rightarrow> [] | Some is \<Rightarrow> is) \<longleftrightarrow>
      i < length (sp_iters S) \<and> fst (sp_iters S ! i) = r \<and> sp_ret S + 1 \<le> r" for r i
    using mem [of i r] unfolding GarbageCollect_one [OF assms(2)] le by (cases "r = sp_ret S") (simp_all add: sim delete_conv')
  moreover have "il_refines ?il (sp_pairs S) (\<lambda>i. snd (sp_iters S ! i))" by (rule GarbageCollect_refines(1) [OF sim(1)])
  moreover have "il_retIdx ?il = sp_ret S + 1" "length (il_iterObjs ?il) = length (sp_iters S)"
    unfolding GarbageCollect_one [OF assms(2)] by (simp_all add: sim stop_iterators_simps)
  ultimately show ?thesis by (simp add: il_sim_def)
qed

lemma sim_GarbageCollect:
  assumes "il_sim il S"
  shows "il_sim (il_GarbageCollect r il) (S\<lparr>sp_ret := max r (sp_ret S)\<rparr>)"
  using assms
proof (induction r il arbitrary: S rule: il_GarbageCollect.induct)
  case (1 r il)
  have ret: "il_retIdx il = sp_ret S" using 1(2) by (simp add: il_sim_def)
  show ?case
  proof (cases "il_retIdx il < r")
    case True
    let ?il = "il_GarbageCollect (il_retIdx il + 1) il"
    have "il_sim (il_GarbageCollect r ?il) ((S\<lparr>sp_ret := sp_ret S + 1\<rparr>)\<lparr>sp_ret := max r (sp_ret (S\<lparr>sp_ret := sp_ret S + 1\<rparr>))\<rparr>)"
      using 1(1) [OF True, folded GarbageCollect_one [OF True]] sim_GarbageCollect_one [OF 1(2) True] by blast
    moreover have "il_GarbageCollect r il = il_GarbageCollect r ?il"
      using True by (subst il_GarbageCollect.simps) (simp add: GarbageCollect_one [OF True])
    moreover have "max r (sp_ret S + 1) = max r (sp_ret S)"
      using True inc_le [OF True] ret by (simp add: max_absorb1 less_imp_le)
    ultimately show ?thesis by simp
  next
    case False
    then have "il_GarbageCollect r il = il" by (subst il_GarbageCollect.simps) simp
    with False 1(2) ret show ?thesis by (simp add: max_absorb2 not_less)
  qed
qed

lemma il_exec_sim:
  assumes "il_sim il S"
  shows "\<exists>il'. il_exec op il = Inr (il', snd (spec_exec op S)) \<and> il_sim il' (fst (spec_exec op S))"
proof (cases op)
  case (AppendOp kvs)
  then show ?thesis using sim_Append [OF assms] by blast
next
  case (RemoveOp keys)
  then show ?thesis using sim_Remove [OF assms] by blast
next
  case (RemoveSelectedOp sel)
  then show ?thesis using sim_RemoveSelected [OF assms] by blast
next
  case (LookUpOp keys)
  have "il_refines il (sp_pairs S) (\<lambda>i. snd (sp_iters S ! i))" using assms by (simp add: il_sim_def)
  from LookUp_refines [OF this, of keys] show ?thesis using assms LookUpOp by (simp add: Let_def)
next
  case LenOp
  have "il_refines il (sp_pairs S) (\<lambda>i. snd (sp_iters S ! i))" using assms by (simp add: il_sim_def)
  from Len_refines [OF this] show ?thesis using assms LenOp by simp
next
  case (IteratorOp r)
  then show ?thesis using sim_Iterator [OF assms] by blast
next
  case (GarbageCollectOp r)
  then show ?thesis using sim_GarbageCollect [OF assms] by simp
next
  case (NextOp i)
  then show ?thesis using sim_Next [OF assms] by blast
next
  case (NextWhileOp pred i st)
  show ?thesis unfolding NextWhileOp by (rule sim_NextWhile [OF assms])
qed

fun il_run :: "('k, 'v, 's) il_op list \<Rightarrow> ('k, 'v) IndexedList \<Rightarrow> (('k, 'v) IndexedList \<times> ('k, 'v, 's) il_out list) res" where
  "il_run [] il = Inr (il, [])"
| "il_run (op # ops) il = rbind (il_exec op il) (\<lambda>(il, out). rbind (il_run ops il) (\<lambda>(il, outs). Inr (il, out # outs)))"

fun spec_run :: "('k, 'v, 's) il_op list \<Rightarrow> ('k, 'v) il_spec \<Rightarrow> ('k, 'v) il_spec \<times> ('k, 'v, 's) il_out list" where
  "spec_run [] S = (S, [])"
| "spec_run (op # ops) S = (let (S, out) = spec_exec op S; (S, outs) = spec_run ops S in (S, out # outs))"

definition sp_New :: "('k, 'v) il_spec" where
  "sp_New = \<lparr>sp_pairs = [], sp_iters = [], sp_ret = 0\<rparr>"

lemma il_sim_New: "il_sim il_New sp_New"
  by (simp add: il_sim_def sp_New_def New_refines) (simp add: il_New_def)

lemma il_run_sim:
  assumes "il_sim il S"
  shows "\<exists>il'. il_run ops il = Inr (il', snd (spec_run ops S)) \<and> il_sim il' (fst (spec_run ops S))"
  using assms
proof (induction ops arbitrary: il S)
  case (Cons op ops)
  from il_exec_sim [OF Cons(2), of op] obtain il1 where
    "il_exec op il = Inr (il1, snd (spec_exec op S))" "il_sim il1 (fst (spec_exec op S))" by blast
  with Cons(1) [of il1 "fst (spec_exec op S)"] show ?case by (auto simp: Let_def split: prod.split)
qed simp

section \<open>Properties\<close>

text \<open>
  C12: Every sequence of operations on a new indexed list returns without an error (in particular, no loop over
  the linked elements runs for ever and no pointer is dereferenced that is nil), and its results are those
  of the abstract list: a list of pairs without duplicate keys, with iterators that each output the
  pairs that are or become part of the list, in order, skip the pairs that are removed, and stop when
  their retention index is garbage-collected.
\<close>

theorem indexedlist_refinement: "map_sum id snd (il_run ops il_New) = Inr (snd (spec_run ops sp_New))"
  using il_run_sim [OF il_sim_New, of ops] by auto

end
