(* ===== verification/Mempool.thy ===== *)
theory Mempool
  imports BatchFetcher IndexedList
begin

text \<open>
  The mempool (\<open>pkg/mempool/simplemempool\<close>): it stores received transactions and cuts batches of them on
  request, computes transaction and batch identifiers, and looks transactions up by identifier.

  A request to another module carries a context that comes back with the answer; the model puts the context
  itself where the code puts a reference to it, and contexts of other modules are the type parameter \<open>'o\<close>.
  Transaction identifiers are strings of bytes. Counters and sizes are integers. The optional function
  \<open>TxFetcher\<close> has side effects: its result may depend on the number of earlier calls. Log output is left out.
\<close>

section \<open>Data\<close>

type_synonym TxID = bytes

record MpModuleConfig =
  mpc_Self :: ModuleID
  mpc_Hasher :: ModuleID
  mpc_Timer :: ModuleID

record MpModuleParams =
  MaxTransactionsInBatch :: int
  MaxPayloadInBatch :: int
  BatchTimeout :: Duration
  TxFetcher :: "(nat \<Rightarrow> Transaction option list) option"

definition DefaultModuleParams :: MpModuleParams where
  "DefaultModuleParams =
     \<lparr>MaxTransactionsInBatch = 1024, MaxPayloadInBatch = 1024 * 1024, BatchTimeout = 100 * 1000000, TxFetcher = None\<rparr>"

record 'c Origin =
  or_Module :: ModuleID
  or_Context :: 'c

text \<open>What the mempool asks for the identifiers of transactions with: the two types of \<open>requestTxIDsContext\<close>.\<close>

datatype 'o TxIDsContext =
    LocalTxs "Transaction list"
  | LocalTxsFor "Transaction option list" "'o Origin"
  | RemoteContext 'o

datatype 'o MpOutput =
    NewBatch "TxID list" "Transaction option list" "'o Origin"
  | RequestTransactionIDs "Transaction option list" "'o TxIDsContext Origin"
  | TransactionIDsResponse "TxID list" "'o TxIDsContext Origin"
  | BatchIDResponse TxID "'o Origin"
  | TransactionsResponse "TxID list" "Transaction list" "TxID list" "'o Origin"
  | HashTransactions "bytes list list" "'o TxIDsContext Origin"
  | HashBatch "bytes list" "'o Origin"
  | TimerDelay Duration uint64

datatype 'o MpEvent =
    MpNewEpoch EpochNr ClientProgressPb
  | MpNewTransactions "Transaction option list"
  | MpTransactionIDsResponse "TxID list" "'o TxIDsContext"
  | MpRequestBatch EpochNr "'o Origin"
  | MpBatchTimeout uint64
  | MpRequestTransactionIDs "Transaction option list" "'o TxIDsContext Origin"
  | MpTransactionHashes "bytes list" "'o TxIDsContext Origin"
  | MpRequestBatchID "TxID list" "'o Origin"
  | MpBatchHash bytes "'o Origin"
  | MpRequestTransactions "TxID list" "'o Origin"

record 'o MpState =
  mp_Transactions :: "(TxID, Transaction) IndexedList"
  mp_Epoch :: EpochNr
  mp_ClientProgress :: ClientProgress
  mp_TotalPayloadSize :: int
  mp_UnproposedPayloadSize :: int
  mp_NumUnproposed :: int
  mp_Iterator :: nat
  mp_EarlyBatchRequests :: "(EpochNr, 'o Origin list) gomap"
  mp_PendingBatchRequests :: "(int, 'o Origin) gomap"
  mp_FirstPendingBatchReqID :: int
  mp_NextPendingBatchReqID :: int
  mp_fetches :: nat
  mp_out :: "(ModuleID \<times> 'o MpOutput) list"

definition mp_emit :: "ModuleID \<Rightarrow> 'o MpOutput \<Rightarrow> 'o MpState \<Rightarrow> 'o MpState" where
  "mp_emit m out s = s\<lparr>mp_out := mp_out s @ [(m, out)]\<rparr>"

definition MpNew :: "'o MpState" where
  "MpNew =
     (let (txs, it) = il_Iterator 0 il_New
      in \<lparr>mp_Transactions = txs, mp_Epoch = 0, mp_ClientProgress = NewClientProgress, mp_TotalPayloadSize = 0,
          mp_UnproposedPayloadSize = 0, mp_NumUnproposed = 0, mp_Iterator = it, mp_EarlyBatchRequests = [],
          mp_PendingBatchRequests = [], mp_FirstPendingBatchReqID = 0, mp_NextPendingBatchReqID = 0,
          mp_fetches = 0, mp_out = []\<rparr>)"

section \<open>Cutting batches\<close>

definition data_len :: "Transaction \<Rightarrow> int" where
  "data_len tx = int (length (tx_Data tx))"

text \<open>The predicate of \<open>cutBatch\<close>, with the counters it updates: in the batch and in the mempool.\<close>

fun cutBatch_pred ::
  "MpModuleParams \<Rightarrow> TxID \<Rightarrow> Transaction \<Rightarrow> int \<times> int \<times> int \<times> int \<Rightarrow> bool \<times> (int \<times> int \<times> int \<times> int)" where
  "cutBatch_pred params txID tx (txCount, batchSize, numUnproposed, unproposedPayloadSize) =
     (if txCount < MaxTransactionsInBatch params \<and> batchSize + data_len tx \<le> MaxPayloadInBatch params
      then (True, (txCount + 1, batchSize + data_len tx, numUnproposed - 1, unproposedPayloadSize - data_len tx))
      else (False, (txCount, batchSize, numUnproposed, unproposedPayloadSize)))"

definition cutBatch :: "MpModuleParams \<Rightarrow> 'o Origin \<Rightarrow> 'o MpState \<Rightarrow> 'o MpState res" where
  "cutBatch params origin s =
     rbind (it_NextWhile (cutBatch_pred params) (mp_Iterator s) (0, 0, mp_NumUnproposed s, mp_UnproposedPayloadSize s)
              (mp_Transactions s))
       (\<lambda>(il, (_, _, numUnproposed, unproposedPayloadSize), txIDs, txs, _).
          Inr (mp_emit (or_Module origin) (NewBatch txIDs (map Some txs) origin)
                 (s\<lparr>mp_Transactions := il, mp_NumUnproposed := numUnproposed,
                    mp_UnproposedPayloadSize := unproposedPayloadSize\<rparr>)))"

definition storePendingRequest :: "'o Origin \<Rightarrow> 'o MpState \<Rightarrow> 'o MpState \<times> int" where
  "storePendingRequest origin s =
     (let s = s\<lparr>mp_PendingBatchRequests := AList.update (mp_NextPendingBatchReqID s) origin (mp_PendingBatchRequests s),
                mp_NextPendingBatchReqID := mp_NextPendingBatchReqID s + 1\<rparr>
      in (s, mp_NextPendingBatchReqID s - 1))"

definition haveFullBatch :: "MpModuleParams \<Rightarrow> 'o MpState \<Rightarrow> bool" where
  "haveFullBatch params s \<longleftrightarrow>
     MaxTransactionsInBatch params \<le> mp_NumUnproposed s \<or> MaxPayloadInBatch params \<le> mp_UnproposedPayloadSize s"

function advanceFirstPending :: "'o MpState \<Rightarrow> 'o MpState" where
  "advanceFirstPending s =
     (if \<not> mhas (mp_PendingBatchRequests s) (mp_FirstPendingBatchReqID s) \<and> mp_FirstPendingBatchReqID s < mp_NextPendingBatchReqID s
      then advanceFirstPending (s\<lparr>mp_FirstPendingBatchReqID := mp_FirstPendingBatchReqID s + 1\<rparr>)
      else s)"
  by pat_completeness auto
termination
  by (relation "measure (\<lambda>s. nat (mp_NextPendingBatchReqID s - mp_FirstPendingBatchReqID s))") auto

declare advanceFirstPending.simps [simp del]

definition servePendingReq :: "MpModuleParams \<Rightarrow> int \<Rightarrow> 'o MpState \<Rightarrow> 'o MpState res" where
  "servePendingReq params batchReqID s =
     rbind (deref (map_of (mp_PendingBatchRequests s) batchReqID)) (\<lambda>origin.
     rbind (cutBatch params origin s) (\<lambda>s.
       Inr (advanceFirstPending (s\<lparr>mp_PendingBatchRequests := AList.delete batchReqID (mp_PendingBatchRequests s)\<rparr>))))"

definition handleBatchRequest :: "MpModuleConfig \<Rightarrow> MpModuleParams \<Rightarrow> 'o Origin \<Rightarrow> 'o MpState \<Rightarrow> 'o MpState res" where
  "handleBatchRequest mc params origin s =
     (if haveFullBatch params s then cutBatch params origin s
      else let (s, reqID) = storePendingRequest origin s
           in Inr (mp_emit (mpc_Timer mc) (TimerDelay (BatchTimeout params) (word_of_int reqID)) s))"

section \<open>Handlers of the mempool with internal batch formation\<close>

fun handleBatchRequests :: "MpModuleConfig \<Rightarrow> MpModuleParams \<Rightarrow> 'o Origin list \<Rightarrow> 'o MpState \<Rightarrow> 'o MpState res" where
  "handleBatchRequests mc params [] s = Inr s"
| "handleBatchRequests mc params (batchReq # batchReqs) s =
     rbind (handleBatchRequest mc params batchReq s) (handleBatchRequests mc params batchReqs)"

fun processEarlyRequests ::
  "MpModuleConfig \<Rightarrow> MpModuleParams \<Rightarrow> (EpochNr, 'o Origin list) gomap \<Rightarrow> 'o MpState \<Rightarrow> 'o MpState res" where
  "processEarlyRequests mc params [] s = Inr s"
| "processEarlyRequests mc params ((epoch, batchReqs) # entries) s =
     (if epoch < mp_Epoch s
      then processEarlyRequests mc params entries
             (s\<lparr>mp_EarlyBatchRequests := AList.delete epoch (mp_EarlyBatchRequests s)\<rparr>)
      else if epoch = mp_Epoch s
      then rbind (handleBatchRequests mc params batchReqs s) (processEarlyRequests mc params entries)
      else processEarlyRequests mc params entries s)"

definition UponMpNewEpoch ::
  "MpModuleConfig \<Rightarrow> MpModuleParams \<Rightarrow> EpochNr \<Rightarrow> ClientProgressPb \<Rightarrow> 'o MpState \<Rightarrow> 'o MpState res" where
  "UponMpNewEpoch mc params epochNr clientProgress s =
     (let s = s\<lparr>mp_Epoch := epochNr\<rparr>;
          (txs, it) = il_Iterator epochNr (il_GarbageCollect epochNr (mp_Transactions s));
          cp = ClientProgress_LoadPb clientProgress
      in rbind (il_RemoveSelected (\<lambda>txID tx. ClientProgress_Contains cp (tx_ClientId tx) (tx_TxNo tx)) txs)
           (\<lambda>(txs, _, removedTXs).
              let s = s\<lparr>mp_Transactions := txs, mp_Iterator := it, mp_ClientProgress := cp,
                        mp_TotalPayloadSize := fold (\<lambda>tx size. size - data_len tx) removedTXs (mp_TotalPayloadSize s)\<rparr>;
                  s = s\<lparr>mp_NumUnproposed := int (il_Len (mp_Transactions s)), mp_UnproposedPayloadSize := mp_TotalPayloadSize s\<rparr>
              in processEarlyRequests mc params (mp_EarlyBatchRequests s) s))"

fun txs_to_save :: "MpModuleParams \<Rightarrow> Transaction option list \<Rightarrow> Transaction list res" where
  "txs_to_save params [] = Inr []"
| "txs_to_save params (tx # txsReceived) =
     rbind (deref tx) (\<lambda>tx. rbind (txs_to_save params txsReceived) (\<lambda>txsToSave.
       Inr (if data_len tx \<le> MaxPayloadInBatch params then tx # txsToSave else txsToSave)))"

definition UponMpNewTransactions ::
  "MpModuleConfig \<Rightarrow> MpModuleParams \<Rightarrow> Transaction option list \<Rightarrow> 'o MpState \<Rightarrow> 'o MpState res" where
  "UponMpNewTransactions mc params txsReceived s =
     rbind (txs_to_save params txsReceived) (\<lambda>txsToSave.
       if 0 < length txsToSave
       then Inr (mp_emit (mpc_Self mc) (RequestTransactionIDs (map Some txsToSave)
                   \<lparr>or_Module = mpc_Self mc, or_Context = LocalTxs txsToSave\<rparr>) s)
       else Inr s)"

definition count_added :: "Transaction \<Rightarrow> 'o MpState \<Rightarrow> 'o MpState" where
  "count_added tx s =
     (if ClientProgress_Contains (mp_ClientProgress s) (tx_ClientId tx) (tx_TxNo tx) then s
      else s\<lparr>mp_TotalPayloadSize := mp_TotalPayloadSize s + data_len tx,
             mp_UnproposedPayloadSize := mp_UnproposedPayloadSize s + data_len tx,
             mp_NumUnproposed := mp_NumUnproposed s + 1\<rparr>)"

lemma cutBatch_fields:
  assumes "cutBatch params origin s = Inr s'"
  shows "mp_PendingBatchRequests s' = mp_PendingBatchRequests s" "mp_FirstPendingBatchReqID s' = mp_FirstPendingBatchReqID s"
    "mp_NextPendingBatchReqID s' = mp_NextPendingBatchReqID s" "mp_Epoch s' = mp_Epoch s"
    "mp_ClientProgress s' = mp_ClientProgress s" "mp_TotalPayloadSize s' = mp_TotalPayloadSize s"
    "mp_EarlyBatchRequests s' = mp_EarlyBatchRequests s" "mp_Iterator s' = mp_Iterator s" "mp_fetches s' = mp_fetches s"
  using assms by (auto simp: cutBatch_def rbind_eq_Inr mp_emit_def)

lemma advanceFirstPending_fields:
  "mp_PendingBatchRequests (advanceFirstPending s) = mp_PendingBatchRequests s"
  "mp_NextPendingBatchReqID (advanceFirstPending s) = mp_NextPendingBatchReqID s"
  "mp_FirstPendingBatchReqID s \<le> mp_FirstPendingBatchReqID (advanceFirstPending s)"
  "\<not> mhas (mp_PendingBatchRequests s) (mp_FirstPendingBatchReqID s) \<Longrightarrow> mp_FirstPendingBatchReqID s < mp_NextPendingBatchReqID s \<Longrightarrow>
     mp_FirstPendingBatchReqID s < mp_FirstPendingBatchReqID (advanceFirstPending s)"
proof -
  have "mp_PendingBatchRequests (advanceFirstPending s) = mp_PendingBatchRequests s \<and>
      mp_NextPendingBatchReqID (advanceFirstPending s) = mp_NextPendingBatchReqID s \<and>
      mp_FirstPendingBatchReqID s \<le> mp_FirstPendingBatchReqID (advanceFirstPending s)" for s :: "'a MpState"
  proof (induction s rule: advanceFirstPending.induct)
    case (1 s)
    then show ?case by (subst (1 2 3) advanceFirstPending.simps) auto
  qed
  note all = this
  show "mp_PendingBatchRequests (advanceFirstPending s) = mp_PendingBatchRequests s"
    "mp_NextPendingBatchReqID (advanceFirstPending s) = mp_NextPendingBatchReqID s"
    "mp_FirstPendingBatchReqID s \<le> mp_FirstPendingBatchReqID (advanceFirstPending s)" using all [of s] by auto
  assume "\<not> mhas (mp_PendingBatchRequests s) (mp_FirstPendingBatchReqID s)" "mp_FirstPendingBatchReqID s < mp_NextPendingBatchReqID s"
  then show "mp_FirstPendingBatchReqID s < mp_FirstPendingBatchReqID (advanceFirstPending s)"
    using all [of "s\<lparr>mp_FirstPendingBatchReqID := mp_FirstPendingBatchReqID s + 1\<rparr>"] by (subst advanceFirstPending.simps) simp
qed

text \<open>Serving the first pending request moves past it, so the loop that serves requests ends.\<close>

lemma servePendingReq_progress:
  assumes "servePendingReq params (mp_FirstPendingBatchReqID s) s = Inr s'" "mp_FirstPendingBatchReqID s < mp_NextPendingBatchReqID s"
  shows "mp_FirstPendingBatchReqID s < mp_FirstPendingBatchReqID s'" "mp_NextPendingBatchReqID s' = mp_NextPendingBatchReqID s"
proof -
  from assms(1) obtain origin s1 where cut: "cutBatch params origin s = Inr s1"
    and s': "s' = advanceFirstPending (s1\<lparr>mp_PendingBatchRequests := AList.delete (mp_FirstPendingBatchReqID s) (mp_PendingBatchRequests s1)\<rparr>)"
    by (auto simp: servePendingReq_def rbind_eq_Inr)
  note f = cutBatch_fields [OF cut]
  show "mp_FirstPendingBatchReqID s < mp_FirstPendingBatchReqID s'" "mp_NextPendingBatchReqID s' = mp_NextPendingBatchReqID s"
    using advanceFirstPending_fields(2,4) [of "s1\<lparr>mp_PendingBatchRequests := AList.delete (mp_FirstPendingBatchReqID s) (mp_PendingBatchRequests s1)\<rparr>"]
      assms(2) by (auto simp: s' f delete_conv')
qed

function servePending_loop :: "MpModuleParams \<Rightarrow> 'o MpState \<Rightarrow> 'o MpState res" where
  "servePending_loop params s =
     (if haveFullBatch params s \<and> mp_FirstPendingBatchReqID s < mp_NextPendingBatchReqID s
      then case servePendingReq params (mp_FirstPendingBatchReqID s) s of
             Inl e \<Rightarrow> Inl e
           | Inr s' \<Rightarrow> servePending_loop params s'
      else Inr s)"
  by pat_completeness auto
termination
proof (relation "measure (\<lambda>(params, s). nat (mp_NextPendingBatchReqID s - mp_FirstPendingBatchReqID s))", goal_cases)
  case (2 params s s')
  then show ?case using servePendingReq_progress [of params s s'] by simp
qed simp

declare servePending_loop.simps [simp del]

definition UponMpTransactionIDsResponse ::
  "MpModuleParams \<Rightarrow> TxID list \<Rightarrow> Transaction list \<Rightarrow> 'o MpState \<Rightarrow> 'o MpState res" where
  "UponMpTransactionIDsResponse params txIDs txs s =
     rbind (il_Append txIDs txs (mp_Transactions s)) (\<lambda>(il, _, addedTxs).
       servePending_loop params (fold count_added addedTxs (s\<lparr>mp_Transactions := il\<rparr>)))"

definition UponMpRequestBatch :: "MpModuleConfig \<Rightarrow> MpModuleParams \<Rightarrow> EpochNr \<Rightarrow> 'o Origin \<Rightarrow> 'o MpState \<Rightarrow> 'o MpState res" where
  "UponMpRequestBatch mc params epoch origin s =
     (if epoch = mp_Epoch s then handleBatchRequest mc params origin s
      else if mp_Epoch s < epoch
      then Inr (s\<lparr>mp_EarlyBatchRequests := AList.update epoch
                    ((case map_of (mp_EarlyBatchRequests s) epoch of None \<Rightarrow> [] | Some rs \<Rightarrow> rs) @ [origin]) (mp_EarlyBatchRequests s)\<rparr>)
      else Inr s)"

definition UponMpBatchTimeout :: "MpModuleParams \<Rightarrow> uint64 \<Rightarrow> 'o MpState \<Rightarrow> 'o MpState res" where
  "UponMpBatchTimeout params batchReqID s =
     (let reqID = sint batchReqID
      in if mhas (mp_PendingBatchRequests s) reqID then servePendingReq params reqID s else Inr s)"

section \<open>Handlers of the mempool with an external source\<close>

definition UponMpRequestBatchExt ::
  "MpModuleConfig \<Rightarrow> (nat \<Rightarrow> Transaction option list) \<Rightarrow> 'o Origin \<Rightarrow> 'o MpState \<Rightarrow> 'o MpState res" where
  "UponMpRequestBatchExt mc fetchTransactions origin s =
     (let txs = fetchTransactions (mp_fetches s)
      in Inr (mp_emit (mpc_Self mc) (RequestTransactionIDs txs \<lparr>or_Module = mpc_Self mc, or_Context = LocalTxsFor txs origin\<rparr>)
                (s\<lparr>mp_fetches := Suc (mp_fetches s)\<rparr>)))"

definition UponMpTransactionIDsResponseExt ::
  "TxID list \<Rightarrow> Transaction option list \<Rightarrow> 'o Origin \<Rightarrow> 'o MpState \<Rightarrow> 'o MpState res" where
  "UponMpTransactionIDsResponseExt txIDs txs origin s = Inr (mp_emit (or_Module origin) (NewBatch txIDs txs origin) s)"

section \<open>Identifiers and look-up\<close>

definition serializeTXForHash :: "Transaction option \<Rightarrow> bytes list option" where
  "serializeTXForHash tx =
     (case tx of None \<Rightarrow> None | Some tx \<Rightarrow> Some [str_bytes (tx_ClientId tx), Uint64ToBytes (tx_TxNo tx), tx_Data tx])"

fun serialize_txs :: "Transaction option list \<Rightarrow> bytes list list option" where
  "serialize_txs [] = Some []"
| "serialize_txs (tx # txs) =
     (case serializeTXForHash tx of
        None \<Rightarrow> None
      | Some msg \<Rightarrow> (case serialize_txs txs of None \<Rightarrow> None | Some msgs \<Rightarrow> Some (msg # msgs)))"

definition UponMpRequestTransactionIDs ::
  "MpModuleConfig \<Rightarrow> MpModuleParams \<Rightarrow> Transaction option list \<Rightarrow> 'o TxIDsContext Origin \<Rightarrow> 'o MpState \<Rightarrow> 'o MpState" where
  "UponMpRequestTransactionIDs mc params txs origin s =
     (if MaxTransactionsInBatch params < int (length txs) then s
      else case serialize_txs txs of
             None \<Rightarrow> s
           | Some txMsgs \<Rightarrow> mp_emit (mpc_Hasher mc) (HashTransactions txMsgs origin) s)"

definition UponMpTransactionHashes :: "bytes list \<Rightarrow> 'o TxIDsContext Origin \<Rightarrow> 'o MpState \<Rightarrow> 'o MpState" where
  "UponMpTransactionHashes hashes origin s = mp_emit (or_Module origin) (TransactionIDsResponse hashes origin) s"

definition UponMpRequestBatchID :: "MpModuleConfig \<Rightarrow> TxID list \<Rightarrow> 'o Origin \<Rightarrow> 'o MpState \<Rightarrow> 'o MpState" where
  "UponMpRequestBatchID mc txIDs origin s = mp_emit (mpc_Hasher mc) (HashBatch txIDs origin) s"

definition UponMpBatchHash :: "bytes \<Rightarrow> 'o Origin \<Rightarrow> 'o MpState \<Rightarrow> 'o MpState" where
  "UponMpBatchHash h origin s = mp_emit (or_Module origin) (BatchIDResponse h origin) s"

definition UponMpRequestTransactions :: "TxID list \<Rightarrow> 'o Origin \<Rightarrow> 'o MpState \<Rightarrow> 'o MpState" where
  "UponMpRequestTransactions txIDs origin s =
     (let (foundIDs, foundTXs, missingIDs) = il_LookUp (mp_Transactions s) txIDs
      in mp_emit (or_Module origin) (TransactionsResponse foundIDs foundTXs missingIDs origin) s)"

section \<open>The module\<close>

text \<open>
  Which handlers are registered depends on \<open>TxFetcher\<close>. An event without a handler is an error, and an answer
  whose context is not of the type the handler expects is ignored.
\<close>

fun MpApplyEvent :: "MpModuleConfig \<Rightarrow> MpModuleParams \<Rightarrow> 'o MpEvent \<Rightarrow> 'o MpState \<Rightarrow> 'o MpState res" where
  "MpApplyEvent mc params (MpRequestTransactionIDs txs origin) s = Inr (UponMpRequestTransactionIDs mc params txs origin s)"
| "MpApplyEvent mc params (MpTransactionHashes hashes origin) s = Inr (UponMpTransactionHashes hashes origin s)"
| "MpApplyEvent mc params (MpRequestBatchID txIDs origin) s = Inr (UponMpRequestBatchID mc txIDs origin s)"
| "MpApplyEvent mc params (MpBatchHash h origin) s = Inr (UponMpBatchHash h origin s)"
| "MpApplyEvent mc params (MpRequestTransactions txIDs origin) s = Inr (UponMpRequestTransactions txIDs origin s)"
| "MpApplyEvent mc params (MpNewEpoch epochNr cp) s =
     (if TxFetcher params = None then UponMpNewEpoch mc params epochNr cp s else Inl (Error ''unknown event type''))"
| "MpApplyEvent mc params (MpNewTransactions txs) s =
     (if TxFetcher params = None then UponMpNewTransactions mc params txs s else Inl (Error ''unknown event type''))"
| "MpApplyEvent mc params (MpTransactionIDsResponse txIDs context) s =
     (case (TxFetcher params, context) of
        (None, LocalTxs txs) \<Rightarrow> UponMpTransactionIDsResponse params txIDs txs s
      | (Some _, LocalTxsFor txs origin) \<Rightarrow> UponMpTransactionIDsResponseExt txIDs txs origin s
      | _ \<Rightarrow> Inr s)"
| "MpApplyEvent mc params (MpRequestBatch epoch origin) s =
     (case TxFetcher params of
        None \<Rightarrow> UponMpRequestBatch mc params epoch origin s
      | Some fetchTransactions \<Rightarrow> UponMpRequestBatchExt mc fetchTransactions origin s)"
| "MpApplyEvent mc params (MpBatchTimeout batchReqID) s =
     (if TxFetcher params = None then UponMpBatchTimeout params batchReqID s else Inl (Error ''unknown event type''))"

fun MpRun :: "MpModuleConfig \<Rightarrow> MpModuleParams \<Rightarrow> 'o MpEvent list \<Rightarrow> 'o MpState \<Rightarrow> 'o MpState res" where
  "MpRun mc params [] s = Inr s"
| "MpRun mc params (ev # evs) s = rbind (MpApplyEvent mc params ev s) (MpRun mc params evs)"

end
