(* ===== verification/Crypto.thy ===== *)
theory Crypto
  imports GoUtil
begin

text \<open>
  Hashing and signing (\<open>pkg/crypto\<close>): the hasher module, the crypto module and its implementation by RSA and
  ECDSA keys. The cryptographic primitives of the standard library are the fields of a record, and the lemmas
  state what they rely on: a signature made with a private key verifies under the public key that belongs to it.

  A hash object is modelled by the bytes that were written to it, as \<open>hash.Hash\<close> documents.
\<close>

section \<open>The hasher module\<close>

definition hash_Write :: "bytes \<Rightarrow> bytes \<Rightarrow> bytes" where
  "hash_Write h d = h @ d"

fun computeDigests :: "(bytes \<Rightarrow> bytes) \<Rightarrow> bytes list list \<Rightarrow> bytes list" where
  "computeDigests hashSum [] = []"
| "computeDigests hashSum (data # allData) = hashSum (foldl hash_Write [] data) # computeDigests hashSum allData"

datatype 'o HasherEvent =
    HasherInit
  | HashRequest "bytes list list" "ModuleID \<times> 'o"
  | HashRequestOne "bytes list" "ModuleID \<times> 'o"
  | HasherOther

datatype 'o HasherOutput = HashResult "bytes list" "ModuleID \<times> 'o" | HashResultOne bytes "ModuleID \<times> 'o"

fun Hasher_ApplyEvent :: "(bytes \<Rightarrow> bytes) \<Rightarrow> 'o HasherEvent \<Rightarrow> (ModuleID \<times> 'o HasherOutput) list res" where
  "Hasher_ApplyEvent hashSum HasherInit = Inr []"
| "Hasher_ApplyEvent hashSum (HashRequest data origin) =
     Inr [(fst origin, HashResult (computeDigests hashSum data) origin)]"
| "Hasher_ApplyEvent hashSum (HashRequestOne data origin) =
     rbind (index (computeDigests hashSum [data]) 0) (\<lambda>digest. Inr [(fst origin, HashResultOne digest origin)])"
| "Hasher_ApplyEvent hashSum HasherOther = Inl (Error ''unexpected type of Hash event'')"

section \<open>The crypto module\<close>

text \<open>The interface \<open>Crypto\<close>. Signing may be randomised: it gets the number of signatures made before.\<close>

record Crypto =
  crypto_Sign :: "nat \<Rightarrow> bytes list \<Rightarrow> gobytes res"
  crypto_Verify :: "bytes list \<Rightarrow> gobytes \<Rightarrow> NodeID \<Rightarrow> unit res"

datatype 'o CryptoEvent =
    CryptoInit
  | SignRequest "bytes list" "ModuleID \<times> 'o"
  | VerifySigs "bytes list list" "gobytes list" "NodeID list" "ModuleID \<times> 'o"
  | VerifySig "bytes list" gobytes NodeID "ModuleID \<times> 'o"
  | CryptoOther

datatype 'o CryptoOutput =
    SignResult gobytes "ModuleID \<times> 'o"
  | SigsVerified "ModuleID \<times> 'o" "NodeID list" "unit res list" bool
  | SigVerified "ModuleID \<times> 'o" NodeID "unit res"

fun VerifySigs_loop ::
  "Crypto \<Rightarrow> nat \<Rightarrow> bytes list list \<Rightarrow> gobytes list \<Rightarrow> NodeID list \<Rightarrow> unit res list \<Rightarrow> bool \<Rightarrow> (unit res list \<times> bool) res" where
  "VerifySigs_loop c i [] signatures nodeIds errors allOK = Inr (errors, allOK)"
| "VerifySigs_loop c i (d # data) signatures nodeIds errors allOK =
     rbind (index signatures (int i)) (\<lambda>signature.
     rbind (index nodeIds (int i)) (\<lambda>nodeId.
       let err = crypto_Verify c d signature nodeId
       in if is_panic err then Inl (Panic ''verification panics'')
          else VerifySigs_loop c (Suc i) data signatures nodeIds (errors @ [err]) (allOK \<and> is_ok err)))"

fun Crypto_ApplyEvent :: "Crypto \<Rightarrow> nat \<Rightarrow> 'o CryptoEvent \<Rightarrow> (ModuleID \<times> 'o CryptoOutput) list res" where
  "Crypto_ApplyEvent c rnd CryptoInit = Inr []"
| "Crypto_ApplyEvent c rnd (SignRequest data origin) =
     rbind (crypto_Sign c rnd data) (\<lambda>signature. Inr [(fst origin, SignResult signature origin)])"
| "Crypto_ApplyEvent c rnd (VerifySigs data signatures nodeIds origin) =
     rbind (VerifySigs_loop c 0 data signatures nodeIds [] True) (\<lambda>(errors, allOK).
       Inr [(fst origin, SigsVerified origin nodeIds errors allOK)])"
| "Crypto_ApplyEvent c rnd (VerifySig data signature nodeId origin) =
     (let err = crypto_Verify c data signature nodeId
      in if is_panic err then Inl (Panic ''verification panics'') else Inr [(fst origin, SigVerified origin nodeId err)])"
| "Crypto_ApplyEvent c rnd CryptoOther = Inl (Error ''unexpected type of MirModule event'')"

section \<open>The dummy implementation\<close>

definition DummyCrypto_Sign :: "gobytes \<Rightarrow> bytes list \<Rightarrow> gobytes res" where
  "DummyCrypto_Sign dummySig data = Inr dummySig"

definition DummyCrypto_Verify :: "gobytes \<Rightarrow> bytes list \<Rightarrow> gobytes \<Rightarrow> NodeID \<Rightarrow> unit res" where
  "DummyCrypto_Verify dummySig data signature nodeID =
     (if \<not> bytes_Equal signature dummySig then Inl (Error ''dummy signature mismatch'') else Inr ())"

section \<open>The default implementation\<close>

datatype 'k CryptoKey = EcdsaKey 'k | RsaKey 'k | OtherKey

record ('sk, 'pk) CryptoLib =
  lib_Sha256 :: "bytes \<Rightarrow> bytes"
  lib_ParsePKCS8PrivateKey :: "bytes \<Rightarrow> 'sk CryptoKey res"
  lib_ParsePKIXPublicKey :: "bytes \<Rightarrow> 'pk CryptoKey res"
  lib_MarshalPKCS8PrivateKey :: "'sk CryptoKey \<Rightarrow> bytes res"
  lib_MarshalPKIXPublicKey :: "'pk CryptoKey \<Rightarrow> bytes res"
  lib_EcdsaSign :: "nat \<Rightarrow> 'sk \<Rightarrow> bytes \<Rightarrow> (int \<times> int) res"
  lib_EcdsaVerify :: "'pk \<Rightarrow> bytes \<Rightarrow> int \<Rightarrow> int \<Rightarrow> bool"
  lib_RsaSign :: "nat \<Rightarrow> 'sk \<Rightarrow> bytes \<Rightarrow> gobytes res"
  lib_RsaVerify :: "'pk \<Rightarrow> bytes \<Rightarrow> bytes \<Rightarrow> unit res"
  lib_Asn1Marshal :: "int \<times> int \<Rightarrow> gobytes res"
  lib_Asn1Unmarshal :: "bytes \<Rightarrow> (int option \<times> int option) res"

record ('sk, 'pk) DefaultImpl =
  privKey :: "'sk CryptoKey"
  nodeKeys :: "(NodeID, 'pk CryptoKey) gomap"

definition crypto_digest :: "('sk, 'pk) CryptoLib \<Rightarrow> bytes list \<Rightarrow> bytes" where
  "crypto_digest lib data = lib_Sha256 lib (foldl hash_Write [] data)"

fun supported :: "'k CryptoKey \<Rightarrow> bool" where
  "supported (EcdsaKey _) = True"
| "supported (RsaKey _) = True"
| "supported OtherKey = False"

definition privKeyFromBytes :: "('sk, 'pk) CryptoLib \<Rightarrow> bytes \<Rightarrow> 'sk CryptoKey res" where
  "privKeyFromBytes lib raw =
     rbind (lib_ParsePKCS8PrivateKey lib raw) (\<lambda>pk.
       if supported pk then Inr pk else Inl (Error ''unsupported private key type''))"

definition pubKeyFromBytes :: "('sk, 'pk) CryptoLib \<Rightarrow> bytes \<Rightarrow> 'pk CryptoKey res" where
  "pubKeyFromBytes lib raw =
     rbind (lib_ParsePKIXPublicKey lib raw) (\<lambda>pk.
       if supported pk then Inr pk else Inl (Error ''unsupported public key type''))"

definition SerializePubKey :: "('sk, 'pk) CryptoLib \<Rightarrow> 'pk CryptoKey \<Rightarrow> bytes res" where
  "SerializePubKey lib key =
     (if supported key then lib_MarshalPKIXPublicKey lib key else Inl (Error ''unsupported public key type''))"

definition SerializePrivKey :: "('sk, 'pk) CryptoLib \<Rightarrow> 'sk CryptoKey \<Rightarrow> bytes res" where
  "SerializePrivKey lib key =
     (if supported key then lib_MarshalPKCS8PrivateKey lib key else Inl (Error ''unsupported private key type''))"

definition NewDefaultImpl :: "('sk, 'pk) CryptoLib \<Rightarrow> bytes \<Rightarrow> ('sk, 'pk) DefaultImpl res" where
  "NewDefaultImpl lib priv =
     (case privKeyFromBytes lib priv of
        Inl (Panic e) \<Rightarrow> Inl (Panic e)
      | Inl (Error e) \<Rightarrow> Inl (Error ''error parsing private key'')
      | Inr key \<Rightarrow> Inr \<lparr>privKey = key, nodeKeys = []\<rparr>)"

definition RegisterNodeKey :: "('sk, 'pk) CryptoLib \<Rightarrow> bytes \<Rightarrow> NodeID \<Rightarrow> ('sk, 'pk) DefaultImpl \<Rightarrow> ('sk, 'pk) DefaultImpl res" where
  "RegisterNodeKey lib pubKey nodeID c =
     (case pubKeyFromBytes lib pubKey of
        Inl (Panic e) \<Rightarrow> Inl (Panic e)
      | Inl (Error e) \<Rightarrow> Inl (Error ''error parsing node public key'')
      | Inr key \<Rightarrow> Inr (c\<lparr>nodeKeys := AList.update nodeID key (nodeKeys c)\<rparr>))"

definition DeleteNodeKey :: "NodeID \<Rightarrow> ('sk, 'pk) DefaultImpl \<Rightarrow> ('sk, 'pk) DefaultImpl" where
  "DeleteNodeKey nodeID c = c\<lparr>nodeKeys := AList.delete nodeID (nodeKeys c)\<rparr>"

fun registerPubKeys ::
  "('sk, 'pk) CryptoLib \<Rightarrow> int \<Rightarrow> NodeID list \<Rightarrow> bytes list \<Rightarrow> ('sk, 'pk) DefaultImpl \<Rightarrow> ('sk, 'pk) DefaultImpl res" where
  "registerPubKeys lib keyIdx [] nodePubKeys c = Inr c"
| "registerPubKeys lib keyIdx (nodeID # nodes) nodePubKeys c =
     rbind (index nodePubKeys keyIdx) (\<lambda>k.
     rbind (RegisterNodeKey lib k nodeID c) (registerPubKeys lib (keyIdx + 1) nodes nodePubKeys))"

text \<open>The own key is the last one that the list of nodes gives to the own identifier.\<close>

fun own_impl ::
  "('sk, 'pk) CryptoLib \<Rightarrow> int \<Rightarrow> NodeID list \<Rightarrow> NodeID \<Rightarrow> bytes list \<Rightarrow> ('sk, 'pk) DefaultImpl option \<Rightarrow> ('sk, 'pk) DefaultImpl option res" where
  "own_impl lib i [] ownID privKeys c = Inr c"
| "own_impl lib i (nodeID # nodes) ownID privKeys c =
     (if nodeID = ownID
      then rbind (index privKeys i) (\<lambda>k. rbind (NewDefaultImpl lib k) (\<lambda>c. own_impl lib (i + 1) nodes ownID privKeys (Some c)))
      else own_impl lib (i + 1) nodes ownID privKeys c)"

definition InsecureCryptoForTestingOnly ::
  "('sk, 'pk) CryptoLib \<Rightarrow> NodeID list \<Rightarrow> NodeID \<Rightarrow> bytes list \<times> bytes list \<Rightarrow> ('sk, 'pk) DefaultImpl res" where
  "InsecureCryptoForTestingOnly lib nodes ownID keyPairs =
     rbind (own_impl lib 0 nodes ownID (fst keyPairs) None) (\<lambda>c.
       case c of
         None \<Rightarrow> Inl (Error ''ownID not found among nodes'')
       | Some c \<Rightarrow> registerPubKeys lib 0 nodes (snd keyPairs) c)"

definition ecdsaSignatureToBytes :: "('sk, 'pk) CryptoLib \<Rightarrow> int \<Rightarrow> int \<Rightarrow> gobytes res" where
  "ecdsaSignatureToBytes lib r s = lib_Asn1Marshal lib (r, s)"

definition ecdsaSignatureFromBytes :: "('sk, 'pk) CryptoLib \<Rightarrow> bytes \<Rightarrow> (int \<times> int) res" where
  "ecdsaSignatureFromBytes lib raw =
     (case lib_Asn1Unmarshal lib raw of
        Inl (Panic e) \<Rightarrow> Inl (Panic e)
      | Inl (Error e) \<Rightarrow> Inl (Error ''failed unmashalling signature'')
      | Inr (None, _) \<Rightarrow> Inl (Error ''invalid signature, R must be different from nil'')
      | Inr (Some r, None) \<Rightarrow> Inl (Error ''invalid signature, S must be different from nil'')
      | Inr (Some r, Some s) \<Rightarrow>
          (if r \<le> 0 then Inl (Error ''invalid signature, R must be larger than zero'')
           else if s \<le> 0 then Inl (Error ''invalid signature, S must be larger than zero'')
           else Inr (r, s)))"

definition signEcdsa :: "('sk, 'pk) CryptoLib \<Rightarrow> nat \<Rightarrow> 'sk \<Rightarrow> bytes \<Rightarrow> gobytes res" where
  "signEcdsa lib rnd sk h = rbind (lib_EcdsaSign lib rnd sk h) (\<lambda>(r, s). ecdsaSignatureToBytes lib r s)"

definition verifyEcdsaSignature :: "('sk, 'pk) CryptoLib \<Rightarrow> 'pk \<Rightarrow> bytes \<Rightarrow> bytes \<Rightarrow> unit res" where
  "verifyEcdsaSignature lib pk h signature =
     rbind (ecdsaSignatureFromBytes lib signature) (\<lambda>(r, s).
       if \<not> lib_EcdsaVerify lib pk h r s then Inl (Error ''signature verification failed'') else Inr ())"

definition DefaultImpl_Sign :: "('sk, 'pk) CryptoLib \<Rightarrow> ('sk, 'pk) DefaultImpl \<Rightarrow> nat \<Rightarrow> bytes list \<Rightarrow> gobytes res" where
  "DefaultImpl_Sign lib c rnd data =
     (case privKey c of
        RsaKey key \<Rightarrow> lib_RsaSign lib rnd key (crypto_digest lib data)
      | EcdsaKey key \<Rightarrow> signEcdsa lib rnd key (crypto_digest lib data)
      | OtherKey \<Rightarrow> Inl (Error ''unsupported private key type''))"

definition verifySig :: "('sk, 'pk) CryptoLib \<Rightarrow> bytes list \<Rightarrow> gobytes \<Rightarrow> 'pk CryptoKey \<Rightarrow> unit res" where
  "verifySig lib data signature pubKey =
     (case signature of
        None \<Rightarrow> Inl (Error ''signature is nil'')
      | Some sig \<Rightarrow>
          (case pubKey of
             EcdsaKey key \<Rightarrow> verifyEcdsaSignature lib key (crypto_digest lib data) sig
           | RsaKey key \<Rightarrow> lib_RsaVerify lib key (crypto_digest lib data) sig
           | OtherKey \<Rightarrow> Inl (Error ''unsupported public key type'')))"

definition DefaultImpl_Verify :: "('sk, 'pk) CryptoLib \<Rightarrow> ('sk, 'pk) DefaultImpl \<Rightarrow> bytes list \<Rightarrow> gobytes \<Rightarrow> NodeID \<Rightarrow> unit res" where
  "DefaultImpl_Verify lib c data signature nodeID =
     (case map_of (nodeKeys c) nodeID of
        None \<Rightarrow> Inl (Error ''no public key for node'')
      | Some pubKey \<Rightarrow> verifySig lib data signature pubKey)"

definition DefaultCrypto :: "('sk, 'pk) CryptoLib \<Rightarrow> ('sk, 'pk) DefaultImpl \<Rightarrow> Crypto" where
  "DefaultCrypto lib c = \<lparr>crypto_Sign = DefaultImpl_Sign lib c, crypto_Verify = DefaultImpl_Verify lib c\<rparr>"

section \<open>Hashing is of the concatenation\<close>

lemma foldl_hash_Write: "foldl hash_Write h data = h @ concat data"
  by (induction data arbitrary: h) (simp_all add: hash_Write_def)

lemma computeDigests_eq: "computeDigests hashSum allData = map (\<lambda>data. hashSum (concat data)) allData"
  by (induction allData) (simp_all add: foldl_hash_Write)

lemma crypto_digest_eq: "crypto_digest lib data = lib_Sha256 lib (concat data)"
  by (simp add: crypto_digest_def foldl_hash_Write)

section \<open>Signatures that are made verify\<close>

text \<open>The documented behaviour of the libraries for a pair of keys.\<close>

definition ecdsa_pair :: "('sk, 'pk) CryptoLib \<Rightarrow> 'sk \<Rightarrow> 'pk \<Rightarrow> bool" where
  "ecdsa_pair lib sk pk \<longleftrightarrow>
     (\<forall>rnd h. \<exists>r s b. lib_EcdsaSign lib rnd sk h = Inr (r, s) \<and> 0 < r \<and> 0 < s \<and> lib_EcdsaVerify lib pk h r s \<and>
        lib_Asn1Marshal lib (r, s) = Inr (Some b) \<and> lib_Asn1Unmarshal lib b = Inr (Some r, Some s))"

definition rsa_pair :: "('sk, 'pk) CryptoLib \<Rightarrow> 'sk \<Rightarrow> 'pk \<Rightarrow> bool" where
  "rsa_pair lib sk pk \<longleftrightarrow>
     (\<forall>rnd h. \<exists>b. lib_RsaSign lib rnd sk h = Inr (Some b) \<and> lib_RsaVerify lib pk h b = Inr ())"

fun key_pair :: "('sk, 'pk) CryptoLib \<Rightarrow> 'sk CryptoKey \<Rightarrow> 'pk CryptoKey \<Rightarrow> bool" where
  "key_pair lib (EcdsaKey sk) (EcdsaKey pk) = ecdsa_pair lib sk pk"
| "key_pair lib (RsaKey sk) (RsaKey pk) = rsa_pair lib sk pk"
| "key_pair lib _ _ = False"

lemma sign_verify:
  assumes "key_pair lib (privKey signer) pk" "map_of (nodeKeys verifier) nodeID = Some pk" "concat data' = concat data"
  shows "\<exists>sig. DefaultImpl_Sign lib signer rnd data = Inr (Some sig) \<and> DefaultImpl_Verify lib verifier data' (Some sig) nodeID = Inr ()"
proof (cases "(lib, privKey signer, pk)" rule: key_pair.cases)
  case (1 lib' sk pk')
  then obtain r s b where "lib_EcdsaSign lib rnd sk (crypto_digest lib data) = Inr (r, s)" "0 < r" "0 < s"
      "lib_EcdsaVerify lib pk' (crypto_digest lib data) r s" "lib_Asn1Marshal lib (r, s) = Inr (Some b)"
      "lib_Asn1Unmarshal lib b = Inr (Some r, Some s)" using assms(1) by (fastforce simp: ecdsa_pair_def)
  moreover have "crypto_digest lib data' = crypto_digest lib data" by (simp add: crypto_digest_eq assms(3))
  ultimately show ?thesis using 1 assms(2)
    by (simp add: DefaultImpl_Sign_def DefaultImpl_Verify_def signEcdsa_def ecdsaSignatureToBytes_def verifySig_def
        verifyEcdsaSignature_def ecdsaSignatureFromBytes_def)
next
  case (2 lib' sk pk')
  then obtain b where "lib_RsaSign lib rnd sk (crypto_digest lib data) = Inr (Some b)"
      "lib_RsaVerify lib pk' (crypto_digest lib data) b = Inr ()" using assms(1) by (fastforce simp: rsa_pair_def)
  moreover have "crypto_digest lib data' = crypto_digest lib data" by (simp add: crypto_digest_eq assms(3))
  ultimately show ?thesis using 2 assms(2) by (simp add: DefaultImpl_Sign_def DefaultImpl_Verify_def verifySig_def)
qed (use assms(1) in auto)

lemma registerPubKeys_frame:
  assumes "registerPubKeys lib i nodes keys c = Inr c'" "node \<notin> set nodes"
  shows "map_of (nodeKeys c') node = map_of (nodeKeys c) node"
  using assms
proof (induction nodes arbitrary: i c)
  case (Cons m nodes)
  then obtain k c1 where "RegisterNodeKey lib k m c = Inr c1" "registerPubKeys lib (i + 1) nodes keys c1 = Inr c'"
    by (auto simp: rbind_eq_Inr)
  with Cons.IH [of "i + 1" c1] Cons.prems(2) show ?case by (auto simp: RegisterNodeKey_def split: sum.splits goerr.splits)
qed simp

lemma registerPubKeys_lookup:
  assumes "registerPubKeys lib i nodes keys c = Inr c'" "n < length nodes" "distinct nodes" "0 \<le> i"
  shows "\<exists>k pk. index keys (i + int n) = Inr k \<and> pubKeyFromBytes lib k = Inr pk \<and> map_of (nodeKeys c') (nodes ! n) = Some pk"
  using assms
proof (induction nodes arbitrary: i c n)
  case (Cons node nodes)
  from Cons.prems(1) obtain k c1 where k: "index keys i = Inr k" "RegisterNodeKey lib k node c = Inr c1"
      "registerPubKeys lib (i + 1) nodes keys c1 = Inr c'" by (auto simp: rbind_eq_Inr)
  then obtain pk where pk: "pubKeyFromBytes lib k = Inr pk" "map_of (nodeKeys c1) node = Some pk"
    by (auto simp: RegisterNodeKey_def split: sum.splits goerr.splits)
  show ?case
  proof (cases n)
    case 0
    then show ?thesis using k pk registerPubKeys_frame [OF k(3)] Cons.prems(3) by auto
  next
    case (Suc m)
    then show ?thesis using Cons.IH [OF k(3), of m] Cons.prems by (simp add: add.assoc)
  qed
qed simp

lemma RegisterNodeKey_privKey: "RegisterNodeKey lib k node c = Inr c' \<Longrightarrow> privKey c' = privKey c"
  by (auto simp: RegisterNodeKey_def split: sum.splits goerr.splits)

lemma registerPubKeys_privKey: "registerPubKeys lib i nodes keys c = Inr c' \<Longrightarrow> privKey c' = privKey c"
  by (induction nodes arbitrary: i c) (auto simp: rbind_eq_Inr dest: RegisterNodeKey_privKey)

lemma own_impl_key:
  assumes "own_impl lib i nodes ownID keys c = Inr (Some c')" "distinct nodes" "n < length nodes" "nodes ! n = ownID" "0 \<le> i"
  shows "\<exists>k. index keys (i + int n) = Inr k \<and> privKeyFromBytes lib k = Inr (privKey c')"
  using assms
proof (induction nodes arbitrary: i c n)
  case (Cons node nodes)
  have absent: "own_impl lib j ns ownID keys c = Inr c" if "ownID \<notin> set ns" for j ns c
    using that by (induction ns arbitrary: j c) auto
  show ?case
  proof (cases "node = ownID")
    case True
    with Cons.prems have "n = 0" by (cases n) auto
    moreover from True Cons.prems(1,2) obtain k c1 where "index keys i = Inr k" "NewDefaultImpl lib k = Inr c1" "c1 = c'"
      by (auto simp: rbind_eq_Inr absent)
    ultimately show ?thesis by (auto simp: NewDefaultImpl_def split: sum.splits goerr.splits)
  next
    case False
    with Cons.prems obtain m where "n = Suc m" by (cases n) auto
    then show ?thesis using False Cons.IH [of "i + 1" c m] Cons.prems by (simp add: add.assoc)
  qed
qed simp

section \<open>Properties\<close>

text \<open>
  C18: When all nodes are set up with \<open>InsecureCryptoForTestingOnly\<close> from the same list of nodes and the same key
  pairs, what the crypto module of one node signs is verified by the crypto module of every node, whichever
  way the bytes are cut into slices: signatures do not depend on where the slices end.
\<close>

theorem sign_verify_roundtrip:
  assumes "InsecureCryptoForTestingOnly lib nodes (nodes ! i) (privs, pubs) = Inr signer"
    "InsecureCryptoForTestingOnly lib nodes ownID (privs, pubs) = Inr verifier"
    "distinct nodes" "i < length nodes" "i < length privs" "i < length pubs"
    "\<And>sk pk. privKeyFromBytes lib (privs ! i) = Inr sk \<Longrightarrow> pubKeyFromBytes lib (pubs ! i) = Inr pk \<Longrightarrow> key_pair lib sk pk"
    "concat data' = concat data"
  shows "\<exists>sig. Crypto_ApplyEvent (DefaultCrypto lib signer) rnd (SignRequest data (m, ctx)) = Inr [(m, SignResult (Some sig) (m, ctx))] \<and>
    Crypto_ApplyEvent (DefaultCrypto lib verifier) rnd' (VerifySig data' (Some sig) (nodes ! i) (m', ctx')) =
      Inr [(m', SigVerified (m', ctx') (nodes ! i) (Inr ()))]"
proof -
  from assms(1) obtain c where c: "own_impl lib 0 nodes (nodes ! i) privs None = Inr (Some c)" "registerPubKeys lib 0 nodes pubs c = Inr signer"
    by (auto simp: InsecureCryptoForTestingOnly_def rbind_eq_Inr split: option.splits)
  from assms(2) obtain c2 where c2: "registerPubKeys lib 0 nodes pubs c2 = Inr verifier"
    by (auto simp: InsecureCryptoForTestingOnly_def rbind_eq_Inr split: option.splits)
  have "privKeyFromBytes lib (privs ! i) = Inr (privKey signer)"
    using own_impl_key [OF c(1) assms(3,4)] registerPubKeys_privKey [OF c(2)] assms(5) by (auto simp: index_def)
  moreover obtain pk where pk: "pubKeyFromBytes lib (pubs ! i) = Inr pk" "map_of (nodeKeys verifier) (nodes ! i) = Some pk"
    using registerPubKeys_lookup [OF c2 assms(4,3)] assms(6) by (auto simp: index_def)
  ultimately have "key_pair lib (privKey signer) pk" using assms(7) by blast
  from sign_verify [OF this pk(2) assms(8), of rnd] obtain sig where
    "DefaultImpl_Sign lib signer rnd data = Inr (Some sig)" "DefaultImpl_Verify lib verifier data' (Some sig) (nodes ! i) = Inr ()" by blast
  then show ?thesis by (intro exI [of _ sig]) (simp add: DefaultCrypto_def Let_def)
qed

text \<open>A library whose keys are numbers and whose signatures contain the key and the length of the message.\<close>

definition ex_crypto_lib :: "(nat, nat) CryptoLib" where
  "ex_crypto_lib =
     \<lparr>lib_Sha256 = id,
      lib_ParsePKCS8PrivateKey = (\<lambda>b. Inr (EcdsaKey (length b))),
      lib_ParsePKIXPublicKey = (\<lambda>b. Inr (EcdsaKey (length b))),
      lib_MarshalPKCS8PrivateKey = (\<lambda>_. Inr []),
      lib_MarshalPKIXPublicKey = (\<lambda>_. Inr []),
      lib_EcdsaSign = (\<lambda>_ sk h. Inr (int sk + 1, int (length h) + 1)),
      lib_EcdsaVerify = (\<lambda>pk h r s. r = int pk + 1 \<and> s = int (length h) + 1),
      lib_RsaSign = (\<lambda>_ _ _. Inr (Some [])),
      lib_RsaVerify = (\<lambda>_ _ _. Inr ()),
      lib_Asn1Marshal = (\<lambda>(r, s). Inr (Some (replicate (nat r) 1 @ replicate (nat s) 0))),
      lib_Asn1Unmarshal = (\<lambda>b. Inr (Some (int (length (filter (\<lambda>x. x = 1) b))), Some (int (length (filter (\<lambda>x. x = 0) b)))))\<rparr>"

lemma ex_key_pair: "key_pair ex_crypto_lib (EcdsaKey k) (EcdsaKey k)"
  by (simp add: ecdsa_pair_def ex_crypto_lib_def)

theorem sign_verify_roundtrip_witness:
  "\<exists>signer verifier sig.
    Crypto_ApplyEvent (DefaultCrypto ex_crypto_lib signer) 0 (SignRequest [[1], [2, 3]] (''m'', ())) = Inr [(''m'', SignResult (Some sig) (''m'', ()))] \<and>
    Crypto_ApplyEvent (DefaultCrypto ex_crypto_lib verifier) 0 (VerifySig [[1, 2], [3]] (Some sig) ''b'' (''m'', ())) =
      Inr [(''m'', SigVerified (''m'', ()) ''b'' (Inr ()))]"
proof -
  let ?mk = "\<lambda>own. InsecureCryptoForTestingOnly ex_crypto_lib [''a'', ''b''] own ([[1], [1, 1]], [[1], [1, 1]])"
  have "is_ok (?mk ([''a'', ''b''] ! 1))" "is_ok (?mk ''a'')" by code_simp+
  then obtain signer verifier where "?mk ([''a'', ''b''] ! 1) = Inr signer" "?mk ''a'' = Inr verifier"
    by (metis is_ok.elims(2))
  moreover have "key_pair ex_crypto_lib sk pk"
    if "privKeyFromBytes ex_crypto_lib ([[1], [1, 1]] ! 1) = Inr sk" "pubKeyFromBytes ex_crypto_lib ([[1], [1, 1]] ! 1) = Inr pk" for sk pk
  proof -
    from that have "sk = EcdsaKey 2" "pk = EcdsaKey 2" by (auto simp: privKeyFromBytes_def pubKeyFromBytes_def ex_crypto_lib_def)
    then show ?thesis using ex_key_pair by simp
  qed
  ultimately show ?thesis
    using sign_verify_roundtrip [of ex_crypto_lib "[''a'', ''b'']" 1 "[[1], [1, 1]]" "[[1], [1, 1]]" signer "''a''" verifier
        "[[1, 2], [3]]" "[[1], [2, 3]]" 0 "''m''" "()" 0 "''m''" "()"] by fastforce
qed

end
