(* ===== verification/MempoolProperties.thy ===== *)
theory MempoolProperties
  imports Mempool IndexedListProperties Crypto
begin

text \<open>
  Correctness of the mempool. The view of a state is the list of stored transactions and the part of it that has
  not been output in the current epoch; cutting a batch takes a prefix of that part. An invariant over all
  sequences of events gives the limits on batches, that no transaction is output twice in an epoch, that
  pending requests are never lost, and, as long as no delivered transaction arrives, that the counters are
  exact.
\<close>

section \<open>The view of a state\<close>

definition payload :: "('k \<times> Transaction) list \<Rightarrow> int" where
  "payload ps = sum_list (map (\<lambda>p. data_len (snd p)) ps)"

lemma payload_simps [simp]:
  "payload [] = 0" "payload (p # ps) = data_len (snd p) + payload ps" "payload (ps @ qs) = payload ps + payload qs"
  by (simp_all add: payload_def)

lemma data_len_nonneg [simp]: "0 \<le> data_len tx"
  by (simp add: data_len_def)

lemma payload_nonneg [simp]: "0 \<le> payload ps"
  by (induction ps) simp_all

definition mp_view :: "'o MpState \<Rightarrow> (TxID \<times> Transaction) list \<Rightarrow> (TxID \<times> Transaction) list \<Rightarrow> bool \<Rightarrow> bool" where
  "mp_view s xs us l \<longleftrightarrow>
     (\<exists>S. il_sim (mp_Transactions s) S \<and> mp_Iterator s < length (sp_iters S) \<and> sp_pairs S = xs \<and>
        fst (sp_iters S ! mp_Iterator s) = mp_Epoch s \<and> l = (sp_ret S \<le> mp_Epoch s) \<and> us = (if l then snd (sp_iters S ! mp_Iterator s) else []))"

lemma mp_view_cong:
  "mp_Transactions s' = mp_Transactions s \<Longrightarrow> mp_Iterator s' = mp_Iterator s \<Longrightarrow> mp_Epoch s' = mp_Epoch s \<Longrightarrow> mp_view s' = mp_view s"
  by (simp add: mp_view_def fun_eq_iff)

lemma mp_view_distinct: "mp_view s xs us l \<Longrightarrow> distinct (map fst xs)"
  by (auto simp: mp_view_def il_sim_def il_refines_def il_rep_pairs)

text \<open>The predicate of \<open>cutBatch\<close> takes the longest prefix within the limits and keeps count of it.\<close>

definition cut_ok :: "MpModuleParams \<Rightarrow> ('k \<times> Transaction) list \<Rightarrow> ('k \<times> Transaction) list \<Rightarrow> bool" where
  "cut_ok params ts us \<longleftrightarrow>
     (ts = [] \<or> int (length ts) \<le> MaxTransactionsInBatch params \<and> payload ts \<le> MaxPayloadInBatch params) \<and>
     (us = [] \<or> MaxTransactionsInBatch params \<le> int (length ts) \<or> MaxPayloadInBatch params < payload ts + data_len (snd (hd us)))"

lemma take_while_cut:
  assumes "take_while_st (cutBatch_pred params) xs (c, b, n, u) = (ts, us, (c', b', n', u'))"
  shows "xs = ts @ us \<and> c' = c + int (length ts) \<and> b' = b + payload ts \<and> n' = n - int (length ts) \<and> u' = u - payload ts \<and>
    (ts = [] \<or> c' \<le> MaxTransactionsInBatch params \<and> b' \<le> MaxPayloadInBatch params) \<and>
    (us = [] \<or> MaxTransactionsInBatch params \<le> c' \<or> MaxPayloadInBatch params < b' + data_len (snd (hd us)))"
  using assms
proof (induction xs arbitrary: c b n u ts)
  case (Cons x xs)
  obtain k tx where x: "x = (k, tx)" by fastforce
  show ?case
  proof (cases "c < MaxTransactionsInBatch params \<and> b + data_len tx \<le> MaxPayloadInBatch params")
    case True
    then obtain ts' where ts': "ts = x # ts'"
      "take_while_st (cutBatch_pred params) xs (c + 1, b + data_len tx, n - 1, u - data_len tx) = (ts', us, (c', b', n', u'))"
      using Cons.prems by (auto simp: x split: prod.splits)
    from Cons.IH [OF ts'(2)] show ?thesis using True by (auto simp: ts'(1) x)
  next
    case False
    then show ?thesis using Cons.prems by (auto simp: x)
  qed
qed simp

definition batch_out :: "'o Origin \<Rightarrow> (TxID \<times> Transaction) list \<Rightarrow> ModuleID \<times> 'o MpOutput" where
  "batch_out origin ts = (or_Module origin, NewBatch (map fst ts) (map (\<lambda>p. Some (snd p)) ts) origin)"

lemma cutBatch_view:
  assumes "mp_view s xs us l"
  shows "\<exists>il ts us'. us = ts @ us' \<and> cut_ok params ts us' \<and>
    cutBatch params origin s = Inr (s\<lparr>mp_Transactions := il, mp_NumUnproposed := mp_NumUnproposed s - int (length ts),
      mp_UnproposedPayloadSize := mp_UnproposedPayloadSize s - payload ts, mp_out := mp_out s @ [batch_out origin ts]\<rparr>) \<and>
    mp_view (s\<lparr>mp_Transactions := il\<rparr>) xs us' l"
proof -
  from assms obtain S where S: "il_sim (mp_Transactions s) S" "mp_Iterator s < length (sp_iters S)" "sp_pairs S = xs"
      "l = (sp_ret S \<le> fst (sp_iters S ! mp_Iterator s))" "fst (sp_iters S ! mp_Iterator s) = mp_Epoch s" "us = (if l then snd (sp_iters S ! mp_Iterator s) else [])"
    by (auto simp: mp_view_def)
  obtain r vs where rv: "sp_iters S ! mp_Iterator s = (r, vs)" by fastforce
  have len: "mp_Iterator s < length (il_iterObjs (mp_Transactions s))" using S(1,2) by (simp add: il_sim_def)
  let ?st = "(0, 0, mp_NumUnproposed s, mp_UnproposedPayloadSize s)" and ?p = "cutBatch_pred params"
  from sim_NextWhile [OF S(1), of ?p "mp_Iterator s" ?st] obtain il where
    il: "il_exec (NextWhileOp ?p (mp_Iterator s) ?st) (mp_Transactions s) =
        Inr (il, snd (spec_exec (NextWhileOp ?p (mp_Iterator s) ?st) S))"
      "il_sim il (fst (spec_exec (NextWhileOp ?p (mp_Iterator s) ?st) S))" by blast
  show ?thesis
  proof (cases l)
    case True
    then have r: "\<not> r < sp_ret S" "us = vs" using S(4,6) rv by auto
    obtain ts us' c' b' n' u' where t: "take_while_st ?p vs ?st = (ts, us', (c', b', n', u'))" by (metis prod_cases6)
    note cut = take_while_cut [OF t]
    have nw: "it_NextWhile ?p (mp_Iterator s) ?st (mp_Transactions s) = Inr (il, (c', b', n', u'), map fst ts, map snd ts, True)"
      using il(1) len S(2) rv r(1) t by (auto simp: rbind_eq_Inr)
    have sim: "il_sim il (S\<lparr>sp_iters := (sp_iters S)[mp_Iterator s := (r, us')]\<rparr>)" using il(2) S(2) rv r(1) t by simp
    have "mp_view (s\<lparr>mp_Transactions := il\<rparr>) xs us' l"
      unfolding mp_view_def by (rule exI [of _ "S\<lparr>sp_iters := (sp_iters S)[mp_Iterator s := (r, us')]\<rparr>"])
        (use sim S True rv in simp)
    moreover have "cut_ok params ts us'" using cut by (auto simp: cut_ok_def)
    ultimately show ?thesis using cut nw r(2)
      by (intro exI [of _ il] exI [of _ ts] exI [of _ us']) (simp add: cutBatch_def mp_emit_def batch_out_def comp_def)
  next
    case False
    then have r: "r < sp_ret S" "us = []" using S(4,6) rv by auto
    have nw: "it_NextWhile ?p (mp_Iterator s) ?st (mp_Transactions s) = Inr (il, ?st, [], [], False)"
      using il(1) len S(2) rv r(1) by (auto simp: rbind_eq_Inr)
    have sim: "il_sim il S" using il(2) S(2) rv r(1) by simp
    have "mp_view (s\<lparr>mp_Transactions := il\<rparr>) xs [] l"
      unfolding mp_view_def by (rule exI [of _ S]) (use sim S False in simp)
    then show ?thesis using nw r(2)
      by (intro exI [of _ il] exI [of _ "[]"]) (simp add: cutBatch_def mp_emit_def batch_out_def cut_ok_def)
  qed
qed

section \<open>The invariant\<close>

fun batch_ids :: "'o MpOutput \<Rightarrow> TxID list" where
  "batch_ids (NewBatch txIDs txs origin) = txIDs"
| "batch_ids _ = []"

definition output_ids :: "(ModuleID \<times> 'o MpOutput) list \<Rightarrow> TxID list" where
  "output_ids out = concat (map (\<lambda>o'. batch_ids (snd o')) out)"

lemma output_ids_simps [simp]:
  "output_ids [] = []" "output_ids (o' # out) = batch_ids (snd o') @ output_ids out"
  "output_ids (out @ out') = output_ids out @ output_ids out'"
  by (simp_all add: output_ids_def)

text \<open>The limits on a batch; and what the mempool asks identifiers for fits into a batch.\<close>

fun output_ok :: "MpModuleParams \<Rightarrow> 'o MpOutput \<Rightarrow> bool" where
  "output_ok params (NewBatch txIDs txs origin) \<longleftrightarrow>
     (\<exists>ts. txIDs = map fst ts \<and> txs = map (\<lambda>p. Some (snd p)) ts \<and>
        (ts = [] \<or> int (length ts) \<le> MaxTransactionsInBatch params \<and> payload ts \<le> MaxPayloadInBatch params))"
| "output_ok params (RequestTransactionIDs txs origin) \<longleftrightarrow>
     (\<exists>ts. txs = map Some ts \<and> or_Context origin = LocalTxs ts \<and> (\<forall>tx \<in> set ts. data_len tx \<le> MaxPayloadInBatch params))"
| "output_ok params _ \<longleftrightarrow> True"

definition pending_ok :: "MpModuleConfig \<Rightarrow> MpModuleParams \<Rightarrow> 'o MpState \<Rightarrow> bool" where
  "pending_ok mc params s \<longleftrightarrow>
     0 \<le> mp_FirstPendingBatchReqID s \<and> mp_FirstPendingBatchReqID s \<le> mp_NextPendingBatchReqID s \<and>
     (mp_FirstPendingBatchReqID s < mp_NextPendingBatchReqID s \<longrightarrow>
        mhas (mp_PendingBatchRequests s) (mp_FirstPendingBatchReqID s)) \<and>
     (\<forall>k. mhas (mp_PendingBatchRequests s) k \<longrightarrow>
        mp_FirstPendingBatchReqID s \<le> k \<and> k < mp_NextPendingBatchReqID s \<and>
        (mpc_Timer mc, TimerDelay (BatchTimeout params) (word_of_int k)) \<in> set (mp_out s))"

definition exact :: "'o MpState \<Rightarrow> (TxID \<times> Transaction) list \<Rightarrow> (TxID \<times> Transaction) list \<Rightarrow> bool" where
  "exact s xs us \<longleftrightarrow>
     mp_TotalPayloadSize s = payload xs \<and> mp_UnproposedPayloadSize s = payload us \<and> mp_NumUnproposed s = int (length us)"

text \<open>
  The parameters of the invariant are the number of outputs before the epoch began and whether the counters are
  claimed to be exact.
\<close>

definition mp_inv :: "MpModuleConfig \<Rightarrow> MpModuleParams \<Rightarrow> nat \<Rightarrow> bool \<Rightarrow> 'o MpState \<Rightarrow> bool" where
  "mp_inv mc params n acc s \<longleftrightarrow>
     (\<exists>xs us l. mp_view s xs us l \<and> pending_ok mc params s \<and> (\<forall>o' \<in> set (mp_out s). output_ok params (snd o')) \<and>
        (\<forall>p \<in> set xs. data_len (snd p) \<le> MaxPayloadInBatch params) \<and> n \<le> length (mp_out s) \<and>
        (\<exists>ps. output_ids (drop n (mp_out s)) = map fst ps \<and> (if l then ps @ us = xs else ps = [])) \<and>
        (acc \<longrightarrow> l \<and> exact s xs us))"

lemma pending_ok_cong:
  assumes "pending_ok mc params s" "set (mp_out s) \<subseteq> set (mp_out s')"
    "mp_PendingBatchRequests s' = mp_PendingBatchRequests s" "mp_FirstPendingBatchReqID s' = mp_FirstPendingBatchReqID s"
    "mp_NextPendingBatchReqID s' = mp_NextPendingBatchReqID s"
  shows "pending_ok mc params s'"
  using assms by (auto simp: pending_ok_def)

text \<open>Steps that touch neither the stored transactions nor the counters.\<close>

lemma mp_inv_frame:
  assumes "mp_inv mc params n acc s" "mp_Transactions s' = mp_Transactions s" "mp_Iterator s' = mp_Iterator s"
    "mp_Epoch s' = mp_Epoch s" "pending_ok mc params s'" "mp_out s' = mp_out s @ out" "\<forall>o' \<in> set out. output_ok params (snd o')" "output_ids out = []"
    "mp_TotalPayloadSize s' = mp_TotalPayloadSize s" "mp_UnproposedPayloadSize s' = mp_UnproposedPayloadSize s"
    "mp_NumUnproposed s' = mp_NumUnproposed s"
  shows "mp_inv mc params n acc s'"
proof -
  have same: "mp_view s' = mp_view s" "exact s' = exact s" using assms by (auto simp: mp_view_def exact_def fun_eq_iff)
  from assms(1) have "n \<le> length (mp_out s)" by (auto simp: mp_inv_def)
  then have ids: "output_ids (drop n (mp_out s')) = output_ids (drop n (mp_out s))" using assms(6,8) by simp
  have "n \<le> length (mp_out s')" using \<open>n \<le> length (mp_out s)\<close> assms(6) by simp
  moreover have "\<forall>o' \<in> set (mp_out s'). output_ok params (snd o')" using assms(1,6,7) by (auto simp: mp_inv_def)
  ultimately show ?thesis using assms(1,5) unfolding mp_inv_def same ids by blast
qed

lemma cutBatch_inv:
  assumes "mp_inv mc params n acc s"
  shows "\<exists>s' ts. cutBatch params origin s = Inr s' \<and> mp_inv mc params n acc s' \<and> mp_out s' = mp_out s @ [batch_out origin ts]"
proof -
  from assms obtain xs us l ps where inv: "mp_view s xs us l" "pending_ok mc params s" "\<forall>o' \<in> set (mp_out s). output_ok params (snd o')"
      "\<forall>p \<in> set xs. data_len (snd p) \<le> MaxPayloadInBatch params" "n \<le> length (mp_out s)"
      "output_ids (drop n (mp_out s)) = map fst ps" "if l then ps @ us = xs else ps = []" "acc \<longrightarrow> l \<and> exact s xs us"
    by (auto simp: mp_inv_def)
  from cutBatch_view [OF inv(1), of params origin] obtain il ts us' where
    cut: "us = ts @ us'" "cut_ok params ts us'" "mp_view (s\<lparr>mp_Transactions := il\<rparr>) xs us' l"
    and res: "cutBatch params origin s = Inr (s\<lparr>mp_Transactions := il, mp_NumUnproposed := mp_NumUnproposed s - int (length ts),
      mp_UnproposedPayloadSize := mp_UnproposedPayloadSize s - payload ts, mp_out := mp_out s @ [batch_out origin ts]\<rparr>)" (is "_ = Inr ?s")
    by blast
  have "mp_view ?s = mp_view (s\<lparr>mp_Transactions := il\<rparr>)" by (rule mp_view_cong) simp_all
  with cut(3) have view: "mp_view ?s xs us' l" by simp
  have "pending_ok mc params ?s" by (rule pending_ok_cong [OF inv(2)]) auto
  moreover have "\<forall>o' \<in> set (mp_out ?s). output_ok params (snd o')" using inv(3) cut(2) by (auto simp: batch_out_def cut_ok_def)
  moreover have "\<exists>ps. output_ids (drop n (mp_out ?s)) = map fst ps \<and> (if l then ps @ us' = xs else ps = [])"
  proof (intro exI [of _ "if l then ps @ ts else []"] conjI)
    have "\<not> l \<Longrightarrow> ts = []" using inv(1) cut(1) by (auto simp: mp_view_def)
    then show "output_ids (drop n (mp_out ?s)) = map fst (if l then ps @ ts else [])" using inv(5,6,7) by (auto simp: batch_out_def)
  qed (use inv(7) cut(1) in auto)
  moreover have "acc \<longrightarrow> l \<and> exact ?s xs us'" using inv(8) cut(1) by (auto simp: exact_def)
  ultimately have "mp_inv mc params n acc ?s" using view inv(4,5) unfolding mp_inv_def by fastforce
  then show ?thesis using res by (intro exI [of _ ?s] exI [of _ ts]) simp
qed

lemma advance_ok:
  assumes "mp_FirstPendingBatchReqID s \<le> mp_NextPendingBatchReqID s"
    "\<forall>k. mhas (mp_PendingBatchRequests s) k \<longrightarrow> mp_FirstPendingBatchReqID s \<le> k \<and> k < mp_NextPendingBatchReqID s \<and> Q k"
  shows "\<exists>f. advanceFirstPending s = s\<lparr>mp_FirstPendingBatchReqID := f\<rparr> \<and> mp_FirstPendingBatchReqID s \<le> f \<and> f \<le> mp_NextPendingBatchReqID s \<and>
    (f < mp_NextPendingBatchReqID s \<longrightarrow> mhas (mp_PendingBatchRequests s) f) \<and>
    (\<forall>k. mhas (mp_PendingBatchRequests s) k \<longrightarrow> f \<le> k \<and> k < mp_NextPendingBatchReqID s \<and> Q k)"
  using assms
proof (induction s rule: advanceFirstPending.induct)
  case (1 s)
  show ?case
  proof (cases "\<not> mhas (mp_PendingBatchRequests s) (mp_FirstPendingBatchReqID s) \<and> mp_FirstPendingBatchReqID s < mp_NextPendingBatchReqID s")
    case True
    let ?s = "s\<lparr>mp_FirstPendingBatchReqID := mp_FirstPendingBatchReqID s + 1\<rparr>"
    have le: "mp_FirstPendingBatchReqID ?s \<le> mp_NextPendingBatchReqID ?s" using True by simp
    have all: "\<forall>k. mhas (mp_PendingBatchRequests ?s) k \<longrightarrow> mp_FirstPendingBatchReqID ?s \<le> k \<and> k < mp_NextPendingBatchReqID ?s \<and> Q k"
    proof (intro allI impI)
      fix k assume k: "mhas (mp_PendingBatchRequests ?s) k"
      with True have "k \<noteq> mp_FirstPendingBatchReqID s" by auto
      with k 1(3) show "mp_FirstPendingBatchReqID ?s \<le> k \<and> k < mp_NextPendingBatchReqID ?s \<and> Q k" by fastforce
    qed
    have eq: "advanceFirstPending s = advanceFirstPending ?s" using True by (subst advanceFirstPending.simps) simp
    from 1(1) [OF True le all] obtain f where "advanceFirstPending ?s = ?s\<lparr>mp_FirstPendingBatchReqID := f\<rparr>"
      "mp_FirstPendingBatchReqID s + 1 \<le> f" "f \<le> mp_NextPendingBatchReqID s"
      "f < mp_NextPendingBatchReqID s \<longrightarrow> mhas (mp_PendingBatchRequests s) f"
      "\<forall>k. mhas (mp_PendingBatchRequests s) k \<longrightarrow> f \<le> k \<and> k < mp_NextPendingBatchReqID s \<and> Q k" by auto
    then show ?thesis unfolding eq by (intro exI [of _ f]) simp
  next
    case False
    then have "advanceFirstPending s = s" by (subst advanceFirstPending.simps) auto
    with False 1(2,3) show ?thesis by (intro exI [of _ "mp_FirstPendingBatchReqID s"]) auto
  qed
qed

lemma servePendingReq_inv:
  assumes "mp_inv mc params n acc s" "map_of (mp_PendingBatchRequests s) k = Some origin"
  shows "\<exists>s' ts. servePendingReq params k s = Inr s' \<and> mp_inv mc params n acc s' \<and> mp_out s' = mp_out s @ [batch_out origin ts] \<and>
    map_of (mp_PendingBatchRequests s') = (map_of (mp_PendingBatchRequests s))(k := None)"
proof -
  from cutBatch_inv [OF assms(1), of origin] obtain s1 ts where
    s1: "cutBatch params origin s = Inr s1" "mp_inv mc params n acc s1" "mp_out s1 = mp_out s @ [batch_out origin ts]" by blast
  let ?s = "s1\<lparr>mp_PendingBatchRequests := AList.delete k (mp_PendingBatchRequests s1)\<rparr>"
  have pend: "pending_ok mc params s1" using s1(2) by (auto simp: mp_inv_def)
  have "\<exists>f. advanceFirstPending ?s = ?s\<lparr>mp_FirstPendingBatchReqID := f\<rparr> \<and> mp_FirstPendingBatchReqID ?s \<le> f \<and> f \<le> mp_NextPendingBatchReqID ?s \<and>
    (f < mp_NextPendingBatchReqID ?s \<longrightarrow> mhas (mp_PendingBatchRequests ?s) f) \<and>
    (\<forall>k. mhas (mp_PendingBatchRequests ?s) k \<longrightarrow> f \<le> k \<and> k < mp_NextPendingBatchReqID ?s \<and>
      (mpc_Timer mc, TimerDelay (BatchTimeout params) (word_of_int k)) \<in> set (mp_out ?s))"
    by (rule advance_ok) (use pend in \<open>auto simp: pending_ok_def delete_conv' split: if_splits\<close>)
  then obtain f where f: "advanceFirstPending ?s = ?s\<lparr>mp_FirstPendingBatchReqID := f\<rparr>"
      and first: "mp_FirstPendingBatchReqID s1 \<le> f" "f \<le> mp_NextPendingBatchReqID s1"
        "f < mp_NextPendingBatchReqID s1 \<longrightarrow> mhas (mp_PendingBatchRequests ?s) f"
        "\<forall>k. mhas (mp_PendingBatchRequests ?s) k \<longrightarrow> f \<le> k \<and> k < mp_NextPendingBatchReqID s1 \<and>
          (mpc_Timer mc, TimerDelay (BatchTimeout params) (word_of_int k)) \<in> set (mp_out s1)" by (elim exE conjE) simp
  have "0 \<le> f" using pend first(1) by (simp add: pending_ok_def)
  then have pend': "pending_ok mc params (?s\<lparr>mp_FirstPendingBatchReqID := f\<rparr>)" unfolding pending_ok_def using first by simp
  have "mp_inv mc params n acc (?s\<lparr>mp_FirstPendingBatchReqID := f\<rparr>)"
    by (rule mp_inv_frame [OF s1(2) _ _ _ pend', of "[]"]) simp_all
  moreover have "servePendingReq params k s = Inr (?s\<lparr>mp_FirstPendingBatchReqID := f\<rparr>)"
    using assms(2) s1(1) f by (simp add: servePendingReq_def deref_def)
  ultimately show ?thesis using s1(3) cutBatch_fields(1) [OF s1(1)] by (auto simp: delete_conv' fun_eq_iff)
qed

lemma handleBatchRequest_inv:
  assumes "mp_inv mc params n acc s"
  shows "\<exists>s'. handleBatchRequest mc params origin s = Inr s' \<and> mp_inv mc params n acc s'"
proof (cases "haveFullBatch params s")
  case True
  then show ?thesis using cutBatch_inv [OF assms, of origin] by (auto simp: handleBatchRequest_def)
next
  case False
  let ?s = "fst (storePendingRequest origin s)" and ?k = "snd (storePendingRequest origin s)"
  let ?s' = "mp_emit (mpc_Timer mc) (TimerDelay (BatchTimeout params) (word_of_int ?k)) ?s"
  have "pending_ok mc params s" using assms by (auto simp: mp_inv_def)
  then have "pending_ok mc params ?s'"
    by (fastforce simp: pending_ok_def mp_emit_def storePendingRequest_def Let_def)
  then have "mp_inv mc params n acc ?s'"
    by (rule mp_inv_frame [OF assms, rotated 3,
          of _ "[(mpc_Timer mc, TimerDelay (BatchTimeout params) (word_of_int (mp_NextPendingBatchReqID s)))]"])
      (simp_all add: mp_emit_def storePendingRequest_def Let_def)
  then show ?thesis using False by (auto simp: handleBatchRequest_def case_prod_unfold Let_def)
qed

lemma handleBatchRequests_inv:
  assumes "mp_inv mc params n acc s"
  shows "\<exists>s'. handleBatchRequests mc params reqs s = Inr s' \<and> mp_inv mc params n acc s'"
  using assms
proof (induction reqs arbitrary: s)
  case (Cons req reqs)
  from handleBatchRequest_inv [OF Cons(2), of req] obtain s1 where
    "handleBatchRequest mc params req s = Inr s1" "mp_inv mc params n acc s1" by blast
  then show ?case using Cons(1) by simp
qed simp

lemma processEarlyRequests_inv:
  assumes "mp_inv mc params n acc s"
  shows "\<exists>s'. processEarlyRequests mc params entries s = Inr s' \<and> mp_inv mc params n acc s'"
  using assms
proof (induction mc params entries s rule: processEarlyRequests.induct)
  case (2 mc params epoch reqs entries s)
  consider "epoch < mp_Epoch s" | "\<not> epoch < mp_Epoch s" "epoch = mp_Epoch s" | "\<not> epoch < mp_Epoch s" "epoch \<noteq> mp_Epoch s" by blast
  then show ?case
  proof cases
    case 1
    let ?s = "s\<lparr>mp_EarlyBatchRequests := AList.delete epoch (mp_EarlyBatchRequests s)\<rparr>"
    have "pending_ok mc params ?s" using 2(4) by (auto simp: mp_inv_def pending_ok_def)
    then have "mp_inv mc params n acc ?s" by (rule mp_inv_frame [OF 2(4), rotated 3, of _ "[]"]) simp_all
    from 2(1) [OF 1 this] show ?thesis using 1 by simp
  next
    case 2
    from handleBatchRequests_inv [OF \<open>mp_inv mc params n acc s\<close>, of reqs] obtain s1 where
      "handleBatchRequests mc params reqs s = Inr s1" "mp_inv mc params n acc s1" by blast
    with "2.IH"(2) [OF 2] 2 show ?thesis by simp
  next
    case 3
    with "2.IH"(3) [OF 3 \<open>mp_inv mc params n acc s\<close>] show ?thesis by simp
  qed
qed simp

lemma servePending_loop_inv:
  assumes "mp_inv mc params n acc s"
  shows "\<exists>s'. servePending_loop params s = Inr s' \<and> mp_inv mc params n acc s'"
  using assms
proof (induction params s rule: servePending_loop.induct)
  case (1 params s)
  show ?case
  proof (cases "haveFullBatch params s \<and> mp_FirstPendingBatchReqID s < mp_NextPendingBatchReqID s")
    case True
    with 1(2) obtain origin where "map_of (mp_PendingBatchRequests s) (mp_FirstPendingBatchReqID s) = Some origin"
      by (auto simp: mp_inv_def pending_ok_def)
    from servePendingReq_inv [OF 1(2) this] obtain s1 where
      s1: "servePendingReq params (mp_FirstPendingBatchReqID s) s = Inr s1" "mp_inv mc params n acc s1" by blast
    from 1(1) [OF True s1] True s1(1) show ?thesis by (subst servePending_loop.simps) simp
  next
    case False
    then have "servePending_loop params s = Inr s" by (subst servePending_loop.simps) auto
    with 1(2) show ?thesis by simp
  qed
qed

lemma count_added_result:
  "\<exists>t u m. fold count_added txs s = s\<lparr>mp_TotalPayloadSize := t, mp_UnproposedPayloadSize := u, mp_NumUnproposed := m\<rparr> \<and>
    ((\<forall>tx \<in> set txs. \<not> ClientProgress_Contains (mp_ClientProgress s) (tx_ClientId tx) (tx_TxNo tx)) \<longrightarrow>
      t = mp_TotalPayloadSize s + sum_list (map data_len txs) \<and> u = mp_UnproposedPayloadSize s + sum_list (map data_len txs) \<and>
      m = mp_NumUnproposed s + int (length txs))"
proof (induction txs arbitrary: s)
  case Nil
  then show ?case 
    by (rule exI [of _ "mp_TotalPayloadSize s"], rule exI [of _ "mp_UnproposedPayloadSize s"], rule exI [of _ "mp_NumUnproposed s"]) simp
next
  case (Cons tx txs)
  show ?case
  proof (cases "ClientProgress_Contains (mp_ClientProgress s) (tx_ClientId tx) (tx_TxNo tx)")
    case True
    then show ?thesis using Cons [of s] by (auto simp: count_added_def)
  next
    case False
    let ?s = "count_added tx s"
    have "mp_ClientProgress ?s = mp_ClientProgress s" by (simp add: count_added_def)
    with Cons [of ?s] obtain t u m where
      "fold count_added txs ?s = ?s\<lparr>mp_TotalPayloadSize := t, mp_UnproposedPayloadSize := u, mp_NumUnproposed := m\<rparr>"
      "(\<forall>tx \<in> set txs. \<not> ClientProgress_Contains (mp_ClientProgress s) (tx_ClientId tx) (tx_TxNo tx)) \<longrightarrow>
        t = mp_TotalPayloadSize ?s + sum_list (map data_len txs) \<and> u = mp_UnproposedPayloadSize ?s + sum_list (map data_len txs) \<and>
        m = mp_NumUnproposed ?s + int (length txs)" by auto
    then show ?thesis using False
      by - (rule exI [of _ t], rule exI [of _ u], rule exI [of _ m], simp add: count_added_def [of tx s])
  qed
qed

section \<open>Events\<close>

lemma new_pairs_subset: "set (new_pairs xs kvs) \<subseteq> set kvs"
  by (induction xs kvs rule: new_pairs.induct) auto

lemma Append_view:
  assumes "mp_view s xs us l" "length ids = length txs"
  defines "new \<equiv> new_pairs xs (zip ids txs)"
  shows "\<exists>il. il_Append ids txs (mp_Transactions s) = Inr (il, map fst new, map snd new) \<and>
    mp_view (s\<lparr>mp_Transactions := il\<rparr>) (xs @ new) (if l then us @ new else []) l"
proof -
  from assms(1) obtain S where S: "il_sim (mp_Transactions s) S" "mp_Iterator s < length (sp_iters S)" "sp_pairs S = xs"
      "fst (sp_iters S ! mp_Iterator s) = mp_Epoch s" "l = (sp_ret S \<le> mp_Epoch s)" "us = (if l then snd (sp_iters S ! mp_Iterator s) else [])"
    by (auto simp: mp_view_def)
  have kvs: "map fst (zip ids txs) = ids" "map snd (zip ids txs) = txs" using assms(2) by simp_all
  from sim_Append [OF S(1), of "zip ids txs"] obtain il where
    il: "il_Append ids txs (mp_Transactions s) = Inr (il, map fst new, map snd new)"
      "il_sim il (fst (spec_exec (AppendOp (zip ids txs)) S))"
    unfolding il_exec.simps kvs by (auto simp: rbind_eq_Inr Let_def S(3) new_def)
  have "mp_view (s\<lparr>mp_Transactions := il\<rparr>) (xs @ new) (if l then us @ new else []) l"
    unfolding mp_view_def by (rule exI [of _ "fst (spec_exec (AppendOp (zip ids txs)) S)"])
      (use il(2) S in \<open>auto simp: Let_def new_def split: prod.split\<close>)
  with il(1) show ?thesis by blast
qed

lemma TransactionIDsResponse_inv:
  assumes "mp_inv mc params n acc s" "length ids = length txs" "\<forall>tx \<in> set txs. data_len tx \<le> MaxPayloadInBatch params"
    "acc' \<Longrightarrow> acc \<and> (\<forall>tx \<in> set txs. \<not> ClientProgress_Contains (mp_ClientProgress s) (tx_ClientId tx) (tx_TxNo tx))"
  shows "\<exists>s'. UponMpTransactionIDsResponse params ids txs s = Inr s' \<and> mp_inv mc params n acc' s'"
proof -
  from assms(1) obtain xs us l ps where inv: "mp_view s xs us l" "pending_ok mc params s" "\<forall>o' \<in> set (mp_out s). output_ok params (snd o')"
      "\<forall>p \<in> set xs. data_len (snd p) \<le> MaxPayloadInBatch params" "n \<le> length (mp_out s)"
      "output_ids (drop n (mp_out s)) = map fst ps" "if l then ps @ us = xs else ps = []" "acc \<longrightarrow> l \<and> exact s xs us"
    by (auto simp: mp_inv_def)
  define new where "new = new_pairs xs (zip ids txs)"
  from Append_view [OF inv(1) assms(2)] obtain il where
    il: "il_Append ids txs (mp_Transactions s) = Inr (il, map fst new, map snd new)"
      "mp_view (s\<lparr>mp_Transactions := il\<rparr>) (xs @ new) (if l then us @ new else []) l" unfolding new_def by blast
  have new: "set (map snd new) \<subseteq> set txs" 
    using set_zip_rightD new_pairs_subset [of xs "zip ids txs"] by (fastforce simp: new_def)
  from count_added_result [of "map snd new" "s\<lparr>mp_Transactions := il\<rparr>"] obtain t u m where
    fold: "fold count_added (map snd new) (s\<lparr>mp_Transactions := il\<rparr>) =
      s\<lparr>mp_Transactions := il, mp_TotalPayloadSize := t, mp_UnproposedPayloadSize := u, mp_NumUnproposed := m\<rparr>" (is "_ = ?s")
    and cnt: "(\<forall>tx \<in> set (map snd new). \<not> ClientProgress_Contains (mp_ClientProgress s) (tx_ClientId tx) (tx_TxNo tx)) \<longrightarrow>
      t = mp_TotalPayloadSize s + payload new \<and> u = mp_UnproposedPayloadSize s + payload new \<and> m = mp_NumUnproposed s + int (length new)"
    by (auto simp: payload_def comp_def)
  have cnt': "t = mp_TotalPayloadSize s + payload new \<and> u = mp_UnproposedPayloadSize s + payload new \<and> m = mp_NumUnproposed s + int (length new)"
    if acc' using cnt assms(4) [OF that] new by blast
  have "mp_view ?s = mp_view (s\<lparr>mp_Transactions := il\<rparr>)" by (rule mp_view_cong) simp_all
  with il(2) have "mp_view ?s (xs @ new) (if l then us @ new else []) l" by simp
  moreover have "pending_ok mc params ?s" by (rule pending_ok_cong [OF inv(2)]) simp_all
  moreover have "\<forall>p \<in> set (xs @ new). data_len (snd p) \<le> MaxPayloadInBatch params" using inv(4) new assms(3) by auto
  moreover have "acc' \<longrightarrow> l \<and> exact ?s (xs @ new) (if l then us @ new else [])"
    using cnt' inv(8) assms(4) by (auto simp: exact_def)
  moreover have "if l then ps @ (if l then us @ new else []) = xs @ new else ps = []" using inv(7) by auto
  ultimately have "mp_inv mc params n acc' ?s" using inv(3,5,6) unfolding mp_inv_def by fastforce
  from servePending_loop_inv [OF this] show ?thesis using il(1) fold by (simp add: UponMpTransactionIDsResponse_def)
qed

lemma filter_removed_keys:
  assumes "distinct (map fst xs)"
  shows "filter (\<lambda>p. fst p \<notin> fst ` set (filter P xs)) xs = filter (\<lambda>p. \<not> P p) xs"
proof (rule filter_cong [OF refl])
  fix p assume p: "p \<in> set xs"
  have "fst p \<in> fst ` set (filter P xs) \<longleftrightarrow> P p"
  proof
    assume "fst p \<in> fst ` set (filter P xs)"
    then obtain q where "q \<in> set xs" "P q" "fst q = fst p" by auto
    with p assms show "P p" by (metis distinct_map inj_onD)
  qed (use p in auto)
  then show "(fst p \<notin> fst ` set (filter P xs)) = (\<not> P p)" by simp
qed

lemma payload_filter: "payload (filter (\<lambda>p. \<not> P p) xs) = payload xs - sum_list (map (\<lambda>p. data_len (snd p)) (filter P xs))"
  by (induction xs) auto

text \<open>The new epoch starts with a view in which all that is left is to be output.\<close>

lemma NewEpoch_view:
  fixes sel :: "TxID \<Rightarrow> Transaction \<Rightarrow> bool"
  assumes "mp_view s xs us l"
  defines "keep \<equiv> filter (\<lambda>p. \<not> sel (fst p) (snd p)) xs" and "gone \<equiv> filter (\<lambda>p. sel (fst p) (snd p)) xs"
  shows "\<exists>il it il' l'. il_Iterator e (il_GarbageCollect e (mp_Transactions s)) = (il, it) \<and>
    il_RemoveSelected sel il = Inr (il', map fst gone, map snd gone) \<and> il_Len il' = length keep \<and>
    mp_view (s\<lparr>mp_Epoch := e, mp_Transactions := il', mp_Iterator := it\<rparr>) keep (if l' then keep else []) l' \<and>
    (l \<and> mp_Epoch s \<le> e \<longrightarrow> l')"
proof -
  from assms(1) obtain S where S: "il_sim (mp_Transactions s) S" "sp_pairs S = xs" "l = (sp_ret S \<le> mp_Epoch s)"
    by (auto simp: mp_view_def)
  let ?S1 = "S\<lparr>sp_ret := max e (sp_ret S)\<rparr>"
  let ?S2 = "?S1\<lparr>sp_iters := sp_iters S @ [(e, xs)]\<rparr>"
  let ?S3 = "fst (spec_exec (RemoveSelectedOp sel :: (TxID, Transaction, unit) il_op) ?S2)"
  note S1 = sim_GarbageCollect [OF S(1), of e]
  from sim_Iterator [OF S1, of e] obtain il where
    il: "il_Iterator e (il_GarbageCollect e (mp_Transactions s)) = (il, length (sp_iters S))" "il_sim il ?S2"
    using S(2) by (auto split: prod.splits)
  from sim_RemoveSelected [OF il(2), of sel, where 'c = unit] obtain il' where
    il': "il_RemoveSelected sel il = Inr (il', map fst gone, map snd gone)" "il_sim il' ?S3"
    using S(2) by (auto simp: rbind_eq_Inr Let_def gone_def)
  have dist: "distinct (map fst xs)" by (rule mp_view_distinct [OF assms(1)])
  have keep: "filter (\<lambda>p. fst p \<notin> fst ` set gone) xs = keep"
    unfolding gone_def keep_def by (rule filter_removed_keys [OF dist])
  have pairs: "sp_pairs ?S3 = keep" using S(2) by (simp add: Let_def keep_def)
  have iter: "sp_iters ?S3 ! length (sp_iters S) = (e, keep)"
    using S(2) keep by (simp add: Let_def nth_append gone_def)
  have len: "length (sp_iters ?S3) = Suc (length (sp_iters S))" and ret: "sp_ret ?S3 = max e (sp_ret S)" by (simp_all add: Let_def)
  have "il_refines il' (sp_pairs ?S3) (\<lambda>i. snd (sp_iters ?S3 ! i))" using il'(2) unfolding il_sim_def by blast
  from Len_refines [OF this] have "il_Len il' = length keep" unfolding pairs .
  moreover have "mp_view (s\<lparr>mp_Epoch := e, mp_Transactions := il', mp_Iterator := length (sp_iters S)\<rparr>) keep
      (if sp_ret ?S3 \<le> e then keep else []) (sp_ret ?S3 \<le> e)"
    unfolding mp_view_def by (rule exI [of _ ?S3]) (use il'(2) pairs iter len in simp)
  moreover have "l \<and> mp_Epoch s \<le> e \<longrightarrow> sp_ret ?S3 \<le> e" using S(3) ret by auto
  ultimately show ?thesis using il(1) il'(1) by blast
qed

lemma fold_minus: "fold (\<lambda>tx size. size - data_len tx) txs t = t - sum_list (map data_len txs)"
  by (induction txs arbitrary: t) auto

lemma NewEpoch_inv:
  assumes "mp_inv mc params n acc s" "acc' \<Longrightarrow> acc \<and> mp_Epoch s \<le> e"
  shows "\<exists>s'. UponMpNewEpoch mc params e cp s = Inr s' \<and> mp_inv mc params (length (mp_out s)) acc' s'"
proof -
  from assms(1) obtain xs us l where inv: "mp_view s xs us l" "pending_ok mc params s" "\<forall>o' \<in> set (mp_out s). output_ok params (snd o')"
      "\<forall>p \<in> set xs. data_len (snd p) \<le> MaxPayloadInBatch params" "acc \<longrightarrow> l \<and> exact s xs us"
    by (auto simp: mp_inv_def)
  define sel :: "TxID \<Rightarrow> Transaction \<Rightarrow> bool" where
    "sel = (\<lambda>txID tx. ClientProgress_Contains (ClientProgress_LoadPb cp) (tx_ClientId tx) (tx_TxNo tx))"
  define keep gone where "keep = filter (\<lambda>p. \<not> sel (fst p) (snd p)) xs" and "gone = filter (\<lambda>p. sel (fst p) (snd p)) xs"
  from NewEpoch_view [OF inv(1), of e sel] obtain il it il' l' where
    il: "il_Iterator e (il_GarbageCollect e (mp_Transactions s)) = (il, it)"
      "il_RemoveSelected sel il = Inr (il', map fst gone, map snd gone)" "il_Len il' = length keep"
      "mp_view (s\<lparr>mp_Epoch := e, mp_Transactions := il', mp_Iterator := it\<rparr>) keep (if l' then keep else []) l'"
      "l \<and> mp_Epoch s \<le> e \<longrightarrow> l'" unfolding keep_def [symmetric] gone_def [symmetric] by blast
  define s1 where "s1 = s\<lparr>mp_Epoch := e, mp_Transactions := il', mp_Iterator := it, mp_ClientProgress := ClientProgress_LoadPb cp,
    mp_TotalPayloadSize := mp_TotalPayloadSize s - sum_list (map data_len (map snd gone)),
    mp_NumUnproposed := int (length keep), mp_UnproposedPayloadSize := mp_TotalPayloadSize s - sum_list (map data_len (map snd gone))\<rparr>"
  have "mp_view s1 = mp_view (s\<lparr>mp_Epoch := e, mp_Transactions := il', mp_Iterator := it\<rparr>)"
    by (rule mp_view_cong) (simp_all add: s1_def)
  with il(4) have view: "mp_view s1 keep (if l' then keep else []) l'" by simp
  have "pending_ok mc params s1" by (rule pending_ok_cong [OF inv(2)]) (simp_all add: s1_def)
  moreover have "\<forall>p \<in> set keep. data_len (snd p) \<le> MaxPayloadInBatch params" using inv(4) by (auto simp: keep_def)
  moreover have "acc' \<longrightarrow> l' \<and> exact s1 keep (if l' then keep else [])"
    using inv(5) assms(2) il(5) payload_filter [of "\<lambda>p. sel (fst p) (snd p)" xs]
    by (auto simp: exact_def s1_def keep_def gone_def comp_def)
  moreover have "\<exists>ps. output_ids (drop (length (mp_out s)) (mp_out s1)) = map fst ps \<and>
      (if l' then ps @ (if l' then keep else []) = keep else ps = [])" by (rule exI [of _ "[]"]) (simp add: s1_def)
  moreover have "\<forall>o' \<in> set (mp_out s1). output_ok params (snd o')" "length (mp_out s) \<le> length (mp_out s1)"
    using inv(3) by (simp_all add: s1_def)
  ultimately have "mp_inv mc params (length (mp_out s)) acc' s1" using view unfolding mp_inv_def by blast
  from processEarlyRequests_inv [OF this, of "mp_EarlyBatchRequests s1"]
  show ?thesis using il(1-3) by (simp add: UponMpNewEpoch_def sel_def Let_def fold_minus s1_def)
qed

section \<open>Runs\<close>

text \<open>
  What the other modules guarantee: the mempool receives no nil transaction, and an answer to a request for
  identifiers carries the context of a request that was made and one identifier per transaction.
\<close>

fun mp_ev_ok :: "'o MpState \<Rightarrow> 'o MpEvent \<Rightarrow> bool" where
  "mp_ev_ok s (MpNewTransactions txs) \<longleftrightarrow> None \<notin> set txs"
| "mp_ev_ok s (MpTransactionIDsResponse ids context) \<longleftrightarrow>
     (case context of
        LocalTxs txs \<Rightarrow> length ids = length txs \<and>
          (\<exists>(m, out) \<in> set (mp_out s).
             case out of RequestTransactionIDs _ origin \<Rightarrow> or_Context origin = LocalTxs txs | _ \<Rightarrow> False)
      | _ \<Rightarrow> True)"
| "mp_ev_ok s ev \<longleftrightarrow> True"

fun mp_valid :: "MpModuleConfig \<Rightarrow> MpModuleParams \<Rightarrow> 'o MpEvent list \<Rightarrow> 'o MpState \<Rightarrow> bool" where
  "mp_valid mc params [] s \<longleftrightarrow> True"
| "mp_valid mc params (ev # evs) s \<longleftrightarrow>
     mp_ev_ok s ev \<and> (case MpApplyEvent mc params ev s of Inl e \<Rightarrow> True | Inr s' \<Rightarrow> mp_valid mc params evs s')"

fun is_NewEpoch :: "'o MpEvent \<Rightarrow> bool" where
  "is_NewEpoch (MpNewEpoch e cp) = True"
| "is_NewEpoch _ = False"

text \<open>No delivered transaction arrives, and epochs do not go back.\<close>

fun mp_ev_fresh :: "'o MpState \<Rightarrow> 'o MpEvent \<Rightarrow> bool" where
  "mp_ev_fresh s (MpTransactionIDsResponse ids (LocalTxs txs)) \<longleftrightarrow>
     list_all (\<lambda>tx. \<not> ClientProgress_Contains (mp_ClientProgress s) (tx_ClientId tx) (tx_TxNo tx)) txs"
| "mp_ev_fresh s (MpNewEpoch e cp) \<longleftrightarrow> mp_Epoch s \<le> e"
| "mp_ev_fresh s ev \<longleftrightarrow> True"

fun mp_fresh :: "MpModuleConfig \<Rightarrow> MpModuleParams \<Rightarrow> 'o MpEvent list \<Rightarrow> 'o MpState \<Rightarrow> bool" where
  "mp_fresh mc params [] s \<longleftrightarrow> True"
| "mp_fresh mc params (ev # evs) s \<longleftrightarrow>
     mp_ev_fresh s ev \<and> (case MpApplyEvent mc params ev s of Inl e \<Rightarrow> True | Inr s' \<Rightarrow> mp_fresh mc params evs s')"

lemma mp_inv_weaken: "mp_inv mc params n acc s \<Longrightarrow> (acc' \<Longrightarrow> acc) \<Longrightarrow> mp_inv mc params n acc' s"
  unfolding mp_inv_def by blast

lemma mp_inv_emit:
  assumes "mp_inv mc params n acc s" "output_ok params out" "batch_ids out = []"
  shows "mp_inv mc params n acc (mp_emit m out s)"
proof -
  have "pending_ok mc params (mp_emit m out s)" using assms(1) by (auto simp: mp_inv_def pending_ok_def mp_emit_def)
  then show ?thesis
    by (rule mp_inv_frame [OF assms(1), rotated 3, of _ "[(m, out)]"]) (use assms(2,3) in \<open>simp_all add: mp_emit_def\<close>)
qed

lemma txs_to_save_ok:
  assumes "None \<notin> set txs"
  shows "\<exists>ts. txs_to_save params txs = Inr ts \<and> (\<forall>tx \<in> set ts. data_len tx \<le> MaxPayloadInBatch params)"
  using assms
proof (induction txs)
  case (Cons tx txs)
  then show ?case by (cases tx) (auto simp: deref_def)
qed simp

lemma NewTransactions_inv:
  assumes "mp_inv mc params n acc s" "None \<notin> set txs"
  shows "\<exists>s'. UponMpNewTransactions mc params txs s = Inr s' \<and> mp_inv mc params n acc s'"
  using txs_to_save_ok [OF assms(2), of params] mp_inv_emit [OF assms(1)] assms(1)
  by (auto simp: UponMpNewTransactions_def)

lemma RequestBatch_inv:
  assumes "mp_inv mc params n acc s"
  shows "\<exists>s'. UponMpRequestBatch mc params epoch origin s = Inr s' \<and> mp_inv mc params n acc s'"
proof -
  have early: "mp_inv mc params n acc (s\<lparr>mp_EarlyBatchRequests := ers\<rparr>)" for ers
  proof -
    have "pending_ok mc params (s\<lparr>mp_EarlyBatchRequests := ers\<rparr>)" using assms by (auto simp: mp_inv_def pending_ok_def)
    then show ?thesis by (rule mp_inv_frame [OF assms, rotated 3, of _ "[]"]) simp_all
  qed
  show ?thesis using handleBatchRequest_inv [OF assms, of origin] early assms by (auto simp: UponMpRequestBatch_def)
qed

lemma BatchTimeout_inv:
  assumes "mp_inv mc params n acc s"
  shows "\<exists>s'. UponMpBatchTimeout params k s = Inr s' \<and> mp_inv mc params n acc s'"
  using servePendingReq_inv [OF assms, of "sint k"] assms by (auto simp: UponMpBatchTimeout_def Let_def)

lemma context_ok:
  assumes "mp_inv mc params n acc s" "mp_ev_ok s (MpTransactionIDsResponse ids (LocalTxs txs))"
  shows "length ids = length txs" "\<forall>tx \<in> set txs. data_len tx \<le> MaxPayloadInBatch params"
  using assms by (fastforce simp: mp_inv_def split: MpOutput.splits)+

lemma MpApplyEvent_inv:
  assumes "mp_inv mc params n acc s" "TxFetcher params = None" "mp_ev_ok s ev" "acc' \<Longrightarrow> acc \<and> mp_ev_fresh s ev"
  shows "\<exists>s'. MpApplyEvent mc params ev s = Inr s' \<and> mp_inv mc params (if is_NewEpoch ev then length (mp_out s) else n) acc' s'"
proof -
  have inv: "mp_inv mc params n acc' s" by (rule mp_inv_weaken [OF assms(1)]) (use assms(4) in blast)
  note emit = mp_inv_emit [OF inv]
  show ?thesis
  proof (cases ev)
    case (MpNewEpoch e cp)
    then show ?thesis using NewEpoch_inv [OF assms(1)] assms(2,4) by simp
  next
    case (MpNewTransactions txs)
    then show ?thesis using NewTransactions_inv [OF inv] assms(2,3) by fastforce
  next
    case (MpTransactionIDsResponse ids ctxt)
    show ?thesis
    proof (cases ctxt)
      case (LocalTxs txs)
      note ok = context_ok [OF assms(1), of ids txs]
      have "acc' \<Longrightarrow> acc \<and> (\<forall>tx \<in> set txs. \<not> ClientProgress_Contains (mp_ClientProgress s) (tx_ClientId tx) (tx_TxNo tx))"
        using assms(4) by (simp add: MpTransactionIDsResponse LocalTxs list_all_iff)
      from TransactionIDsResponse_inv [OF assms(1) _ _ this] ok assms(2,3) show ?thesis
        by (simp add: MpTransactionIDsResponse LocalTxs)
    qed (use inv assms(2) MpTransactionIDsResponse in auto)
  next
    case (MpRequestBatch epoch origin)
    then show ?thesis using RequestBatch_inv [OF inv] assms(2) by simp
  next
    case (MpBatchTimeout k)
    then show ?thesis using BatchTimeout_inv [OF inv] assms(2) by simp
  next
    case (MpRequestTransactionIDs txs origin)
    then show ?thesis using emit inv by (auto simp: UponMpRequestTransactionIDs_def split: option.splits)
  qed (use emit in \<open>auto simp: UponMpTransactionHashes_def UponMpRequestBatchID_def UponMpBatchHash_def
      UponMpRequestTransactions_def split: prod.splits\<close>)
qed

lemma MpNew_inv: "mp_inv mc params 0 True MpNew"
proof -
  have S: "il_sim il_New (sp_New :: (TxID, Transaction) il_spec)" by (rule il_sim_New)
  let ?S = "sp_New\<lparr>sp_iters := [(0, [])]\<rparr> :: (TxID, Transaction) il_spec"
  from sim_Iterator [OF S, of 0] obtain il where il: "il_Iterator 0 il_New = (il, 0)" "il_sim il ?S"
    by (auto simp: sp_New_def split: prod.splits)
  have "mp_view (MpNew :: 'a MpState) [] [] True"
    unfolding mp_view_def by (rule exI [of _ ?S]) (use il in \<open>simp add: MpNew_def sp_New_def\<close>)
  then show ?thesis unfolding mp_inv_def
    by (intro exI [of _ "[]"] exI [of _ True]) (simp add: exact_def pending_ok_def MpNew_def case_prod_unfold Let_def)
qed

lemma MpRun_append: "MpRun mc params (evs @ evs') s = rbind (MpRun mc params evs s) (MpRun mc params evs')"
proof (induction evs arbitrary: s)
  case (Cons ev evs)
  then show ?case by (cases "MpApplyEvent mc params ev s") simp_all
qed simp

lemma MpRun_inv:
  assumes "mp_inv mc params n acc s" "TxFetcher params = None" "mp_valid mc params evs s" "acc' \<Longrightarrow> acc \<and> mp_fresh mc params evs s"
  shows "\<exists>s' n'. MpRun mc params evs s = Inr s' \<and> mp_inv mc params n' acc' s' \<and> (\<not> list_ex is_NewEpoch evs \<longrightarrow> n' = n)"
  using assms
proof (induction evs arbitrary: s n acc)
  case Nil
  then show ?case using mp_inv_weaken [of mc params n acc s acc'] by auto
next
  case (Cons ev evs)
  from MpApplyEvent_inv [OF Cons(2,3), of ev acc'] Cons(4,5) obtain s1 where
    s1: "MpApplyEvent mc params ev s = Inr s1" "mp_inv mc params (if is_NewEpoch ev then length (mp_out s) else n) acc' s1" by auto
  with Cons(1) [OF s1(2) Cons(3)] Cons(4,5) show ?case by (auto split: if_splits)
qed

lemma servePending_loop_done:
  "servePending_loop params s = Inr s' \<Longrightarrow> \<not> (haveFullBatch params s' \<and> mp_FirstPendingBatchReqID s' < mp_NextPendingBatchReqID s')"
proof (induction params s rule: servePending_loop.induct)
  case (1 params s)
  show ?case
  proof (cases "haveFullBatch params s \<and> mp_FirstPendingBatchReqID s < mp_NextPendingBatchReqID s")
    case True
    with 1(2) obtain s1 where "servePendingReq params (mp_FirstPendingBatchReqID s) s = Inr s1" "servePending_loop params s1 = Inr s'"
      by (subst (asm) servePending_loop.simps) (auto split: sum.splits)
    with 1(1) [OF True] show ?thesis by blast
  next
    case False
    then have "servePending_loop params s = Inr s" by (subst servePending_loop.simps) auto
    with 1(2) False show ?thesis by simp
  qed
qed

lemma reachable_inv:
  assumes "TxFetcher params = None" "mp_valid mc params evs MpNew" "MpRun mc params evs MpNew = Inr s"
  obtains n where "mp_inv mc params n False s"
  using MpRun_inv [OF MpNew_inv assms(1,2), of False] assms(3) by auto

lemma mp_valid_append:
  "mp_valid mc params (evs @ evs') s \<Longrightarrow> MpRun mc params evs s = Inr s' \<Longrightarrow> mp_valid mc params evs' s'"
proof (induction evs arbitrary: s)
  case (Cons ev evs)
  then show ?case by (auto simp: rbind_eq_Inr)
qed simp

lemma mp_valid_prefix: "mp_valid mc params (evs @ evs') s \<Longrightarrow> mp_valid mc params evs s"
proof (induction evs arbitrary: s)
  case (Cons ev evs)
  then show ?case by (cases "MpApplyEvent mc params ev s") auto
qed simp

section \<open>Examples\<close>

definition ex_mp_conf :: MpModuleConfig where
  "ex_mp_conf = \<lparr>mpc_Self = ''mp'', mpc_Hasher = ''hash'', mpc_Timer = ''timer''\<rparr>"

definition ex_mp_params :: MpModuleParams where
  "ex_mp_params = \<lparr>MaxTransactionsInBatch = 2, MaxPayloadInBatch = 5, BatchTimeout = 100, TxFetcher = None\<rparr>"

definition ex_tx :: "TxNo \<Rightarrow> Transaction" where
  "ex_tx n = \<lparr>tx_ClientId = ''c'', tx_TxNo = n, tx_Type = 0, tx_Data = [1, 2]\<rparr>"

definition ex_origin :: "unit Origin" where
  "ex_origin = \<lparr>or_Module = ''av'', or_Context = ()\<rparr>"

definition ex_submit :: "TxNo list \<Rightarrow> unit MpEvent list" where
  "ex_submit ns =
     [MpNewTransactions (map (\<lambda>n. Some (ex_tx n)) ns), MpTransactionIDsResponse (map (\<lambda>n. [ucast n]) ns) (LocalTxs (map ex_tx ns))]"

definition ex_requests :: "unit MpEvent list" where
  "ex_requests = [MpRequestBatch 1 ex_origin, MpRequestBatch 1 ex_origin]"

section \<open>Properties\<close>



text \<open>
  C17: As long as no delivered transaction arrives and epochs do not go back, the counters of the mempool are exact: they
  are the payload of all stored transactions, and the number and the payload of those that have not been
  output in the current epoch.
\<close>

theorem mempool_counters_exact:
  assumes "TxFetcher params = None" "mp_valid mc params evs MpNew" "mp_fresh mc params evs MpNew"
  shows "\<exists>s xs us. MpRun mc params evs MpNew = Inr s \<and> mp_view s xs us True \<and> mp_TotalPayloadSize s = payload xs \<and>
    mp_UnproposedPayloadSize s = payload us \<and> mp_NumUnproposed s = int (length us)"
proof -
  from MpRun_inv [OF MpNew_inv assms(1,2), of True] assms(3) obtain s n where
    s: "MpRun mc params evs MpNew = Inr s" "mp_inv mc params n True s" by blast
  then obtain xs us l where "mp_view s xs us l" "l" "exact s xs us" unfolding mp_inv_def by blast
  with s(1) show ?thesis by (auto simp: exact_def)
qed

theorem mempool_counters_exact_witness:
  "\<exists>s xs us. MpRun ex_mp_conf ex_mp_params (ex_submit [0, 1, 2] @ MpNewEpoch 1 [] # ex_requests) MpNew = Inr s \<and> mp_view s xs us True \<and>
    mp_TotalPayloadSize s = payload xs \<and> mp_UnproposedPayloadSize s = payload us \<and> mp_NumUnproposed s = int (length us)"
proof -
  have "TxFetcher ex_mp_params = None" by (simp add: ex_mp_params_def)
  moreover have "mp_valid ex_mp_conf ex_mp_params (ex_submit [0, 1, 2] @ MpNewEpoch 1 [] # ex_requests) MpNew"
    "mp_fresh ex_mp_conf ex_mp_params (ex_submit [0, 1, 2] @ MpNewEpoch 1 [] # ex_requests) MpNew" by code_simp+
  ultimately show ?thesis by (rule mempool_counters_exact)
qed

text \<open>
  C14: Every batch request that waits has a timer, and when the timer fires (before the counter of requests passes
  the largest signed 64-bit number) the request is answered with a batch and no longer waits.
\<close>

theorem mempool_pending_served:
  assumes "TxFetcher params = None" "mp_valid mc params evs MpNew" "MpRun mc params evs MpNew = Inr s"
    "map_of (mp_PendingBatchRequests s) k = Some origin" "k < 2 ^ 63"
  shows "(mpc_Timer mc, TimerDelay (BatchTimeout params) (word_of_int k)) \<in> set (mp_out s) \<and>
    (\<exists>s' txIDs txs. MpApplyEvent mc params (MpBatchTimeout (word_of_int k)) s = Inr s' \<and>
      mp_out s' = mp_out s @ [(or_Module origin, NewBatch txIDs txs origin)] \<and> map_of (mp_PendingBatchRequests s') k = None)"
proof -
  obtain n where inv: "mp_inv mc params n False s" by (rule reachable_inv [OF assms(1-3)])
  with assms(4) have k: "0 \<le> k" "(mpc_Timer mc, TimerDelay (BatchTimeout params) (word_of_int k)) \<in> set (mp_out s)"
    by (auto simp: mp_inv_def pending_ok_def)
  have "sint (word_of_int k :: uint64) = k" using k(1) assms(5) by (simp add: sint_sbintrunc' signed_take_bit_int_eq_self)
  with servePendingReq_inv [OF inv assms(4)] assms(1,4) k(2) show ?thesis by (auto simp: UponMpBatchTimeout_def batch_out_def)
qed

theorem mempool_pending_served_witness:
  "\<exists>s. MpRun ex_mp_conf ex_mp_params (ex_submit [0] @ MpNewEpoch 1 [] # ex_requests) MpNew = Inr s \<and>
    (mpc_Timer ex_mp_conf, TimerDelay (BatchTimeout ex_mp_params) (word_of_int 1)) \<in> set (mp_out s) \<and>
    (\<exists>s' txIDs txs. MpApplyEvent ex_mp_conf ex_mp_params (MpBatchTimeout (word_of_int 1)) s = Inr s' \<and>
      mp_out s' = mp_out s @ [(or_Module ex_origin, NewBatch txIDs txs ex_origin)] \<and> map_of (mp_PendingBatchRequests s') 1 = None)"
proof -
  let ?run = "MpRun ex_mp_conf ex_mp_params (ex_submit [0] @ MpNewEpoch 1 [] # ex_requests) MpNew"
  have fetch: "TxFetcher ex_mp_params = None" by (simp add: ex_mp_params_def)
  have valid: "mp_valid ex_mp_conf ex_mp_params (ex_submit [0] @ MpNewEpoch 1 [] # ex_requests) MpNew" by code_simp
  have "map_sum id (\<lambda>s. map_of (mp_PendingBatchRequests s) 1) ?run = Inr (Some ex_origin)" by code_simp
  then obtain s where s: "?run = Inr s" "map_of (mp_PendingBatchRequests s) 1 = Some ex_origin" by (cases ?run) auto
  from mempool_pending_served [OF fetch valid s] s(1) show ?thesis by auto
qed



text \<open>
  C35: Transaction identifiers do not determine transactions. The identifier is the hash of the client identifier, the
  transaction number and the data, one after the other and without lengths, and without the type; whatever
  the hash function, transactions of different clients, or of different types, have the same identifier.
\<close>

theorem txid_collision:
  "\<exists>tx tx'. tx_ClientId tx \<noteq> tx_ClientId tx' \<and>
     (\<forall>hashSum. map_option (\<lambda>d. computeDigests hashSum [d]) (serializeTXForHash (Some tx)) =
                map_option (\<lambda>d. computeDigests hashSum [d]) (serializeTXForHash (Some tx')) \<and>
        (\<forall>tx ty. map_option (\<lambda>d. computeDigests hashSum [d]) (serializeTXForHash (Some (tx\<lparr>tx_Type := ty\<rparr>))) =
                 map_option (\<lambda>d. computeDigests hashSum [d]) (serializeTXForHash (Some tx))))"
proof -
  let ?tx = "\<lparr>tx_ClientId = ''a'', tx_TxNo = 1, tx_Type = 0, tx_Data = replicate 8 0\<rparr>"
  let ?tx' = "\<lparr>tx_ClientId = ''a'' @ CHR 0x01 # replicate 7 (CHR 0x00), tx_TxNo = 0, tx_Type = 0, tx_Data = []\<rparr>"
  have "map_option concat (serializeTXForHash (Some ?tx)) = map_option concat (serializeTXForHash (Some ?tx'))" by code_simp
  then have "map_option (\<lambda>d. computeDigests hashSum [d]) (serializeTXForHash (Some ?tx)) =
      map_option (\<lambda>d. computeDigests hashSum [d]) (serializeTXForHash (Some ?tx'))" for hashSum
    by (simp add: serializeTXForHash_def computeDigests_eq)
  moreover have "serializeTXForHash (Some (tx\<lparr>tx_Type := ty\<rparr>)) = serializeTXForHash (Some tx)" for tx ty
    by (simp add: serializeTXForHash_def)
  ultimately show ?thesis by (intro exI [of _ ?tx] exI [of _ ?tx']) simp
qed

section \<open>Transactions that are lost and counters that drift\<close>

text \<open>
  A submission of more transactions than fit into a batch is lost as a whole: the mempool asks itself for the
  identifiers and ignores the request.
\<close>

lemma oversized_submission_lost:
  assumes "txs_to_save params txs = Inr ts" "MaxTransactionsInBatch params < int (length ts)" "ts \<noteq> []"
  shows "\<exists>origin. UponMpNewTransactions mc params txs s = Inr (mp_emit (mpc_Self mc) (RequestTransactionIDs (map Some ts) origin) s) \<and>
    UponMpRequestTransactionIDs mc params (map Some ts) origin s' = s'"
  using assms by (auto simp: UponMpNewTransactions_def UponMpRequestTransactionIDs_def)

text \<open>
  A transaction that arrives after its delivery is stored but not counted; the next pruning subtracts its size and
  the total payload of the empty mempool is negative.
\<close>

lemma delivered_transaction_skews_counters:
  "map_sum id (\<lambda>s. (il_Len (mp_Transactions s), mp_TotalPayloadSize s))
    (MpRun ex_mp_conf ex_mp_params (MpNewEpoch 1 [(''c'', \<lparr>LowWm = 1, Delivered = []\<rparr>)] # ex_submit [0] @
       [MpNewEpoch 2 [(''c'', \<lparr>LowWm = 1, Delivered = []\<rparr>)]]) MpNew) = Inr (0, - 2)"
  by code_simp

end
