(* ===== verification/BatchDB.thy ===== *)
theory BatchDB
  imports Mempool
begin

text \<open>
  The in-memory database of transaction batches (\<open>pkg/availability/batchdb/fakebatchdb\<close>), in which the
  availability layer keeps a batch until its retention index is garbage-collected. Transactions are only
  passed through and are the type parameter \<open>'t\<close>; the contexts of requests are \<open>'c\<close>.

  The abstract specification remembers, for every batch identifier, the transactions stored first under the highest
  retention index, and the highest index that was collected; the database holds exactly the batches whose
  index has not been collected.
\<close>

section \<open>Model\<close>

type_synonym BatchID = bytes

record 't DbBatch =
  db_txs :: "'t list"
  db_maxRetIdx :: RetentionIndex

datatype ('t, 'c) DbOutput =
    BatchStored "'c Origin"
  | LookupBatchResponse bool "'t list option" "'c Origin"

record ('t, 'c) DbState =
  db_batchStore :: "(BatchID, 't DbBatch) gomap"
  db_batchesByRetIdx :: "(RetentionIndex, (BatchID, unit) gomap) gomap"
  db_retIdx :: RetentionIndex
  db_out :: "(ModuleID \<times> ('t, 'c) DbOutput) list"

datatype ('t, 'c) DbEvent =
    StoreBatch BatchID "'t list" RetentionIndex "'c Origin"
  | LookupBatch BatchID "'c Origin"
  | DbGarbageCollect RetentionIndex

definition DbNew :: "('t, 'c) DbState" where
  "DbNew = \<lparr>db_batchStore = [], db_batchesByRetIdx = [], db_retIdx = 0, db_out = []\<rparr>"

definition db_emit :: "ModuleID \<Rightarrow> ('t, 'c) DbOutput \<Rightarrow> ('t, 'c) DbState \<Rightarrow> ('t, 'c) DbState" where
  "db_emit m out s = s\<lparr>db_out := db_out s @ [(m, out)]\<rparr>"

definition UponStoreBatch :: "BatchID \<Rightarrow> 't list \<Rightarrow> RetentionIndex \<Rightarrow> 'c Origin \<Rightarrow> ('t, 'c) DbState \<Rightarrow> ('t, 'c) DbState" where
  "UponStoreBatch batchID txs retIdx origin s =
     (let s = (if db_retIdx s \<le> retIdx
               then let s = (if (case map_of (db_batchStore s) batchID of None \<Rightarrow> True | Some b \<Rightarrow> db_maxRetIdx b < retIdx)
                             then s\<lparr>db_batchStore := AList.update batchID \<lparr>db_txs = txs, db_maxRetIdx = retIdx\<rparr> (db_batchStore s)\<rparr>
                             else s)
                    in s\<lparr>db_batchesByRetIdx := AList.update retIdx
                          (AList.update batchID () (case map_of (db_batchesByRetIdx s) retIdx of None \<Rightarrow> [] | Some ids \<Rightarrow> ids))
                          (db_batchesByRetIdx s)\<rparr>
               else s)
      in db_emit (or_Module origin) (BatchStored origin) s)"

definition UponLookupBatch :: "BatchID \<Rightarrow> 'c Origin \<Rightarrow> ('t, 'c) DbState \<Rightarrow> ('t, 'c) DbState" where
  "UponLookupBatch batchID origin s =
     (case map_of (db_batchStore s) batchID of
        None \<Rightarrow> db_emit (or_Module origin) (LookupBatchResponse False None origin) s
      | Some storedBatch \<Rightarrow> db_emit (or_Module origin) (LookupBatchResponse True (Some (db_txs storedBatch)) origin) s)"

fun gc_batches :: "RetentionIndex \<Rightarrow> BatchID list \<Rightarrow> (BatchID, 't DbBatch) gomap \<Rightarrow> (BatchID, 't DbBatch) gomap res" where
  "gc_batches retIdx [] store = Inr store"
| "gc_batches retIdx (batchID # ids) store =
     rbind (deref (map_of store batchID)) (\<lambda>b.
       gc_batches retIdx ids (if db_maxRetIdx b \<le> retIdx then AList.delete batchID store else store))"

function UponDbGarbageCollect :: "RetentionIndex \<Rightarrow> ('t, 'c) DbState \<Rightarrow> ('t, 'c) DbState res" where
  "UponDbGarbageCollect retentionIndex s =
     (if db_retIdx s < retentionIndex
      then case gc_batches (db_retIdx s)
                  (GetKeys (case map_of (db_batchesByRetIdx s) (db_retIdx s) of None \<Rightarrow> [] | Some ids \<Rightarrow> ids)) (db_batchStore s) of
             Inl e \<Rightarrow> Inl e
           | Inr store \<Rightarrow> UponDbGarbageCollect retentionIndex
               (s\<lparr>db_batchStore := store, db_batchesByRetIdx := AList.delete (db_retIdx s) (db_batchesByRetIdx s),
                  db_retIdx := db_retIdx s + 1\<rparr>)
      else Inr s)"
  by pat_completeness auto
termination
  by (relation "measure (\<lambda>(r, s). unat r - unat (db_retIdx s))") (auto simp: word_less_nat_alt word_less_succ)

declare UponDbGarbageCollect.simps [simp del]

fun DbApplyEvent :: "('t, 'c) DbEvent \<Rightarrow> ('t, 'c) DbState \<Rightarrow> ('t, 'c) DbState res" where
  "DbApplyEvent (StoreBatch batchID txs retIdx origin) s = Inr (UponStoreBatch batchID txs retIdx origin s)"
| "DbApplyEvent (LookupBatch batchID origin) s = Inr (UponLookupBatch batchID origin s)"
| "DbApplyEvent (DbGarbageCollect retentionIndex) s = UponDbGarbageCollect retentionIndex s"

fun DbRun :: "('t, 'c) DbEvent list \<Rightarrow> ('t, 'c) DbState \<Rightarrow> ('t, 'c) DbState res" where
  "DbRun [] s = Inr s"
| "DbRun (ev # evs) s = rbind (DbApplyEvent ev s) (DbRun evs)"

section \<open>The specification\<close>

record 't db_spec =
  ds_best :: "BatchID \<Rightarrow> ('t list \<times> RetentionIndex) option"
  ds_gc :: RetentionIndex

definition ds_lookup :: "'t db_spec \<Rightarrow> BatchID \<Rightarrow> 't list option" where
  "ds_lookup S batchID =
     (case ds_best S batchID of None \<Rightarrow> None | Some (txs, r) \<Rightarrow> if ds_gc S \<le> r then Some txs else None)"

fun ds_exec :: "('t, 'c) DbEvent \<Rightarrow> 't db_spec \<Rightarrow> 't db_spec \<times> (ModuleID \<times> ('t, 'c) DbOutput) list" where
  "ds_exec (StoreBatch batchID txs retIdx origin) S =
     (case ds_best S batchID of
        Some (txs', r) \<Rightarrow> if r < retIdx then S\<lparr>ds_best := (ds_best S)(batchID \<mapsto> (txs, retIdx))\<rparr> else S
      | None \<Rightarrow> S\<lparr>ds_best := (ds_best S)(batchID \<mapsto> (txs, retIdx))\<rparr>, [(or_Module origin, BatchStored origin)])"
| "ds_exec (LookupBatch batchID origin) S =
     (S, [(or_Module origin, LookupBatchResponse (ds_lookup S batchID \<noteq> None) (ds_lookup S batchID) origin)])"
| "ds_exec (DbGarbageCollect retIdx) S = (S\<lparr>ds_gc := max retIdx (ds_gc S)\<rparr>, [])"

fun ds_run :: "('t, 'c) DbEvent list \<Rightarrow> 't db_spec \<Rightarrow> 't db_spec \<times> (ModuleID \<times> ('t, 'c) DbOutput) list" where
  "ds_run [] S = (S, [])"
| "ds_run (ev # evs) S = (let (S, out) = ds_exec ev S; (S, outs) = ds_run evs S in (S, out @ outs))"

definition ds_New :: "'t db_spec" where
  "ds_New = \<lparr>ds_best = (\<lambda>_. None), ds_gc = 0\<rparr>"

section \<open>Refinement\<close>

definition ids_at :: "('t, 'c) DbState \<Rightarrow> RetentionIndex \<Rightarrow> BatchID set" where
  "ids_at s r = fst ` set (case map_of (db_batchesByRetIdx s) r of None \<Rightarrow> [] | Some ids \<Rightarrow> ids)"

definition db_rel :: "('t, 'c) DbState \<Rightarrow> 't db_spec \<Rightarrow> bool" where
  "db_rel s S \<longleftrightarrow>
     gomap_ok (db_batchStore s) \<and> gomap_ok (db_batchesByRetIdx s) \<and> db_retIdx s = ds_gc S \<and>
     (\<forall>r ids. map_of (db_batchesByRetIdx s) r = Some ids \<longrightarrow> gomap_ok ids) \<and>
     (\<forall>bid. map_of (db_batchStore s) bid =
        (case ds_best S bid of
           None \<Rightarrow> None
         | Some (txs, r) \<Rightarrow> if ds_gc S \<le> r then Some \<lparr>db_txs = txs, db_maxRetIdx = r\<rparr> else None)) \<and>
     (\<forall>r. \<forall>bid \<in> ids_at s r. \<exists>txs m. ds_best S bid = Some (txs, m) \<and> r \<le> m \<and> ds_gc S \<le> r) \<and>
     (\<forall>bid txs m. ds_best S bid = Some (txs, m) \<longrightarrow> ds_gc S \<le> m \<longrightarrow> bid \<in> ids_at s m)"

lemma db_relI:
  assumes "gomap_ok (db_batchStore s)" "gomap_ok (db_batchesByRetIdx s)" "db_retIdx s = ds_gc S"
    "\<And>r ids. map_of (db_batchesByRetIdx s) r = Some ids \<Longrightarrow> gomap_ok ids"
    "\<And>bid. map_of (db_batchStore s) bid = (case ds_best S bid of None \<Rightarrow> None
       | Some (txs, r) \<Rightarrow> if ds_gc S \<le> r then Some \<lparr>db_txs = txs, db_maxRetIdx = r\<rparr> else None)"
    "\<And>r bid. bid \<in> ids_at s r \<Longrightarrow> \<exists>txs m. ds_best S bid = Some (txs, m) \<and> r \<le> m \<and> ds_gc S \<le> r"
    "\<And>bid txs m. ds_best S bid = Some (txs, m) \<Longrightarrow> ds_gc S \<le> m \<Longrightarrow> bid \<in> ids_at s m"
  shows "db_rel s S"
  unfolding db_rel_def using assms by blast

lemma db_rel_New: "db_rel DbNew ds_New"
  by (simp add: db_rel_def DbNew_def ds_New_def ids_at_def)

lemma db_rel_emit [simp]: "db_rel (db_emit m out s) S = db_rel s S"
  by (simp add: db_rel_def db_emit_def ids_at_def)

lemma UponLookupBatch_rel:
  assumes "db_rel s S"
  shows "UponLookupBatch bid origin s = s\<lparr>db_out := db_out s @ snd (ds_exec (LookupBatch bid origin) S)\<rparr>"
proof -
  have "map_of (db_batchStore s) bid = (case ds_best S bid of None \<Rightarrow> None
      | Some (txs, r) \<Rightarrow> if ds_gc S \<le> r then Some \<lparr>db_txs = txs, db_maxRetIdx = r\<rparr> else None)"
    using assms by (simp add: db_rel_def)
  then show ?thesis by (cases "ds_best S bid") (auto simp: UponLookupBatch_def db_emit_def ds_lookup_def)
qed

lemma ids_at_update:
  "ids_at (s\<lparr>db_batchesByRetIdx := AList.update r (AList.update bid ()
      (case map_of (db_batchesByRetIdx s) r of None \<Rightarrow> [] | Some ids \<Rightarrow> ids)) (db_batchesByRetIdx s)\<rparr>) r' =
    (if r' = r then insert bid (ids_at s r) else ids_at s r')"
  by (auto simp: ids_at_def dom_update)

lemma UponStoreBatch_rel:
  assumes "db_rel s S" "S' = fst (ds_exec (StoreBatch bid txs r origin) S)"
  shows "db_rel (UponStoreBatch bid txs r origin s) S'"
    "db_out (UponStoreBatch bid txs r origin s) = db_out s @ snd (ds_exec (StoreBatch bid txs r origin) S)"
proof -
  show "db_out (UponStoreBatch bid txs r origin s) = db_out s @ snd (ds_exec (StoreBatch bid txs r origin) S)"
    by (simp add: UponStoreBatch_def Let_def db_emit_def)
  note rel = assms(1) [unfolded db_rel_def]
  have S': "ds_gc S' = ds_gc S" "ds_best S' = (if (case ds_best S bid of None \<Rightarrow> True | Some (_, m) \<Rightarrow> m < r)
      then (ds_best S)(bid \<mapsto> (txs, r)) else ds_best S)" by (auto simp: assms(2) split: option.splits)
  show "db_rel (UponStoreBatch bid txs r origin s) S'"
  proof (cases "db_retIdx s \<le> r")
    case False
    then have "UponStoreBatch bid txs r origin s = db_emit (or_Module origin) (BatchStored origin) s" by (simp add: UponStoreBatch_def)
    moreover have "db_rel s S'" unfolding db_rel_def S' using rel False
      by (auto split: option.splits) (metis option.distinct(1), metis option.inject prod.inject order.trans less_imp_le)
    ultimately show ?thesis by simp
  next
    case True
    define s1 where "s1 = (if (case map_of (db_batchStore s) bid of None \<Rightarrow> True | Some b \<Rightarrow> db_maxRetIdx b < r)
        then s\<lparr>db_batchStore := AList.update bid \<lparr>db_txs = txs, db_maxRetIdx = r\<rparr> (db_batchStore s)\<rparr> else s)"
    define s2 where "s2 = s1\<lparr>db_batchesByRetIdx := AList.update r (AList.update bid ()
        (case map_of (db_batchesByRetIdx s1) r of None \<Rightarrow> [] | Some ids \<Rightarrow> ids)) (db_batchesByRetIdx s1)\<rparr>"
    have s2: "UponStoreBatch bid txs r origin s = db_emit (or_Module origin) (BatchStored origin) s2"
      using True by (simp add: UponStoreBatch_def s1_def s2_def Let_def)
    have new: "(case map_of (db_batchStore s) bid of None \<Rightarrow> True | Some b \<Rightarrow> db_maxRetIdx b < r) =
        (case ds_best S bid of None \<Rightarrow> True | Some (_, m) \<Rightarrow> m < r)"
      using rel True by (auto split: option.splits if_splits)
    have same: "db_batchesByRetIdx s1 = db_batchesByRetIdx s" "db_retIdx s1 = db_retIdx s" "ids_at s1 = ids_at s"
      by (auto simp: s1_def ids_at_def fun_eq_iff)
    have ids: "ids_at s2 r' = (if r' = r then insert bid (ids_at s r) else ids_at s r')" for r'
      unfolding s2_def ids_at_update by (simp add: same)
    have store: "map_of (db_batchStore s2) bid' = (if bid' = bid \<and> (case ds_best S bid of None \<Rightarrow> True | Some (_, m) \<Rightarrow> m < r)
        then Some \<lparr>db_txs = txs, db_maxRetIdx = r\<rparr> else map_of (db_batchStore s) bid')" for bid'
      unfolding s2_def s1_def new by simp
    have ok: "gomap_ok (db_batchStore s2)" "gomap_ok (db_batchesByRetIdx s2)" "db_retIdx s2 = db_retIdx s"
      "\<forall>r ids. map_of (db_batchesByRetIdx s2) r = Some ids \<longrightarrow> gomap_ok ids"
      using rel by (auto simp: s2_def s1_def same split: option.splits)
    have at: "\<exists>txs m. ds_best S b = Some (txs, m) \<and> r' \<le> m \<and> ds_gc S \<le> r'" if "b \<in> ids_at s r'" for b r'
      using rel that by blast
    have "map_of (db_batchStore s2) b = (case ds_best S' b of None \<Rightarrow> None
        | Some (txs, r) \<Rightarrow> if ds_gc S' \<le> r then Some \<lparr>db_txs = txs, db_maxRetIdx = r\<rparr> else None)" for b
      unfolding store S' using rel True by (cases "b = bid") auto
    moreover have "\<exists>txs m. ds_best S' b = Some (txs, m) \<and> r' \<le> m \<and> ds_gc S' \<le> r'" if b: "b \<in> ids_at s2 r'" for b r'
    proof (cases "b = bid")
      case True
      show ?thesis
      proof (cases "ds_best S bid")
        case None
        with b True at [of bid r'] have "r' = r" by (auto simp: ids split: if_splits)
        then show ?thesis using None True \<open>db_retIdx s \<le> r\<close> rel by (simp add: S')
      next
        case (Some tm)
        obtain t m where tm: "tm = (t, m)" by fastforce
        from b True at [of bid r'] Some tm rel \<open>db_retIdx s \<le> r\<close> have "r' = r \<or> r' \<le> m" "ds_gc S \<le> r'"
          by (auto simp: ids split: if_splits)
        then show ?thesis using Some tm True by (auto simp: S')
      qed
    next
      case False
      then have "b \<in> ids_at s r'" using b by (auto simp: ids split: if_splits)
      from at [OF this] show ?thesis using False by (simp add: S')
    qed
    moreover have "b \<in> ids_at s2 m" if "ds_best S' b = Some (t, m)" "ds_gc S' \<le> m" for b t m
      using that rel by (auto simp: S' ids split: if_splits option.splits)
    moreover have "db_retIdx s2 = ds_gc S'" using ok(3) rel by (simp add: S')
    ultimately have "db_rel s2 S'" unfolding db_rel_def using ok(1,2,4) by blast
    with s2 show ?thesis by simp
  qed
qed

text \<open>
  Collecting one index: every identifier listed there is in the store, so nothing that is missing is
  dereferenced, and the batches whose highest index is that one are deleted.
\<close>

lemma gc_batches_ok:
  assumes "distinct ids" "\<forall>b \<in> set ids. \<exists>y. map_of store b = Some y" "gomap_ok store"
  shows "\<exists>store'. gc_batches r ids store = Inr store' \<and> gomap_ok store' \<and>
    (\<forall>b. map_of store' b = (if b \<in> set ids \<and> (\<exists>y. map_of store b = Some y \<and> db_maxRetIdx y \<le> r) then None else map_of store b))"
  using assms
proof (induction ids arbitrary: store)
  case (Cons b ids)
  then obtain y where y: "map_of store b = Some y" by fastforce
  let ?store = "if db_maxRetIdx y \<le> r then AList.delete b store else store"
  have ok: "gomap_ok ?store" using Cons(4) by simp
  have other: "map_of ?store b' = map_of store b'" if "b' \<in> set ids" for b' using that Cons(2) by (auto simp: delete_conv')
  then have "\<forall>b' \<in> set ids. \<exists>y. map_of ?store b' = Some y" using Cons(3) by simp
  from Cons(1) [OF _ this ok] Cons(2) obtain store' where st: "gc_batches r ids ?store = Inr store'" "gomap_ok store'"
      "\<And>b. map_of store' b = (if b \<in> set ids \<and> (\<exists>y. map_of ?store b = Some y \<and> db_maxRetIdx y \<le> r) then None else map_of ?store b)"
    by auto
  have "map_of store' b' = (if b' \<in> set (b # ids) \<and> (\<exists>y. map_of store b' = Some y \<and> db_maxRetIdx y \<le> r) then None else map_of store b')" for b'
    using st(3) [of b'] other [of b'] y Cons(2) by (cases "b' = b") (auto simp: delete_conv')
  with st(1,2) y show ?case by (simp add: deref_def)
qed simp

lemma gc_step_rel:
  assumes "db_rel s S" "db_retIdx s < r"
  defines "ids \<equiv> case map_of (db_batchesByRetIdx s) (db_retIdx s) of None \<Rightarrow> [] | Some ids \<Rightarrow> ids"
  shows "\<exists>store. gc_batches (db_retIdx s) (GetKeys ids) (db_batchStore s) = Inr store \<and>
    db_rel (s\<lparr>db_batchStore := store, db_batchesByRetIdx := AList.delete (db_retIdx s) (db_batchesByRetIdx s), db_retIdx := db_retIdx s + 1\<rparr>)
      (S\<lparr>ds_gc := ds_gc S + 1\<rparr>)"
proof -
  note rel = assms(1) [unfolded db_rel_def]
  let ?g = "ds_gc S"
  have g: "db_retIdx s = ?g" using rel by blast
  have keys: "set (GetKeys ids) = ids_at s ?g" by (simp add: GetKeys_def ids_at_def ids_def g)
  have dist: "distinct (GetKeys ids)" using rel by (auto simp: GetKeys_def ids_def split: option.splits)
  have at: "\<exists>txs m. ds_best S b = Some (txs, m) \<and> r' \<le> m \<and> ?g \<le> r'" if "b \<in> ids_at s r'" for b r' using rel that by blast
  have store: "map_of (db_batchStore s) b = (case ds_best S b of None \<Rightarrow> None
      | Some (txs, r) \<Rightarrow> if ?g \<le> r then Some \<lparr>db_txs = txs, db_maxRetIdx = r\<rparr> else None)" for b using rel by blast
  have there: "\<forall>b \<in> set (GetKeys ids). \<exists>y. map_of (db_batchStore s) b = Some y"
    using at [of _ ?g] unfolding keys store by fastforce
  have ok: "gomap_ok (db_batchStore s)" using rel by blast
  obtain store' where
    st: "gc_batches ?g (GetKeys ids) (db_batchStore s) = Inr store'" "gomap_ok store'"
      "\<And>b. map_of store' b = (if b \<in> set (GetKeys ids) \<and> (\<exists>y. map_of (db_batchStore s) b = Some y \<and> db_maxRetIdx y \<le> ?g)
        then None else map_of (db_batchStore s) b)" 
    using gc_batches_ok [OF dist there ok, of ?g] by (elim exE conjE) simp
  have less: "?g < r" using assms(2) g by simp
  have succ: "?g + 1 \<le> x \<longleftrightarrow> ?g \<le> x \<and> x \<noteq> ?g" for x using inc_le [OF less] word_less_succ [OF less]
    by (auto simp: word_less_nat_alt word_le_nat_alt word_unat_eq_iff)
  let ?s = "s\<lparr>db_batchStore := store', db_batchesByRetIdx := AList.delete ?g (db_batchesByRetIdx s), db_retIdx := ?g + 1\<rparr>"
  have ids': "ids_at ?s r' = (if r' = ?g then {} else ids_at s r')" for r' by (simp add: ids_at_def delete_conv')
  have best: "b \<in> ids_at s m" if "ds_best S b = Some (t, m)" "?g \<le> m" for b t m using rel that by blast
  have "db_rel ?s (S\<lparr>ds_gc := ds_gc S + 1\<rparr>)"
  proof (rule db_relI)
    fix b
    have "map_of store' b = (case ds_best S b of None \<Rightarrow> None
        | Some (txs, r) \<Rightarrow> if ?g + 1 \<le> r then Some \<lparr>db_txs = txs, db_maxRetIdx = r\<rparr> else None)"
      unfolding st(3) store keys succ using best [of b] by (auto split: option.splits)
    then show "map_of (db_batchStore ?s) b = (case ds_best (S\<lparr>ds_gc := ds_gc S + 1\<rparr>) b of None \<Rightarrow> None
        | Some (txs, r) \<Rightarrow> if ds_gc (S\<lparr>ds_gc := ds_gc S + 1\<rparr>) \<le> r then Some \<lparr>db_txs = txs, db_maxRetIdx = r\<rparr> else None)"
      by (simp split: option.split)
  next
    fix r' ids' assume "map_of (db_batchesByRetIdx ?s) r' = Some ids'"
    with rel show "gomap_ok ids'" by (auto simp: delete_conv' split: if_splits)
  next
    fix r' b assume "b \<in> ids_at ?s r'"
    with at [of b r'] show "\<exists>txs m. ds_best (S\<lparr>ds_gc := ds_gc S + 1\<rparr>) b = Some (txs, m) \<and> r' \<le> m \<and> ds_gc (S\<lparr>ds_gc := ds_gc S + 1\<rparr>) \<le> r'"
      by (auto simp: ids' succ split: if_splits)
  next
    fix b t m assume "ds_best (S\<lparr>ds_gc := ds_gc S + 1\<rparr>) b = Some (t, m)" "ds_gc (S\<lparr>ds_gc := ds_gc S + 1\<rparr>) \<le> m"
    with best [of b t m] show "b \<in> ids_at ?s m" by (auto simp: ids' succ)
  qed (use rel st(2) in simp_all)
  with st(1) show ?thesis unfolding g by blast
qed

lemma UponDbGarbageCollect_rel:
  assumes "db_rel s S"
  shows "\<exists>s'. UponDbGarbageCollect r s = Inr s' \<and> db_rel s' (S\<lparr>ds_gc := max r (ds_gc S)\<rparr>) \<and> db_out s' = db_out s"
  using assms
proof (induction r s arbitrary: S rule: UponDbGarbageCollect.induct)
  case (1 r s)
  have g: "db_retIdx s = ds_gc S" using 1(2) by (simp add: db_rel_def)
  show ?case
  proof (cases "db_retIdx s < r")
    case True
    from gc_step_rel [OF 1(2) True] obtain store where
      gc: "gc_batches (db_retIdx s) (GetKeys (case map_of (db_batchesByRetIdx s) (db_retIdx s) of None \<Rightarrow> [] | Some ids \<Rightarrow> ids))
          (db_batchStore s) = Inr store"
        "db_rel (s\<lparr>db_batchStore := store, db_batchesByRetIdx := AList.delete (db_retIdx s) (db_batchesByRetIdx s),
          db_retIdx := db_retIdx s + 1\<rparr>) (S\<lparr>ds_gc := ds_gc S + 1\<rparr>)" (is "db_rel ?s _") by blast
    from 1(1) [OF True gc] obtain s' where s': "UponDbGarbageCollect r ?s = Inr s'"
      "db_rel s' (S\<lparr>ds_gc := max r (ds_gc S + 1)\<rparr>)" "db_out s' = db_out s" by auto
    have "max r (ds_gc S + 1) = max r (ds_gc S)" using True inc_le [OF True] g by (simp add: max_absorb1 less_imp_le)
    then show ?thesis using s' True gc(1) by (subst UponDbGarbageCollect.simps) simp
  next
    case False
    then have "UponDbGarbageCollect r s = Inr s" by (subst UponDbGarbageCollect.simps) simp
    moreover have "max r (ds_gc S) = ds_gc S" using False g by (simp add: max_absorb2 not_less)
    ultimately show ?thesis using 1(2) by simp
  qed
qed

lemma DbApplyEvent_rel:
  assumes "db_rel s S"
  shows "\<exists>s'. DbApplyEvent ev s = Inr s' \<and> db_rel s' (fst (ds_exec ev S)) \<and> db_out s' = db_out s @ snd (ds_exec ev S)"
proof (cases ev)
  case (StoreBatch bid txs r origin)
  then show ?thesis using UponStoreBatch_rel [OF assms refl, of bid txs r origin] by simp
next
  case (LookupBatch bid origin)
  have "db_rel (s\<lparr>db_out := out\<rparr>) S = db_rel s S" for out by (simp add: db_rel_def ids_at_def)
  then show ?thesis using LookupBatch UponLookupBatch_rel [OF assms, of bid origin] assms by simp
next
  case (DbGarbageCollect r)
  then show ?thesis using UponDbGarbageCollect_rel [OF assms, of r] by simp
qed

lemma DbRun_rel:
  assumes "db_rel s S"
  shows "\<exists>s'. DbRun evs s = Inr s' \<and> db_rel s' (fst (ds_run evs S)) \<and> db_out s' = db_out s @ snd (ds_run evs S)"
  using assms
proof (induction evs arbitrary: s S)
  case (Cons ev evs)
  from DbApplyEvent_rel [OF Cons(2), of ev] obtain s1 where
    "DbApplyEvent ev s = Inr s1" "db_rel s1 (fst (ds_exec ev S))" "db_out s1 = db_out s @ snd (ds_exec ev S)" by blast
  with Cons(1) [of s1 "fst (ds_exec ev S)"] show ?case by (auto simp: Let_def case_prod_unfold)
qed simp

section \<open>Properties\<close>

text \<open>
  C16: Whatever batches are stored, looked up and garbage-collected in whatever order, the database never fails (in
  particular, garbage collection never dereferences a missing batch), and its answers are those of the
  specification: a batch is found exactly if some retention index under which it was stored has not been
  collected, and what is found are the transactions stored first under the highest index.
\<close>

theorem batchdb_refinement: "map_sum id db_out (DbRun evs DbNew) = Inr (snd (ds_run evs ds_New))"
  using DbRun_rel [OF db_rel_New, of evs] by (auto simp: DbNew_def)

end
