(* ===== verification/Spec2Isabelle.thy ===== *)
theory Spec2Isabelle
  imports PbftProperties IssProperties BatchFetcherProperties IndexedListProperties MempoolProperties BatchDB
begin

text \<open>
  A verification of the Trantor state machine replication system built with the Mir framework.
\<close>

end
